(* ===== verification/Prelude.thy ===== *)
theory Prelude
  imports Main "HOL-Library.Word" "HOL-Library.Char_ord" "HOL-Library.List_Lexorder"
    "HOL-Library.Sublist"
begin

text \<open>
  What the components share: the C library's character classes, number parsing and string
  search as far as the sources use them, the decimal output of \<open>printf\<close> and of streams, the
  range of C's \<open>int\<close>, the ordered map that stands for \<open>std::map\<close>, and the collections
  of facts (\<open>cstr\<close> for C strings, \<open>maps\<close> for ordered maps, \<open>arith32\<close> for
  machine ranges) the component proofs rest on. A C string is the list of its characters
  without the terminating NUL.
\<close>

named_theorems cstr "facts on C strings"
named_theorems maps "facts on ordered maps"
named_theorems arith32 "facts on machine ranges"

type_synonym byte = "8 word"

section \<open>C integers\<close>

text \<open>The conversion to a 32-bit \<open>int\<close> (two's complement, as the compilers used here do).\<close>

definition c_int :: "int \<Rightarrow> int" where
  "c_int x = (x + 2 ^ 31) mod 2 ^ 32 - 2 ^ 31"

definition int_range :: "int \<Rightarrow> bool" where
  "int_range x \<longleftrightarrow> - (2 ^ 31) \<le> x \<and> x < 2 ^ 31"

lemma c_int_id [arith32]: "int_range x \<Longrightarrow> c_int x = x"
  by (simp add: c_int_def int_range_def)

lemma c_int_range [arith32]: "int_range (c_int x)"
proof -
  have "0 \<le> (x + 2 ^ 31) mod 2 ^ 32" "(x + 2 ^ 31) mod 2 ^ 32 < (2 ^ 32 :: int)" by simp_all
  then show ?thesis unfolding c_int_def int_range_def by simp
qed

text \<open>C's division and remainder truncate towards zero.\<close>

definition c_div :: "int \<Rightarrow> int \<Rightarrow> int" where
  "c_div a b = sgn a * sgn b * (\<bar>a\<bar> div \<bar>b\<bar>)"

definition c_mod :: "int \<Rightarrow> int \<Rightarrow> int" where
  "c_mod a b = a - b * c_div a b"

lemma c_div_nonneg: "0 \<le> a \<Longrightarrow> 0 < b \<Longrightarrow> c_div a b = a div b"
  by (cases "a = 0") (simp_all add: c_div_def)

lemma c_mod_nonneg: "0 \<le> a \<Longrightarrow> 0 < b \<Longrightarrow> c_mod a b = a mod b"
  by (simp add: c_mod_def c_div_nonneg minus_mult_div_eq_mod)

section \<open>Characters\<close>

definition code :: "char \<Rightarrow> nat" where
  "code c = of_char c"

definition c_isdigit :: "char \<Rightarrow> bool" where
  "c_isdigit c \<longleftrightarrow> 48 \<le> code c \<and> code c \<le> 57"

definition c_isupper :: "char \<Rightarrow> bool" where
  "c_isupper c \<longleftrightarrow> 65 \<le> code c \<and> code c \<le> 90"

definition c_islower :: "char \<Rightarrow> bool" where
  "c_islower c \<longleftrightarrow> 97 \<le> code c \<and> code c \<le> 122"

definition c_isalnum :: "char \<Rightarrow> bool" where
  "c_isalnum c \<longleftrightarrow> c_isdigit c \<or> c_isupper c \<or> c_islower c"

definition c_isspace :: "char \<Rightarrow> bool" where
  "c_isspace c \<longleftrightarrow> code c = 32 \<or> 9 \<le> code c \<and> code c \<le> 13"

definition c_tolower :: "char \<Rightarrow> char" where
  "c_tolower c = (if c_isupper c then char_of (code c + 32) else c)"

definition c_toupper :: "char \<Rightarrow> char" where
  "c_toupper c = (if c_islower c then char_of (code c - 32) else c)"

lemma code_less: "code c < 256"
  by (simp add: code_def)

lemma code_inject [simp]: "code c = code d \<longleftrightarrow> c = d"
  by (simp add: code_def)

lemma code_char_of: "n < 256 \<Longrightarrow> code (char_of n) = n"
  by (simp add: code_def)

lemma c_tolower_idem [simp, cstr]: "c_tolower (c_tolower c) = c_tolower c"
proof (cases "c_isupper c")
  case True
  then have "code (char_of (code c + 32)) = code c + 32"
    by (intro code_char_of) (simp add: c_isupper_def)
  then show ?thesis using True by (simp add: c_tolower_def c_isupper_def)
qed (simp add: c_tolower_def)

lemma c_toupper_idem [simp, cstr]: "c_toupper (c_toupper c) = c_toupper c"
proof (cases "c_islower c")
  case True
  then have "code (char_of (code c - 32)) = code c - 32"
    using code_less [of c] by (intro code_char_of) linarith
  then have "\<not> c_islower (char_of (code c - 32))"
    using True by (auto simp: c_islower_def)
  then show ?thesis using True by (simp add: c_toupper_def)
qed (simp add: c_toupper_def)

section \<open>Searching strings\<close>

text \<open>\<open>strchr\<close>, \<open>std::find\<close> and \<open>std::string::find\<close> of one character, from the start.\<close>

fun find_chr :: "char \<Rightarrow> string \<Rightarrow> nat option" where
  "find_chr c [] = None"
| "find_chr c (x # xs) = (if x = c then Some 0 else map_option Suc (find_chr c xs))"

text \<open>\<open>strrchr\<close> and \<open>find_last_of\<close> of one character.\<close>

fun find_last :: "char \<Rightarrow> string \<Rightarrow> nat option" where
  "find_last c [] = None"
| "find_last c (x # xs) =
     (case find_last c xs of Some i \<Rightarrow> Some (Suc i)
      | None \<Rightarrow> if x = c then Some 0 else None)"

text \<open>\<open>strstr\<close> and \<open>std::string::find\<close> of a substring.\<close>

fun find_sub :: "string \<Rightarrow> string \<Rightarrow> nat option" where
  "find_sub p [] = (if p = [] then Some 0 else None)"
| "find_sub p (x # xs) =
     (if prefix p (x # xs) then Some 0 else map_option Suc (find_sub p xs))"

lemma find_chr_None [cstr]: "find_chr c s = None \<longleftrightarrow> c \<notin> set s"
  by (induction s) auto

lemma find_chr_Some [cstr]:
  "find_chr c s = Some i \<Longrightarrow> i < length s \<and> s ! i = c \<and> c \<notin> set (take i s)"
  by (induction s arbitrary: i) (auto split: if_splits)

lemma find_chr_append [cstr]: "c \<notin> set s \<Longrightarrow> find_chr c (s @ c # t) = Some (length s)"
  by (induction s) auto

lemma find_chr_append_notin:
  "c \<notin> set s \<Longrightarrow> find_chr c (s @ t) = map_option (\<lambda>i. length s + i) (find_chr c t)"
  by (induction s) (cases "find_chr c t"; auto)+

lemma find_last_None [cstr]: "find_last c s = None \<longleftrightarrow> c \<notin> set s"
  by (induction s) (auto split: option.splits)

lemma find_last_Some [cstr]:
  "find_last c s = Some i \<Longrightarrow> i < length s \<and> s ! i = c \<and> c \<notin> set (drop (Suc i) s)"
proof (induction s arbitrary: i)
  case Nil then show ?case by simp
next
  case (Cons x xs)
  show ?case
  proof (cases "find_last c xs")
    case None
    then have "c \<notin> set xs" by (simp add: find_last_None)
    with None Cons.prems show ?thesis by (auto split: if_splits)
  next
    case (Some j)
    with Cons show ?thesis by auto
  qed
qed

lemma find_last_append [cstr]: "c \<notin> set t \<Longrightarrow> find_last c (s @ c # t) = Some (length s)"
proof (induction s)
  case Nil then show ?case by (simp add: find_last_None [THEN iffD2])
qed auto

lemma find_sub_Some: "find_sub p s = Some i \<Longrightarrow> prefix p (drop i s) \<and> i \<le> length s"
  by (induction s arbitrary: i) (auto split: if_splits)

lemma find_sub_append: "find_sub p s = Some i \<Longrightarrow> find_sub p (s @ t) = Some i"
proof (induction s arbitrary: i)
  case Nil
  then show ?case by (cases t) (auto split: if_splits)
next
  case (Cons c s)
  show ?case
  proof (cases "prefix p (c # s)")
    case True
    then have "prefix p (c # s @ t)" by (metis append_Cons prefix_prefix)
    then show ?thesis using Cons.prems True by simp
  next
    case False
    then obtain j where j: "find_sub p s = Some j" "i = Suc j" using Cons.prems by auto
    have "\<not> prefix p (c # s @ t)"
    proof
      assume "prefix p (c # s @ t)"
      moreover have "prefix (c # s) (c # s @ t)" by simp
      moreover have "length p \<le> length (c # s)"
        using find_sub_Some [OF j(1)] by (auto dest!: prefix_length_le)
      ultimately have "prefix p (c # s)" by (rule prefix_length_prefix)
      with False show False by simp
    qed
    then show ?thesis using Cons.IH [OF j(1)] j by simp
  qed
qed

lemma find_sub_prefix: "find_sub p (p @ s) = Some 0"
  by (cases "p @ s") (use prefixI [of "p @ s" p s] in auto)

lemma find_sub_here: "p \<noteq> [] \<Longrightarrow> hd p \<notin> set u \<Longrightarrow> find_sub p (u @ p @ t) = Some (length u)"
proof (induction u)
  case Nil
  show ?case using find_sub_prefix by simp
next
  case (Cons c u)
  then have "\<not> prefix p (c # u @ p @ t)" by (cases p) auto
  then show ?case using Cons by simp
qed

section \<open>Numbers in strings\<close>

fun digits_val :: "int \<Rightarrow> string \<Rightarrow> int" where
  "digits_val a [] = a"
| "digits_val a (c # cs) =
     (if c_isdigit c then digits_val (10 * a + int (code c - 48)) cs else a)"

text \<open>
  \<open>strtol\<close> with base 10: white space, a sign, digits; saturating at the range of a 64-bit
  \<open>long\<close>. \<open>atoi\<close> is its conversion to \<open>int\<close>.
\<close>

definition c_strtol :: "string \<Rightarrow> int" where
  "c_strtol s =
     (let t = dropWhile c_isspace s;
          v = (case t of [] \<Rightarrow> 0
               | c # cs \<Rightarrow> if c = CHR ''-'' then - digits_val 0 cs
                            else if c = CHR ''+'' then digits_val 0 cs
                            else digits_val 0 t)
      in max (- (2 ^ 63)) (min (2 ^ 63 - 1) v))"

definition c_atoi :: "string \<Rightarrow> int" where
  "c_atoi s = c_int (c_strtol s)"

text \<open>The decimal notation that \<open>%i\<close> and stream output give.\<close>

fun show_nat :: "nat \<Rightarrow> string" where
  "show_nat n = (if n < 10 then [char_of (48 + n)]
                 else show_nat (n div 10) @ [char_of (48 + n mod 10)])"

declare show_nat.simps [simp del]

definition show_int :: "int \<Rightarrow> string" where
  "show_int i = (if i < 0 then CHR ''-'' # show_nat (nat (- i)) else show_nat (nat i))"

lemma code_digit: "n < 10 \<Longrightarrow> code (char_of (48 + n :: nat)) = 48 + n"
  by (intro code_char_of) simp

lemma isdigit_digit: "n < 10 \<Longrightarrow> c_isdigit (char_of (48 + n :: nat))"
  by (simp add: c_isdigit_def code_digit)

lemma show_nat_digits: "\<forall>c \<in> set (show_nat n). c_isdigit c"
proof (induction n rule: show_nat.induct)
  case (1 n)
  then show ?case by (subst show_nat.simps) (auto simp: isdigit_digit)
qed

lemma show_nat_nonempty [simp]: "show_nat n \<noteq> []"
  by (subst show_nat.simps) simp

lemma show_nat_length: "n < 10 ^ Suc k \<Longrightarrow> length (show_nat n) \<le> Suc k"
proof (induction k arbitrary: n)
  case 0
  then show ?case by (subst show_nat.simps) simp
next
  case (Suc k)
  then have "n div 10 < 10 ^ Suc k" by (simp add: less_mult_imp_div_less mult.commute)
  from Suc.IH [OF this] show ?case by (subst show_nat.simps) simp
qed

lemma digits_val_append:
  "\<forall>c \<in> set s. c_isdigit c \<Longrightarrow> digits_val a (s @ t) = digits_val (digits_val a s) t"
  by (induction s arbitrary: a) auto

lemma digits_val_stop: "t = [] \<or> \<not> c_isdigit (hd t) \<Longrightarrow> digits_val a t = a"
  by (cases t) auto

lemma digits_val_show_nat: "digits_val 0 (show_nat n) = int n"
proof (induction n rule: show_nat.induct)
  case (1 n)
  show ?case
  proof (cases "n < 10")
    case True
    then show ?thesis by (subst show_nat.simps) (simp add: isdigit_digit code_digit)
  next
    case False
    then have "digits_val 0 (show_nat n) =
        digits_val (int (n div 10)) [char_of (48 + n mod 10)]"
      using 1 by (subst show_nat.simps) (simp add: digits_val_append show_nat_digits)
    also have "\<dots> = int n"
      by (simp add: isdigit_digit code_digit) presburger
    finally show ?thesis .
  qed
qed

lemma show_nat_hd: "c_isdigit (hd (show_nat n))"
  using show_nat_digits [of n] by (metis list.set_sel(1) show_nat_nonempty)

lemma not_space_digit: "c_isdigit c \<Longrightarrow> \<not> c_isspace c"
  by (auto simp: c_isdigit_def c_isspace_def)

lemma code_signs [simp]: "code CHR ''-'' = 45" "code CHR ''+'' = 43" "code CHR '' '' = 32"
  "code CHR ''/'' = 47" "code CHR '':'' = 58"
  by (simp_all add: code_def)

lemma c_isdigit_0 [simp]: "c_isdigit CHR ''0''"
  by (simp add: c_isdigit_def code_def)

text \<open>Reading a run of digits, whatever non-digit follows.\<close>

lemma c_atoi_digits [cstr]:
  assumes "s \<noteq> []" "\<forall>c \<in> set s. c_isdigit c" "t = [] \<or> \<not> c_isdigit (hd t)"
    and "0 \<le> digits_val 0 s" "digits_val 0 s < 2 ^ 31"
  shows "c_atoi (s @ t) = digits_val 0 s"
proof -
  have dig: "digits_val 0 (s @ t) = digits_val 0 s"
    using assms(2,3) by (simp add: digits_val_append digits_val_stop)
  obtain c cs where s: "s = c # cs" using assms(1) by (metis list.exhaust)
  with assms(2) have "c_isdigit c" by simp
  then have "\<not> c_isspace c" "c \<noteq> CHR ''-''" "c \<noteq> CHR ''+''"
    by (auto simp: not_space_digit c_isdigit_def)
  then have "c_strtol (s @ t) = digits_val 0 s"
    using dig assms(4,5) s by (simp add: c_strtol_def)
  then show ?thesis using assms(4,5) by (simp add: c_atoi_def c_int_id int_range_def)
qed

lemma c_atoi_show_int [cstr]:
  assumes "int_range i" and "t = [] \<or> \<not> c_isdigit (hd t)"
  shows "c_atoi (show_int i @ t) = i"
proof (cases "i < 0")
  case True
  have "digits_val 0 (show_nat (nat (- i)) @ t) = - i"
    using True assms(2)
    by (simp add: digits_val_append show_nat_digits digits_val_show_nat digits_val_stop)
  then have "c_strtol (show_int i @ t) = i"
    using True assms(1) by (simp add: c_strtol_def show_int_def c_isspace_def int_range_def)
  then show ?thesis using assms(1) by (simp add: c_atoi_def c_int_id)
next
  case False
  then show ?thesis
    using c_atoi_digits [of "show_nat (nat i)" t] assms
    by (simp add: show_int_def show_nat_digits digits_val_show_nat int_range_def)
qed

lemma show_nat_inject: "show_nat m = show_nat n \<longleftrightarrow> m = n"
  by (metis digits_val_show_nat of_nat_eq_iff)

lemma show_int_inject: "show_int i = show_int j \<longleftrightarrow> i = j"
proof -
  have "CHR ''-'' # s \<noteq> show_nat n" for s n
  proof
    assume "CHR ''-'' # s = show_nat n"
    then have "hd (show_nat n) = CHR ''-''" by (metis list.sel(1))
    then show False using show_nat_hd [of n] by (simp add: c_isdigit_def code_def)
  qed
  then show ?thesis
    by (auto simp: show_int_def show_nat_inject split: if_splits) (metis+)?
qed

section \<open>Ordered maps (std::map)\<close>

text \<open>
  A \<open>std::map\<close> is the list of its entries in the order of iteration, keys strictly
  increasing. \<open>smap_put\<close> is \<open>m[k] = v\<close>, \<open>map_of\<close> is \<open>find\<close>.
\<close>

type_synonym ('k, 'v) smap = "('k \<times> 'v) list"

fun smap_put :: "'k::linorder \<Rightarrow> 'v \<Rightarrow> ('k, 'v) smap \<Rightarrow> ('k, 'v) smap" where
  "smap_put k v [] = [(k, v)]"
| "smap_put k v ((a, b) # m) =
     (if k < a then (k, v) # (a, b) # m
      else if k = a then (k, v) # m
      else (a, b) # smap_put k v m)"

text \<open>\<open>upper_bound\<close>: the first entry whose key is greater.\<close>

fun smap_upper :: "'k::linorder \<Rightarrow> ('k, 'v) smap \<Rightarrow> ('k \<times> 'v) option" where
  "smap_upper k [] = None"
| "smap_upper k ((a, b) # m) = (if k < a then Some (a, b) else smap_upper k m)"

text \<open>\<open>erase(k)\<close>.\<close>

definition smap_del :: "'k \<Rightarrow> ('k, 'v) smap \<Rightarrow> ('k, 'v) smap" where
  "smap_del k m = filter (\<lambda>e. fst e \<noteq> k) m"

definition smap_ok :: "('k::linorder, 'v) smap \<Rightarrow> bool" where
  "smap_ok m \<longleftrightarrow> sorted_wrt (<) (map fst m)"

lemma smap_ok_distinct: "smap_ok m \<Longrightarrow> distinct (map fst m)"
  by (simp add: smap_ok_def strict_sorted_iff)

lemma smap_put_keys: "set (map fst (smap_put k v m)) = insert k (set (map fst m))"
  by (induction k v m rule: smap_put.induct) auto

lemma smap_put_ok: "smap_ok m \<Longrightarrow> smap_ok (smap_put k v m)"
proof (induction k v m rule: smap_put.induct)
  case (2 k v a b m)
  have *: "\<And>x. x \<in> set (map fst (smap_put k v m)) \<Longrightarrow> x = k \<or> x \<in> set (map fst m)"
    by (simp only: smap_put_keys) blast
  from 2 show ?case using * by (fastforce simp: smap_ok_def)
qed (simp add: smap_ok_def)

lemma map_of_smap_put: "map_of (smap_put k v m) = (map_of m)(k \<mapsto> v)"
  by (induction k v m rule: smap_put.induct) (auto simp: fun_eq_iff)

lemma map_of_smap_del: "map_of (smap_del k m) = (map_of m)(k := None)"
  by (induction m) (auto simp: smap_del_def fun_eq_iff)

lemma smap_del_ok: "smap_ok m \<Longrightarrow> smap_ok (smap_del k m)"
  by (induction m) (auto simp: smap_ok_def smap_del_def)

text \<open>
  The interface of the maps: what the components rely on, whatever the representation.
\<close>

locale ordered_map =
  fixes empty :: "'m"
    and put :: "'k \<Rightarrow> 'v \<Rightarrow> 'm \<Rightarrow> 'm"
    and del :: "'k \<Rightarrow> 'm \<Rightarrow> 'm"
    and get :: "'m \<Rightarrow> 'k \<Rightarrow> 'v option"
    and ok :: "'m \<Rightarrow> bool"
  assumes get_empty: "get empty = (\<lambda>_. None)"
    and get_put: "ok m \<Longrightarrow> get (put k v m) = (get m)(k := Some v)"
    and get_del: "ok m \<Longrightarrow> get (del k m) = (get m)(k := None)"
    and ok_empty: "ok empty"
    and ok_put: "ok m \<Longrightarrow> ok (put k v m)"
    and ok_del: "ok m \<Longrightarrow> ok (del k m)"
begin

lemma get_put_same: "ok m \<Longrightarrow> get (put k v m) k = Some v"
  by (simp add: get_put)

lemma get_put_other: "ok m \<Longrightarrow> j \<noteq> k \<Longrightarrow> get (put k v m) j = get m j"
  by (simp add: get_put)

lemma get_del_same: "ok m \<Longrightarrow> get (del k m) k = None"
  by (simp add: get_del)

lemma put_fold_ok: "ok m \<Longrightarrow> ok (fold (\<lambda>(k, v). put k v) kvs m)"
  by (induction kvs arbitrary: m) (auto intro: ok_put)

lemma get_fold_put:
  "ok m \<Longrightarrow> get (fold (\<lambda>(k, v). put k v) kvs m) k =
     (case map_of (rev kvs) k of None \<Rightarrow> get m k | Some v \<Rightarrow> Some v)"
  by (induction kvs arbitrary: m)
    (auto simp: get_put ok_put map_add_def split: option.splits)

end

interpretation sm: ordered_map "[]" smap_put smap_del map_of smap_ok
  by unfold_locales
    (simp_all add: map_of_smap_put map_of_smap_del smap_put_ok smap_del_ok, simp add: smap_ok_def)

lemmas smap_laws [maps] = sm.get_put sm.get_del sm.ok_put sm.ok_del sm.ok_empty
  sm.get_put_same sm.get_put_other

lemma smap_upper_Some:
  "smap_upper k m = Some e \<Longrightarrow> e \<in> set m \<and> k < fst e"
  by (induction k m rule: smap_upper.induct) (auto split: if_splits)

lemma smap_upper_None: "smap_upper k m = None \<longleftrightarrow> (\<forall>e \<in> set m. fst e \<le> k)"
  by (induction k m rule: smap_upper.induct) auto

section \<open>Bytes\<close>

text \<open>Bitwise operations on bytes as arithmetic on their values.\<close>

lemma unat_byte_less: "unat (w :: byte) < 256"
proof -
  have "unat w < 2 ^ LENGTH(8)" by (rule unsigned_less)
  then show ?thesis by simp
qed

lemma unat_take_byte: "unat (take_bit n (w :: byte)) = unat w mod 2 ^ n"
  by (metis unsigned_take_bit_eq take_bit_eq_mod)

lemma unat_drop_byte: "unat (drop_bit n (w :: byte)) = unat w div 2 ^ n"
  by (metis unat_drop_bit_eq drop_bit_eq_div)

lemma unat_push_byte: "unat (push_bit n (w :: byte)) = unat w * 2 ^ n mod 256"
  using unsigned_push_bit_eq [of n w, where 'a = nat] take_bit_eq_mod [of 8 "push_bit n (unat w)"]
  by (simp add: push_bit_eq_mult [where 'a = nat] del: unsigned_push_bit_eq)

lemma unat_plus_byte: "unat ((v :: byte) + w) = (unat v + unat w) mod 256"
  by (simp add: unat_word_ariths)

section \<open>Codecs\<close>

text \<open>
  What a reader of encoded data relies on: on the data it is meant for, decoding undoes encoding.
\<close>

locale codec =
  fixes enc :: "'a \<Rightarrow> 'b" and dec :: "'b \<Rightarrow> 'a" and ok :: "'a \<Rightarrow> bool"
  assumes dec_enc: "ok x \<Longrightarrow> dec (enc x) = x"
begin

lemma enc_inject: "ok x \<Longrightarrow> ok y \<Longrightarrow> enc x = enc y \<longleftrightarrow> x = y"
  using dec_enc by metis

lemma enc_dec: "ok x \<Longrightarrow> y = enc x \<Longrightarrow> enc (dec y) = y"
  by (simp add: dec_enc)

lemma inj_on_enc: "inj_on enc {x. ok x}"
  by (rule inj_onI) (metis dec_enc mem_Collect_eq)

end

interpretation decimal: codec show_int c_atoi int_range
  using c_atoi_show_int [of _ "[]"] by unfold_locales simp

end
