(* ===== verification/Php_Array.thy ===== *)
theory Php_Array
  imports Prelude
begin

text \<open>
  The data a PHP script hands to the rotator extension, and the reads of it that
  \<open>rotator/rotator_ctrl.cpp\<close> wraps. A PHP array is an ordered list of key/value pairs with
  distinct keys, integers (\<open>KIdx\<close>) or strings (\<open>KStr\<close>). The Zend accessors the source
  calls only read such data: \<open>zend_hash_num_elements\<close> is the length of the list,
  \<open>zend_hash_str_find\<close>, \<open>zend_hash_index_find\<close> and \<open>zend_hash_index_exists\<close> are
  \<open>map_of\<close>, and the \<open>ZEND_HASH_FOREACH\<close> loops walk the list in order. Zend's hash of a
  string key, which the foreach loops report as the bucket's number, is a parameter
  (\<open>zhash\<close>) of the definitions that read it.
\<close>

datatype zkey = KIdx nat | KStr string

datatype zval = ZUndef | ZNull | ZFalse | ZTrue | ZLong int | ZDouble int
  | ZString string | ZArray "(zkey \<times> zval) list"

type_synonym hash_table = "(zkey \<times> zval) list"

text \<open>\<open>array_size\<close>: 0 for a null table.\<close>

definition array_size :: "hash_table option \<Rightarrow> nat" where
  "array_size ht = (case ht of None \<Rightarrow> 0 | Some t \<Rightarrow> length t)"

text \<open>\<open>HASH_OF\<close>: the table of an array, null for any other value.\<close>

fun hash_of :: "zval \<Rightarrow> hash_table option" where
  "hash_of (ZArray t) = Some t"
| "hash_of _ = None"

text \<open>\<open>get_node_ptr\<close>: the entry under a name, if it is an array.\<close>

definition get_node_ptr :: "hash_table option \<Rightarrow> string \<Rightarrow> hash_table option" where
  "get_node_ptr ht node_name =
     (case ht of None \<Rightarrow> None
      | Some t \<Rightarrow> (case map_of t (KStr node_name) of
          Some (ZArray a) \<Rightarrow> Some a
        | _ \<Rightarrow> None))"

text \<open>\<open>find_data_in_node\<close>: the entry under a name, of any type.\<close>

definition find_data_in_node :: "hash_table option \<Rightarrow> string \<Rightarrow> zval option" where
  "find_data_in_node ht str =
     (case ht of None \<Rightarrow> None | Some t \<Rightarrow> map_of t (KStr str))"

text \<open>The number of a bucket as the foreach loops report it.\<close>

definition bucket_index :: "(string \<Rightarrow> nat) \<Rightarrow> zkey \<Rightarrow> nat" where
  "bucket_index zhash k = (case k of KIdx i \<Rightarrow> i | KStr s \<Rightarrow> zhash s)"

text \<open>
  \<open>is_equal\<close> on two string values: true when one is empty, otherwise
  \<open>strncmp(str1, str2, len2) == 0\<close>, which asks only that the second is a prefix of the first.
\<close>

definition is_equal :: "string \<Rightarrow> string \<Rightarrow> bool" where
  "is_equal str1 str2 \<longleftrightarrow> str1 = [] \<or> str2 = [] \<or> prefix str2 str1"

text \<open>\<open>is_valid_type\<close>: two non-empty strings.\<close>

definition is_valid_type :: "zval option \<Rightarrow> zval option \<Rightarrow> bool" where
  "is_valid_type ex tr \<longleftrightarrow>
     (case (ex, tr) of
        (Some (ZString a), Some (ZString b)) \<Rightarrow> a \<noteq> [] \<and> b \<noteq> []
      | _ \<Rightarrow> False)"

text \<open>
  \<open>search_next_hash_index\<close>: the next number from \<open>index\<close> on that the table holds, or the
  table's size when the scan runs out.
\<close>

function search_next_hash_index :: "hash_table \<Rightarrow> nat \<Rightarrow> nat" where
  "search_next_hash_index ht i =
     (if i < length ht then
        if map_of ht (KIdx i) \<noteq> None then i else search_next_hash_index ht (Suc i)
      else i)"
  by pat_completeness auto
termination
  by (relation "measure (\<lambda>(ht, i). length ht - i)") auto

declare search_next_hash_index.simps [simp del]

lemma search_next_ge: "i \<le> search_next_hash_index ht i"
proof (induction ht i rule: search_next_hash_index.induct)
  case (1 ht i)
  then show ?case by (subst search_next_hash_index.simps) auto
qed

lemma search_next_le: "i \<le> length ht \<Longrightarrow> search_next_hash_index ht i \<le> length ht"
proof (induction ht i rule: search_next_hash_index.induct)
  case (1 ht i)
  then show ?case by (subst search_next_hash_index.simps) auto
qed

lemma search_next_exists:
  "search_next_hash_index ht i < length ht \<Longrightarrow>
     map_of ht (KIdx (search_next_hash_index ht i)) \<noteq> None"
proof (induction ht i rule: search_next_hash_index.induct)
  case (1 ht i)
  show ?case
  proof (cases "i < length ht \<and> map_of ht (KIdx i) = None")
    case True
    then have "search_next_hash_index ht i = search_next_hash_index ht (Suc i)"
      by (subst search_next_hash_index.simps) simp
    with True 1 show ?thesis by simp
  next
    case False
    then have "search_next_hash_index ht i = i"
      by (subst search_next_hash_index.simps) auto
    with False "1.prems" show ?thesis by simp
  qed
qed

lemma search_next_first:
  "i \<le> j \<Longrightarrow> j < search_next_hash_index ht i \<Longrightarrow> map_of ht (KIdx j) = None"
proof (induction ht i arbitrary: j rule: search_next_hash_index.induct)
  case (1 ht i)
  show ?case
  proof (cases "i < length ht \<and> map_of ht (KIdx i) = None")
    case True
    then have eq: "search_next_hash_index ht i = search_next_hash_index ht (Suc i)"
      by (subst search_next_hash_index.simps) simp
    show ?thesis
    proof (cases "i = j")
      case False
      with "1.prems" have "Suc i \<le> j" by simp
      then show ?thesis using "1.IH" True "1.prems"(2) eq by simp
    qed (use True in simp)
  next
    case False
    then have "search_next_hash_index ht i = i"
      by (subst search_next_hash_index.simps) auto
    with "1.prems" show ?thesis by simp
  qed
qed

end
