(* ===== verification/Timer.thy ===== *)
theory Timer
  imports Prelude "HOL-Library.Monad_Syntax"
begin

text \<open>
  \<open>rotator/obj_timer.h\<close>: the clock of a playlist under construction. \<open>TTimer\<close> adds up the
  length of the tracks taken so far, counts down the hour slot of the schedule, and knows when
  the planned length is reached. Track lengths arrive as \<open>hh:mm:ss\<close> text. A result \<open>None\<close>
  is undefined behaviour of the C++ (here: reading through a null pointer plus one, or an
  \<open>int\<close> product out of range). The wall clock is an argument (\<open>wall\<close>).
\<close>

definition HOUR_INTERVAL :: int where "HOUR_INTERVAL = 3600"
definition DEFAULT_TRACK_DURATION :: string where "DEFAULT_TRACK_DURATION = ''00:03:00''"
definition DEFAULT_DAY :: int where "DEFAULT_DAY = 24"

record ttimer =
  m_remained_interval :: int
  m_playlist_duration :: int
  m_24hours :: int
  m_default_track_duration :: int

text \<open>The local time of day that \<open>localtime\<close> gives for now.\<close>

record wall =
  tm_hour :: int
  tm_min :: int
  tm_sec :: int

text \<open>A product in \<open>int\<close>.\<close>

definition int_mult :: "int \<Rightarrow> int \<Rightarrow> int option" where
  "int_mult a b = (if int_range (a * b) then Some (a * b) else None)"

text \<open>
  \<open>get_seconds\<close>. A null pointer gives the default length, as does a sum of zero. The source
  computes \<open>strchr(s, ':') + 1\<close> before it tests the pointer, so text without two colons is
  read through an invalid pointer.
\<close>

definition get_seconds :: "int \<Rightarrow> string option \<Rightarrow> int option" where
  "get_seconds dflt stime =
     (case stime of
        None \<Rightarrow> Some dflt
      | Some s \<Rightarrow> do {
          hours \<leftarrow> int_mult (c_atoi s) 3600;
          i \<leftarrow> find_chr (CHR '':'') s;
          let s1 = drop (Suc i) s;
          minutes \<leftarrow> int_mult (c_atoi s1) 60;
          j \<leftarrow> find_chr (CHR '':'') s1;
          let s2 = drop (Suc j) s1;
          let value = hours + minutes + c_atoi s2;
          Some (if value = 0 then dflt else value)
        })"

definition set_general_duration :: "ttimer \<Rightarrow> string option \<Rightarrow> ttimer option" where
  "set_general_duration t str =
     (case str of
        None \<Rightarrow> Some (t\<lparr>m_24hours := HOUR_INTERVAL * DEFAULT_DAY\<rparr>)
      | Some _ \<Rightarrow> do { v \<leftarrow> get_seconds (m_default_track_duration t) str;
                       Some (t\<lparr>m_24hours := v\<rparr>) })"

definition TTimer_new :: "string option \<Rightarrow> ttimer option" where
  "TTimer_new str = do {
     d \<leftarrow> get_seconds 0 (Some DEFAULT_TRACK_DURATION);
     set_general_duration
       \<lparr>m_remained_interval = HOUR_INTERVAL, m_playlist_duration = 0, m_24hours = 0,
        m_default_track_duration = d\<rparr> str }"

definition set_interval :: "ttimer \<Rightarrow> int \<Rightarrow> ttimer" where
  "set_interval t counter = t\<lparr>m_remained_interval := HOUR_INTERVAL * counter\<rparr>"

definition remained_interval :: "ttimer \<Rightarrow> string option \<Rightarrow> (int \<times> ttimer) option" where
  "remained_interval t stime = do {
     v \<leftarrow> get_seconds (m_default_track_duration t) stime;
     let t' = t\<lparr>m_remained_interval := m_remained_interval t - v\<rparr>;
     Some (m_remained_interval t', t') }"

definition interval_completed :: "ttimer \<Rightarrow> bool" where
  "interval_completed t \<longleftrightarrow> m_remained_interval t \<le> 0"

definition append_playlist_duration :: "ttimer \<Rightarrow> string option \<Rightarrow> ttimer option" where
  "append_playlist_duration t stime =
     (case stime of
        None \<Rightarrow> Some t
      | Some _ \<Rightarrow> do {
          v \<leftarrow> get_seconds (m_default_track_duration t) stime;
          Some (t\<lparr>m_playlist_duration := m_playlist_duration t + v\<rparr>) })"

definition clear_playlist_duration :: "ttimer \<Rightarrow> ttimer" where
  "clear_playlist_duration t = t\<lparr>m_playlist_duration := 0\<rparr>"

definition is_24hours_completed :: "ttimer \<Rightarrow> bool" where
  "is_24hours_completed t \<longleftrightarrow> m_24hours t \<le> m_playlist_duration t"

definition set_default_track_duration :: "ttimer \<Rightarrow> string option \<Rightarrow> ttimer option" where
  "set_default_track_duration t str =
     (case str of None \<Rightarrow> Some t
      | Some _ \<Rightarrow> do { v \<leftarrow> get_seconds (m_default_track_duration t) str;
                       Some (t\<lparr>m_default_track_duration := v\<rparr>) })"

definition get_current_hour :: "wall \<Rightarrow> int" where
  "get_current_hour w = tm_hour w"

text \<open>Seconds from the full hour \<open>m_hour\<close> of today to now (a day without a clock change).\<close>

definition seconds_between_times :: "wall \<Rightarrow> int \<Rightarrow> int" where
  "seconds_between_times w m_hour =
     (tm_hour w * 3600 + tm_min w * 60 + tm_sec w) - m_hour * 3600"

definition define_playlist_duration :: "wall \<Rightarrow> ttimer \<Rightarrow> int \<Rightarrow> ttimer" where
  "define_playlist_duration w t current_hour =
     (let t1 = t\<lparr>m_remained_interval := m_remained_interval t - seconds_between_times w current_hour\<rparr>
      in t1\<lparr>m_playlist_duration := m_playlist_duration t1 + seconds_between_times w 0\<rparr>)"

text \<open>
  \<open>convert_seconds_to_char\<close>: \<open>%02li:%02li:%02li\<close> into a buffer of nine bytes, which a
  longer text overruns (\<open>None\<close>).
\<close>

definition pad2 :: "int \<Rightarrow> string" where
  "pad2 v = (if 0 \<le> v \<and> v < 10 then CHR ''0'' # show_int v else show_int v)"

definition convert_seconds_to_char :: "int \<Rightarrow> string option" where
  "convert_seconds_to_char t =
     (let s = pad2 (c_div t 3600) @ CHR '':'' # pad2 (c_mod (c_div t 60) 60) @
              CHR '':'' # pad2 (c_mod t 60)
      in if length s < 9 then Some s else None)"

section \<open>Printing and reading back\<close>

lemma pad2_digits: "0 \<le> v \<Longrightarrow> pad2 v \<noteq> [] \<and> (\<forall>c \<in> set (pad2 v). c_isdigit c)"
  using show_nat_digits [of "nat v"] by (auto simp: pad2_def show_int_def)

lemma digits_val_pad2: "0 \<le> v \<Longrightarrow> digits_val 0 (pad2 v) = v"
  by (auto simp: pad2_def show_int_def digits_val_show_nat c_isdigit_def code_def)

lemma colon_notin_pad2: "0 \<le> v \<Longrightarrow> CHR '':'' \<notin> set (pad2 v)"
  using pad2_digits [of v] by (fastforce simp: c_isdigit_def)

lemma c_atoi_pad2 [cstr]:
  "0 \<le> v \<Longrightarrow> v < 2 ^ 31 \<Longrightarrow> c_atoi (pad2 v @ CHR '':'' # t) = v"
  "0 \<le> v \<Longrightarrow> v < 2 ^ 31 \<Longrightarrow> c_atoi (pad2 v) = v"
  using c_atoi_digits [of "pad2 v" "CHR '':'' # t"] c_atoi_digits [of "pad2 v" "[]"]
    pad2_digits [of v]
  by (simp_all add: digits_val_pad2 c_isdigit_def)

lemma get_seconds_fields:
  assumes "0 \<le> h" "h * 3600 < 2 ^ 31" "0 \<le> m" "m < 60" "0 \<le> s" "s < 60"
  shows "get_seconds d (Some (pad2 h @ CHR '':'' # pad2 m @ CHR '':'' # pad2 s)) =
    Some (if h * 3600 + m * 60 + s = 0 then d else h * 3600 + m * 60 + s)"
  using assms
  by (simp add: get_seconds_def c_atoi_pad2 find_chr_append colon_notin_pad2 int_mult_def
      int_range_def)

lemma length_pad2: "0 \<le> v \<Longrightarrow> v < 100 \<Longrightarrow> length (pad2 v) = 2"
  by (auto simp: pad2_def show_int_def show_nat.simps [of "nat v"]
      show_nat.simps [of "nat v div 10"] nat_less_iff zdiv_int div_less)

text \<open>
  The clock's notation is read back exactly: every length from one second to under a hundred
  hours fits the nine-byte buffer of \<open>convert_seconds_to_char\<close>, and \<open>get_seconds\<close> of the text
  is that length, whatever the default track length.
\<close>

theorem convert_get_seconds:
  assumes "0 < t" "t < 360000"
  shows "\<exists>s. convert_seconds_to_char t = Some s \<and> get_seconds d (Some s) = Some t"
proof -
  define h m c where "h = t div 3600" and "m = t div 60 mod 60" and "c = t mod 60"
  have "h = t div 60 div 60" by (simp add: h_def flip: zdiv_zmult2_eq)
  then have "h * 60 + m = t div 60" by (simp add: m_def)
  moreover have "t div 60 * 60 + c = t" by (simp add: c_def)
  ultimately have sum: "h * 3600 + m * 60 + c = t" by linarith
  have bounds: "0 \<le> m" "m < 60" "0 \<le> c" "c < 60" "0 \<le> h"
    using assms by (simp_all add: h_def m_def c_def pos_imp_zdiv_nonneg_iff)
  then have "h < 100" using sum assms by linarith
  moreover have "convert_seconds_to_char t =
      Some (pad2 h @ CHR '':'' # pad2 m @ CHR '':'' # pad2 c)"
    using assms bounds \<open>h < 100\<close> length_pad2 [of h] length_pad2 [of m] length_pad2 [of c]
    by (simp add: convert_seconds_to_char_def c_div_nonneg c_mod_nonneg
        pos_imp_zdiv_nonneg_iff h_def m_def c_def)
  ultimately show ?thesis
    using get_seconds_fields [of h m c d] bounds sum assms by simp
qed

theorem convert_get_seconds_witness:
  "\<exists>s. convert_seconds_to_char 3725 = Some s \<and> get_seconds 180 (Some s) = Some 3725"
  by (rule convert_get_seconds) simp_all

end
