(* ===== verification/Rotator.thy ===== *)
theory Rotator
  imports Php_Array Timer
begin

text \<open>
  \<open>rotator/rotator_ctrl.h\<close> and \<open>rotator/rotator_ctrl.cpp\<close>: \<open>TRotator_Ctrl\<close>, the PHP
  extension's engine that builds a broadcast playlist. It reads folders of tracks, a history of
  what was on air, an order of folders or a schedule of orders by hour, and the rules "the same
  singer (the same track) again only after so many tracks"; then it walks the folders in turn,
  takes from each the next track the rules allow, and stops when the playlist has its number of
  tracks or its length in time.

  The class is the record \<open>rotator\<close>; each method is a function of the state. A result
  \<open>None\<close> is undefined behaviour of the C++ (a null or end iterator dereferenced, a value
  of the wrong type read as a string). \<open>std::map\<close> is \<open>smap\<close>, an iterator is the key it
  stands on (\<open>None\<close> for \<open>end()\<close>). The history holds fewer than 2 to the 31 entries, so
  that its size is a key of type \<open>int\<close>.
\<close>

section \<open>State\<close>

record trules =
  m_singer_limit :: int
  m_track_limit :: int
  m_return_interval :: int
  m_max_rules :: int

record thistory =
  singer :: string
  title :: string
  h_statistics :: int

record thfolder =
  ht :: hash_table
  index :: nat
  bypass :: bool
  fsize :: nat
  service :: bool
  f_statistics :: int

type_synonym folder_order = "(int, string) smap"

record rotator =
  php_array :: hash_table
  play_list :: "hash_table list"
  m_order :: bool
  m_schedule :: bool
  m_special_conditions :: bool
  max_tracks :: int
  m_error :: nat
  general_duration :: "string option"
  construction_complete :: bool
  pTimer :: ttimer
  max_ht_size :: nat
  folders_order :: folder_order
  folders :: "(string, bool) smap"
  hfolders :: "(string, thfolder) smap"
  m_increase_counter :: int
  m_previos_playlist_size :: int
  sRules :: trules
  mRules :: "(string, trules) smap"
  schedule :: "(int, folder_order) smap"
  sched_it :: "int option"
  mHistory :: "(int, thistory) smap"
  set_start_folder :: bool

definition EXECUTOR_ERROR :: nat where "EXECUTOR_ERROR = 1"
definition TRACK_ERROR :: nat where "TRACK_ERROR = 2"
definition INPUT_ARRAY_ERROR :: nat where "INPUT_ARRAY_ERROR = 8"
definition MAX_INCREASE_COUNTER :: int where "MAX_INCREASE_COUNTER = 3"

datatype what_to_do = ADD_TO_PLAYLIST | NEED_TO_CONTINUE | NEED_TO_CHECK_IN_HISTORY
  | NEED_TO_SKIP_RECORD

abbreviation smap_begin :: "('k, 'v) smap \<Rightarrow> ('k \<times> 'v) option" where
  "smap_begin m \<equiv> (case m of [] \<Rightarrow> None | e # _ \<Rightarrow> Some e)"

section \<open>Sizes, completion\<close>

definition rsize :: "rotator \<Rightarrow> int" where
  "rsize r = int (length (play_list r))"

definition increase_max_ht_size :: "rotator \<Rightarrow> nat \<Rightarrow> rotator" where
  "increase_max_ht_size r v = (if max_ht_size r < v then r\<lparr>max_ht_size := v\<rparr> else r)"

definition set_special_conditions :: "rotator \<Rightarrow> bool" where
  "set_special_conditions r \<longleftrightarrow>
     max_tracks r \<noteq> 0 \<or> m_schedule r \<or> general_duration r \<noteq> None"

definition playlist_construction_completed :: "rotator \<Rightarrow> bool" where
  "playlist_construction_completed r \<longleftrightarrow>
     max_tracks r > 0 \<and> rsize r \<ge> max_tracks r
     \<or> (m_schedule r \<or> general_duration r \<noteq> None) \<and> is_24hours_completed (pTimer r)"

definition playlist_size_increase :: "rotator \<Rightarrow> bool \<times> rotator" where
  "playlist_size_increase r =
     (let sz = rsize r in
      if sz > m_previos_playlist_size r then
        (True, r\<lparr>m_previos_playlist_size := sz, m_increase_counter := 0\<rparr>)
      else
        let c = m_increase_counter r + 1; r1 = r\<lparr>m_increase_counter := c\<rparr> in
        if c > MAX_INCREASE_COUNTER then
          let e = (if m_singer_limit (sRules r) \<ge> sz then EXECUTOR_ERROR else m_error r);
              e' = (if m_track_limit (sRules r) \<ge> sz then or e TRACK_ERROR else e)
          in (False, r1\<lparr>m_error := e'\<rparr>)
        else (True, r1))"

section \<open>Reading the input array\<close>

definition rule_value :: "int \<Rightarrow> zval option \<Rightarrow> int" where
  "rule_value d v = (case v of Some (ZString s) \<Rightarrow> c_atoi s
                     | Some (ZLong n) \<Rightarrow> c_int n | _ \<Rightarrow> d)"

definition search_rules :: "trules \<Rightarrow> hash_table \<Rightarrow> bool \<Rightarrow> trules" where
  "search_rules common t common_rules =
     (let s0 = (if common_rules then 0 else m_singer_limit common);
          t0 = (if common_rules then 0 else m_track_limit common);
          f0 = (if common_rules then 0 else m_return_interval common);
          node = get_node_ptr (Some t) ''rules'';
          s = (if common_rules
               then rule_value s0 (find_data_in_node node ''singer_interval'') else s0);
          k = (if common_rules
               then rule_value t0 (find_data_in_node node ''track_interval'') else t0);
          f = (if common_rules
               then rule_value f0 (find_data_in_node node ''folder_interval'') else f0)
      in \<lparr>m_singer_limit = s, m_track_limit = k, m_return_interval = f,
          m_max_rules = (if s < k then k else s)\<rparr>)"

text \<open>One folder: its \<open>tracks\<close> array, if there is one and it is not empty.\<close>

definition search_tracks :: "rotator \<Rightarrow> zval \<Rightarrow> string \<Rightarrow> rotator option" where
  "search_tracks r z_node key_word =
     (case z_node of
        ZUndef \<Rightarrow> Some r
      | ZArray t \<Rightarrow>
          Some (case get_node_ptr (Some t) ''tracks'' of
            None \<Rightarrow> r
          | Some tr \<Rightarrow>
              if tr = [] then r
              else
                let hf = \<lparr>ht = tr, index = search_next_hash_index tr 0, bypass = False,
                          fsize = length tr,
                          service = (map_of t (KStr ''service'') = Some ZTrue),
                          f_statistics = 1\<rparr>
                in increase_max_ht_size
                     (r\<lparr>hfolders := smap_put key_word hf (hfolders r),
                        folders := smap_put key_word True (folders r)\<rparr>) (length tr))
      | _ \<Rightarrow> None)"

fun search_folders_loop :: "hash_table \<Rightarrow> rotator \<Rightarrow> rotator option" where
  "search_folders_loop [] r = Some r"
| "search_folders_loop ((k, v) # es) r =
     (case k of
        KIdx _ \<Rightarrow> search_folders_loop es r
      | KStr m_str \<Rightarrow> do {
          r1 \<leftarrow> search_tracks r v m_str;
          let r2 = (case (map_of (hfolders r1) m_str, v) of
                      (Some _, ZArray t) \<Rightarrow>
                        r1\<lparr>mRules := smap_put m_str (search_rules (sRules r1) t False) (mRules r1)\<rparr>
                    | _ \<Rightarrow> r1);
          search_folders_loop es r2 })"

definition search_folders :: "rotator \<Rightarrow> hash_table \<Rightarrow> (bool \<times> rotator) option" where
  "search_folders r arr =
     (case get_node_ptr (Some arr) ''folders'' of
        None \<Rightarrow> Some (False, r)
      | Some t \<Rightarrow> if t = [] then Some (False, r)
                  else map_option (Pair True) (search_folders_loop t r))"

text \<open>The titles of the history that \<open>is_equal\<close> takes for the given one.\<close>

fun calc_statistics_in_history :: "hash_table \<Rightarrow> string \<Rightarrow> int" where
  "calc_statistics_in_history [] str = 0"
| "calc_statistics_in_history ((k, v) # es) str =
     (case v of
        ZArray t \<Rightarrow>
          (case map_of t (KStr ''title'') of
             Some (ZString tmp_title) \<Rightarrow> (if is_equal str tmp_title then 1 else 0)
           | _ \<Rightarrow> 0)
      | _ \<Rightarrow> 0) + calc_statistics_in_history es str"

fun search_history_loop ::
  "(string \<Rightarrow> nat) \<Rightarrow> hash_table \<Rightarrow> hash_table \<Rightarrow> (int, thistory) smap \<Rightarrow> (int, thistory) smap option"
where
  "search_history_loop zhash hist [] H = Some H"
| "search_history_loop zhash hist ((k, v) # es) H =
     (case v of
        ZArray t \<Rightarrow>
          (case (map_of t (KStr ''executor''), map_of t (KStr ''title'')) of
             (Some (ZString a), Some (ZString b)) \<Rightarrow>
               search_history_loop zhash hist es
                 (smap_put (c_int (int (bucket_index zhash k)))
                    \<lparr>singer = a, title = b, h_statistics = calc_statistics_in_history hist b\<rparr> H)
           | (Some _, Some _) \<Rightarrow> None
           | _ \<Rightarrow> search_history_loop zhash hist es H)
      | _ \<Rightarrow> search_history_loop zhash hist es H)"

definition search_history :: "(string \<Rightarrow> nat) \<Rightarrow> rotator \<Rightarrow> hash_table \<Rightarrow> rotator option" where
  "search_history zhash r arr =
     (case get_node_ptr (Some arr) ''history'' of
        None \<Rightarrow> Some r
      | Some t \<Rightarrow> map_option (\<lambda>H. r\<lparr>mHistory := H\<rparr>) (search_history_loop zhash t t (mHistory r)))"

fun default_order :: "(string, thfolder) smap \<Rightarrow> int \<Rightarrow> rotator \<Rightarrow> rotator" where
  "default_order [] num_index r = r"
| "default_order ((f, hf) # fs) num_index r =
     default_order fs (num_index + 1)
       (increase_max_ht_size (r\<lparr>folders_order := smap_put num_index f (folders_order r)\<rparr>)
          (length (ht hf)))"

fun order_loop :: "(string \<Rightarrow> nat) \<Rightarrow> hash_table \<Rightarrow> rotator \<Rightarrow> rotator" where
  "order_loop zhash [] r = r"
| "order_loop zhash ((k, v) # es) r =
     order_loop zhash es
       (case v of
          ZString s \<Rightarrow>
            (case map_of (hfolders r) s of
               Some hf \<Rightarrow>
                 increase_max_ht_size
                   (r\<lparr>folders_order := smap_put (c_int (int (bucket_index zhash k))) s (folders_order r)\<rparr>)
                   (length (ht hf))
             | None \<Rightarrow> r)
        | _ \<Rightarrow> r)"

definition search_order :: "(string \<Rightarrow> nat) \<Rightarrow> rotator \<Rightarrow> hash_table \<Rightarrow> bool \<times> rotator" where
  "search_order zhash r arr =
     (let r0 = r\<lparr>folders_order := [], max_ht_size := 0\<rparr>;
          r1 = (case get_node_ptr (Some arr) ''order'' of
                  None \<Rightarrow> default_order (hfolders r0) 0 r0
                | Some t \<Rightarrow> if t = [] then default_order (hfolders r0) 0 r0
                            else order_loop zhash t r0)
      in (folders_order r1 \<noteq> [], r1))"

fun schedule_item :: "(string, bool) smap \<Rightarrow> hash_table \<Rightarrow> int \<Rightarrow> folder_order \<Rightarrow> folder_order" where
  "schedule_item known [] counter item = item"
| "schedule_item known ((k, v) # es) counter item =
     (case (k, v) of
        (KIdx _, ZString s) \<Rightarrow>
          if map_of known s \<noteq> None
          then schedule_item known es (counter + 1) (smap_put counter s item)
          else schedule_item known es counter item
      | _ \<Rightarrow> schedule_item known es counter item)"

fun schedule_loop :: "hash_table \<Rightarrow> rotator \<Rightarrow> rotator" where
  "schedule_loop [] r = r"
| "schedule_loop ((k, v) # es) r =
     schedule_loop es
       (case (k, v) of
          (KIdx h, ZArray t) \<Rightarrow>
            let item = schedule_item (folders r) t 0 [] in
            if item \<noteq> [] then r\<lparr>schedule := smap_put (c_int (int h)) item (schedule r)\<rparr> else r
        | _ \<Rightarrow> r)"

text \<open>The scan for the slot of the current hour: the slot's hour and the entry after it.\<close>

fun current_slot :: "int \<Rightarrow> (int, folder_order) smap \<Rightarrow> int \<Rightarrow> int \<times> int option" where
  "current_slot hour [] m_hour = (m_hour, None)"
| "current_slot hour ((h, ord) # m) m_hour =
     (if hour < h then (m_hour, Some h) else current_slot hour m h)"

definition search_schedule :: "wall \<Rightarrow> rotator \<Rightarrow> hash_table \<Rightarrow> bool \<times> rotator" where
  "search_schedule w r arr =
     (case get_node_ptr (Some arr) ''schedule'' of
        None \<Rightarrow> (False, r)
      | Some t \<Rightarrow>
          if t = [] then (False, r)
          else
            let r1 = schedule_loop t r;
                (m_hour, it) = current_slot (get_current_hour w) (schedule r1) 0;
                r2 = (case map_of (schedule r1) m_hour of
                        None \<Rightarrow> r1\<lparr>sched_it := None\<rparr>
                      | Some ord \<Rightarrow>
                          let m_interval = (case it of Some h \<Rightarrow> h - m_hour
                                            | None \<Rightarrow> DEFAULT_DAY - m_hour)
                          in r1\<lparr>sched_it := Some m_hour,
                                pTimer := define_playlist_duration w
                                            (set_interval (pTimer r1) m_interval) m_hour,
                                folders_order := ord, m_order := (ord \<noteq> [])\<rparr>)
            in (schedule r2 \<noteq> [], r2))"

section \<open>Construction\<close>

definition rotator_blank :: "hash_table \<Rightarrow> int \<Rightarrow> string option \<Rightarrow> ttimer \<Rightarrow> rotator" where
  "rotator_blank arr mt gd tm =
     \<lparr>php_array = arr, play_list = [], m_order = False, m_schedule = False,
      m_special_conditions = False, max_tracks = mt, m_error = 0, general_duration = gd,
      construction_complete = False, pTimer = tm, max_ht_size = 0, folders_order = [],
      folders = [], hfolders = [], m_increase_counter = 0, m_previos_playlist_size = 0,
      sRules = \<lparr>m_singer_limit = 0, m_track_limit = 0, m_return_interval = 0, m_max_rules = 0\<rparr>,
      mRules = [], schedule = [], sched_it = None, mHistory = [], set_start_folder = False\<rparr>"

text \<open>
  The three constructors with \<open>on_init\<close>: no limit (\<open>mt = 0\<close>, \<open>gd = None\<close>), a number
  of tracks, or a length in time. Members the early returns leave uninitialised are given the
  values of \<open>rotator_blank\<close>.
\<close>

definition on_init ::
  "(string \<Rightarrow> nat) \<Rightarrow> wall \<Rightarrow> hash_table \<Rightarrow> int \<Rightarrow> string option \<Rightarrow> rotator option" where
  "on_init zhash w arr mt gd = do {
     tm \<leftarrow> TTimer_new gd;
     let r0 = rotator_blank arr mt gd tm;
     if array_size (Some arr) = 0 then Some (r0\<lparr>m_error := INPUT_ARRAY_ERROR\<rparr>)
     else do {
       let r1 = r0\<lparr>sRules := search_rules (sRules r0) arr True\<rparr>;
       (found, r2) \<leftarrow> search_folders r1 arr;
       if \<not> found then Some r2
       else do {
         let (sch, r3) = search_schedule w r2 arr;
         let r4 = r3\<lparr>m_schedule := sch\<rparr>;
         let r5 = (if sch then r4
                   else let (ord, r') = search_order zhash r4 arr in r'\<lparr>m_order := ord\<rparr>);
         r6 \<leftarrow> search_history zhash r5 arr;
         Some (r6\<lparr>construction_complete := False,
                  m_special_conditions := set_special_conditions r6\<rparr>)
       }
     }
   }"

section \<open>The schedule's next slot, preparing the next playlist\<close>

definition create_schedule_order :: "rotator \<Rightarrow> bool \<times> rotator" where
  "create_schedule_order r =
     (let e = (case sched_it r of
                 None \<Rightarrow> smap_begin (schedule r)
               | Some k \<Rightarrow> smap_upper k (schedule r))
      in case e of
           None \<Rightarrow> (False, r\<lparr>sched_it := None\<rparr>)
         | Some (k, ord) \<Rightarrow>
             let aa = (case smap_upper k (schedule r) of
                         Some (k', _) \<Rightarrow> k' - k | None \<Rightarrow> DEFAULT_DAY - k)
             in (ord \<noteq> [], r\<lparr>sched_it := Some k, folders_order := ord, m_order := (ord \<noteq> []),
                              pTimer := set_interval (pTimer r) aa\<rparr>))"

definition reset_folders :: "(string, thfolder) smap \<Rightarrow> (string, thfolder) smap" where
  "reset_folders m =
     map (\<lambda>(f, hf). (f, hf\<lparr>index := search_next_hash_index (ht hf) 0\<rparr>)) m"

definition prepare :: "(string \<Rightarrow> nat) \<Rightarrow> rotator \<Rightarrow> bool \<times> rotator" where
  "prepare zhash r =
     (if m_error r \<noteq> 0 then (False, r)
      else if array_size (Some (php_array r)) = 0 then (False, r\<lparr>m_error := INPUT_ARRAY_ERROR\<rparr>)
      else
        let r1 = (if m_schedule r then
                    snd (create_schedule_order
                           (if construction_complete r then r\<lparr>sched_it := None\<rparr> else r))
                  else if construction_complete r then
                    let (ord, r') = search_order zhash r (php_array r) in r'\<lparr>m_order := ord\<rparr>
                  else r);
            r2 = (if construction_complete r1 then
                    r1\<lparr>hfolders := reset_folders (hfolders r1),
                       pTimer := clear_playlist_duration (pTimer r1),
                       construction_complete := False, m_error := 0\<rparr>
                  else r1)
        in (True, r2))"

section \<open>The rules\<close>

definition get_current_rules :: "rotator \<Rightarrow> string \<Rightarrow> trules" where
  "get_current_rules r folder =
     (case map_of (mRules r) folder of Some x \<Rightarrow> x | None \<Rightarrow> sRules r)"

text \<open>
  The walks over the history go from the newest entry back; \<open>cnt\<close> is
  \<open>count_of_tracks_between_equal\<close> before the step.
\<close>

fun title_statistics_in_history ::
  "thistory list \<Rightarrow> int \<Rightarrow> string \<Rightarrow> int \<Rightarrow> what_to_do \<times> int" where
  "title_statistics_in_history [] cnt m_title m_rule_track = (ADD_TO_PLAYLIST, 0)"
| "title_statistics_in_history (H # hs) cnt m_title m_rule_track =
     (if title H \<noteq> m_title then title_statistics_in_history hs (cnt + 1) m_title m_rule_track
      else if cnt + 1 \<ge> m_rule_track then (ADD_TO_PLAYLIST, h_statistics H)
      else (NEED_TO_SKIP_RECORD, 0))"

fun history_walk ::
  "thistory list \<Rightarrow> thistory list \<Rightarrow> int \<Rightarrow> string \<Rightarrow> string \<Rightarrow> trules \<Rightarrow> int \<Rightarrow> what_to_do" where
  "history_walk all [] cnt m_singer m_title rule folder_stat = ADD_TO_PLAYLIST"
| "history_walk all (H # hs) cnt m_singer m_title rule folder_stat =
     (if singer H \<noteq> m_singer
      then history_walk all hs (cnt + 1) m_singer m_title rule folder_stat
      else if cnt + 1 \<ge> m_singer_limit rule then
        (let (w, st) = title_statistics_in_history all (- 1) m_title (m_track_limit rule)
         in if w = ADD_TO_PLAYLIST \<and> st > 0 \<and> st > folder_stat
            then NEED_TO_SKIP_RECORD else w)
      else NEED_TO_SKIP_RECORD)"

definition newest_first :: "rotator \<Rightarrow> thistory list" where
  "newest_first r = rev (map snd (mHistory r))"

definition find_record_in_history ::
  "rotator \<Rightarrow> string \<Rightarrow> string \<Rightarrow> trules \<Rightarrow> int \<Rightarrow> what_to_do" where
  "find_record_in_history r m_singer m_title rule folder_stat =
     history_walk (newest_first r) (newest_first r) (- 1) m_singer m_title rule folder_stat"

section \<open>Taking tracks\<close>

definition track_duration_of :: "hash_table \<Rightarrow> string option" where
  "track_duration_of t =
     (case map_of t (KStr ''duration'') of
        Some (ZString s) \<Rightarrow> if s \<noteq> [] then Some s else None
      | _ \<Rightarrow> None)"

definition add_to_history :: "rotator \<Rightarrow> hash_table \<Rightarrow> int \<Rightarrow> rotator option" where
  "add_to_history r t statistics =
     (case (map_of t (KStr ''executor''), map_of t (KStr ''title'')) of
        (Some (ZString a), Some (ZString b)) \<Rightarrow>
          Some (r\<lparr>mHistory := smap_put (int (length (mHistory r)))
                    \<lparr>singer = a, title = b, h_statistics = statistics + 1\<rparr> (mHistory r)\<rparr>)
      | (Some _, Some _) \<Rightarrow> None
      | _ \<Rightarrow> Some r)"

definition add_to_playlist :: "rotator \<Rightarrow> hash_table \<Rightarrow> int \<Rightarrow> rotator option" where
  "add_to_playlist r t statistics = do {
     let r1 = r\<lparr>play_list := play_list r @ [t]\<rparr>;
     r2 \<leftarrow> add_to_history r1 t statistics;
     let r3 = r2\<lparr>m_increase_counter := 0\<rparr>;
     let sd = track_duration_of t;
     tm \<leftarrow> append_playlist_duration (pTimer r3) sd;
     let r4 = r3\<lparr>pTimer := tm\<rparr>;
     if m_schedule r4 then do {
       (rest, tm') \<leftarrow> remained_interval (pTimer r4) sd;
       let r5 = r4\<lparr>pTimer := tm'\<rparr>;
       Some (if rest \<le> 0 then (snd (create_schedule_order r5))\<lparr>set_start_folder := True\<rparr> else r5)
     } else Some r4
   }"

definition find_record_in_playlist ::
  "rotator \<Rightarrow> thfolder \<Rightarrow> string \<Rightarrow> (what_to_do \<times> rotator) option" where
  "find_record_in_playlist r hf m_key_folder =
     (case map_of (ht hf) (KIdx (index hf)) of
        Some (ZArray t) \<Rightarrow>
          (case (map_of t (KStr ''executor''), map_of t (KStr ''title'')) of
             (Some (ZString a), Some (ZString b)) \<Rightarrow>
               if a = [] \<or> b = [] then Some (NEED_TO_SKIP_RECORD, r)
               else
                 let w = (if service hf then ADD_TO_PLAYLIST
                          else find_record_in_history r a b (get_current_rules r m_key_folder)
                                 (f_statistics hf))
                 in if w = ADD_TO_PLAYLIST
                    then map_option (Pair w) (add_to_playlist r t (f_statistics hf))
                    else Some (w, r)
           | _ \<Rightarrow> Some (NEED_TO_SKIP_RECORD, r))
      | _ \<Rightarrow> Some (ADD_TO_PLAYLIST, r))"

section \<open>Walking the folders\<close>

text \<open>
  One look into a folder: wrap around at its end (raising the folder's weight), look at the
  track the index stands on, move the index. The first result says whether to go on to the next
  folder, the last is \<open>to_next\<close>.
\<close>

definition wrap_folder :: "thfolder \<Rightarrow> thfolder" where
  "wrap_folder hf =
     (if index hf \<ge> array_size (Some (ht hf))
      then hf\<lparr>index := search_next_hash_index (ht hf) 0, f_statistics := f_statistics hf + 1\<rparr>
      else hf)"

definition global_analize ::
  "rotator \<Rightarrow> string \<Rightarrow> bool \<Rightarrow> (bool \<times> rotator \<times> bool) option" where
  "global_analize r f to_next =
     (case map_of (hfolders r) f of
        None \<Rightarrow> None
      | Some hf0 \<Rightarrow>
          let tn = (if index hf0 \<ge> array_size (Some (ht hf0))
                    then index hf0 < max_ht_size r else to_next);
              hf = wrap_folder hf0;
              r1 = r\<lparr>hfolders := smap_put f hf (hfolders r)\<rparr>
          in do {
            (w, r2) \<leftarrow> find_record_in_playlist r1 hf f;
            let idx = search_next_hash_index (ht hf) (index hf + 1);
            let r3 = r2\<lparr>hfolders := smap_put f (hf\<lparr>index := idx\<rparr>) (hfolders r2)\<rparr>;
            Some (w = NEED_TO_SKIP_RECORD \<longrightarrow> idx \<ge> array_size (Some (ht hf)), r3, tn)
          })"

text \<open>
  The frame of each operation: the fields it can change, the rest being equal.
\<close>

lemma add_to_history_frame:
  "add_to_history r t st = Some r' \<Longrightarrow> r' = r\<lparr>mHistory := mHistory r'\<rparr>"
  by (auto simp: add_to_history_def split: option.splits zval.splits)

lemma create_schedule_order_frame:
  "snd (create_schedule_order r) = r' \<Longrightarrow>
     r' = r\<lparr>sched_it := sched_it r', folders_order := folders_order r', m_order := m_order r',
            pTimer := pTimer r'\<rparr>"
  by (auto simp: create_schedule_order_def Let_def split: option.splits prod.splits)

lemma add_to_playlist_frame:
  assumes "add_to_playlist r t st = Some r'"
  shows "r' = r\<lparr>play_list := play_list r @ [t], mHistory := mHistory r', sched_it := sched_it r',
            folders_order := folders_order r', m_order := m_order r', pTimer := pTimer r',
            set_start_folder := set_start_folder r', m_increase_counter := 0\<rparr> \<and>
         (\<not> m_schedule r \<longrightarrow> folders_order r' = folders_order r \<and>
            set_start_folder r' = set_start_folder r)"
proof -
  obtain r2 where r2: "add_to_history (r\<lparr>play_list := play_list r @ [t]\<rparr>) t st = Some r2"
    using assms by (auto simp: add_to_playlist_def Let_def Option.bind_eq_Some_conv)
  obtain h where h: "r2 = r\<lparr>play_list := play_list r @ [t], mHistory := h\<rparr>"
    using add_to_history_frame [OF r2] by metis
  obtain tm where tm: "append_playlist_duration (pTimer r) (track_duration_of t) = Some tm"
    using assms r2 h by (auto simp: add_to_playlist_def Let_def Option.bind_eq_Some_conv)
  define r4 where "r4 = r2\<lparr>m_increase_counter := 0, pTimer := tm\<rparr>"
  show ?thesis
  proof (cases "m_schedule r")
    case False
    then have "r' = r4"
      using assms r2 h tm by (simp add: add_to_playlist_def r4_def)
    then show ?thesis using h by (simp add: r4_def)
  next
    case True
    then obtain q tm' where "remained_interval tm (track_duration_of t) = Some (q, tm')"
      and r': "r' = (if q \<le> 0 then (snd (create_schedule_order (r4\<lparr>pTimer := tm'\<rparr>)))
                 \<lparr>set_start_folder := True\<rparr> else r4\<lparr>pTimer := tm'\<rparr>)"
      using assms r2 h tm
      by (auto simp: add_to_playlist_def r4_def Let_def Option.bind_eq_Some_conv)
    obtain r5 where r5: "snd (create_schedule_order (r4\<lparr>pTimer := tm'\<rparr>)) = r5" by blast
    obtain a b c d where "r5 = (r4\<lparr>pTimer := tm'\<rparr>)\<lparr>sched_it := a, folders_order := b,
        m_order := c, pTimer := d\<rparr>"
      using create_schedule_order_frame [OF r5] by metis
    with r5 r' h True show ?thesis
      by (cases "q \<le> 0") (simp_all add: r4_def)
  qed
qed


lemma add_to_playlist_fields:
  assumes "add_to_playlist r t st = Some r'"
  shows "play_list r' = play_list r @ [t]" "hfolders r' = hfolders r"
    "max_tracks r' = max_tracks r" "m_schedule r' = m_schedule r"
    "general_duration r' = general_duration r" "max_ht_size r' = max_ht_size r"
    "sRules r' = sRules r" "mRules r' = mRules r" "m_error r' = m_error r"
    "m_special_conditions r' = m_special_conditions r"
    "m_previos_playlist_size r' = m_previos_playlist_size r"
    "construction_complete r' = construction_complete r"
    "php_array r' = php_array r" "m_increase_counter r' = 0"
    "\<not> m_schedule r \<Longrightarrow> folders_order r' = folders_order r"
    "\<not> m_schedule r \<Longrightarrow> set_start_folder r' = set_start_folder r"
proof -
  obtain a b c d e g where "r' = r\<lparr>play_list := play_list r @ [t], mHistory := a, sched_it := b,
      folders_order := c, m_order := d, pTimer := e, set_start_folder := g,
      m_increase_counter := 0\<rparr>"
    and "\<not> m_schedule r \<longrightarrow> c = folders_order r \<and> g = set_start_folder r"
    using add_to_playlist_frame [OF assms] by metis
  then show "play_list r' = play_list r @ [t]" "hfolders r' = hfolders r"
    "max_tracks r' = max_tracks r" "m_schedule r' = m_schedule r"
    "general_duration r' = general_duration r" "max_ht_size r' = max_ht_size r"
    "sRules r' = sRules r" "mRules r' = mRules r" "m_error r' = m_error r"
    "m_special_conditions r' = m_special_conditions r"
    "m_previos_playlist_size r' = m_previos_playlist_size r"
    "construction_complete r' = construction_complete r"
    "php_array r' = php_array r" "m_increase_counter r' = 0"
    "\<not> m_schedule r \<Longrightarrow> folders_order r' = folders_order r"
    "\<not> m_schedule r \<Longrightarrow> set_start_folder r' = set_start_folder r"
    by simp_all
qed

lemma find_record_cases:
  assumes "find_record_in_playlist r hf f = Some (w, r')"
  obtains (same) "r' = r"
  | (take) t a b where "w = ADD_TO_PLAYLIST" "map_of (ht hf) (KIdx (index hf)) = Some (ZArray t)"
      "map_of t (KStr ''executor'') = Some (ZString a)"
      "map_of t (KStr ''title'') = Some (ZString b)" "a \<noteq> []" "b \<noteq> []"
      "service hf \<or> find_record_in_history r a b (get_current_rules r f) (f_statistics hf)
         = ADD_TO_PLAYLIST"
      "add_to_playlist r t (f_statistics hf) = Some r'"
  using assms
  by (auto simp: find_record_in_playlist_def Let_def
      split: option.splits zval.splits if_splits)

lemma global_analize_cases:
  assumes "global_analize r f tn = Some (go, r', tn')"
  obtains hf0 hf w r2 idx where "map_of (hfolders r) f = Some hf0" "hf = wrap_folder hf0"
    "find_record_in_playlist (r\<lparr>hfolders := smap_put f hf (hfolders r)\<rparr>) hf f = Some (w, r2)"
    "idx = search_next_hash_index (ht hf) (index hf + 1)"
    "r' = r2\<lparr>hfolders := smap_put f (hf\<lparr>index := idx\<rparr>) (hfolders r2)\<rparr>"
    "go = (w = NEED_TO_SKIP_RECORD \<longrightarrow> idx \<ge> length (ht hf))"
proof -
  obtain hf0 where hf0: "map_of (hfolders r) f = Some hf0"
    using assms by (auto simp: global_analize_def split: option.splits)
  obtain w r2 where fr: "find_record_in_playlist
      (r\<lparr>hfolders := smap_put f (wrap_folder hf0) (hfolders r)\<rparr>) (wrap_folder hf0) f = Some (w, r2)"
    using assms hf0 by (auto simp: global_analize_def Let_def Option.bind_eq_Some_conv)
  from assms hf0 fr that [OF hf0 refl fr refl] show thesis
    by (auto simp: global_analize_def Let_def array_size_def)
qed

lemma wrap_folder_ht [simp]: "ht (wrap_folder hf) = ht hf" "service (wrap_folder hf) = service hf"
  by (simp_all add: wrap_folder_def)

text \<open>\<open>while (!global_analize(it, to_next_folder));\<close>\<close>

definition to_walk :: "rotator \<Rightarrow> string \<Rightarrow> nat" where
  "to_walk r f =
     (case map_of (hfolders r) f of None \<Rightarrow> 0
      | Some hf \<Rightarrow> if index hf \<ge> length (ht hf) then length (ht hf) + 1
                   else length (ht hf) - index hf)"


lemma find_record_hfolders:
  "find_record_in_playlist r hf f = Some (w, r') \<Longrightarrow> hfolders r' = hfolders r"
proof (erule find_record_cases)
  fix t assume "add_to_playlist r t (f_statistics hf) = Some r'"
  then show ?thesis by (rule add_to_playlist_fields)
qed simp

lemma global_analize_walk:
  assumes "global_analize r f tn = Some (False, r', tn')"
  shows "to_walk r' f < to_walk r f"
  using assms
proof (cases rule: global_analize_cases)
  case (1 hf0 hf w r2 idx)
  have idx: "index hf + 1 \<le> idx" "idx < length (ht hf)"
    using 1 search_next_ge by simp_all
  have "hfolders r2 = smap_put f hf (hfolders r)"
    using find_record_hfolders [OF 1(3)] by simp
  then have "to_walk r' f = length (ht hf) - idx"
    using 1 idx by (simp add: to_walk_def map_of_smap_put)
  moreover have "to_walk r f > length (ht hf) - idx"
    using 1(1,2) idx by (auto simp: to_walk_def wrap_folder_def array_size_def)
  ultimately show ?thesis by simp
qed

function folder_loop :: "rotator \<Rightarrow> string \<Rightarrow> bool \<Rightarrow> (rotator \<times> bool) option" where
  "folder_loop r f to_next =
     (case global_analize r f to_next of
        None \<Rightarrow> None
      | Some (go, r', tn) \<Rightarrow> if go then Some (r', tn) else folder_loop r' f tn)"
  by auto
termination
  by (relation "measure (\<lambda>(r, f, tn). to_walk r f)") (auto intro: global_analize_walk)

declare folder_loop.simps [simp del]

text \<open>
  One turn of the outer loop. The second component is the folder the next turn starts from,
  \<open>None\<close> when the loop ends. When a track used up the hour, the order was replaced under
  the iterator \<open>ito\<close>; the source still reads a key through it, the model reads the key it
  had. The key only chooses a position in the new order, which \<open>set_start_folder\<close> discards.
\<close>

definition order_step ::
  "(string \<Rightarrow> nat) \<Rightarrow> rotator \<Rightarrow> int option \<Rightarrow> (rotator \<times> int option) option" where
  "order_step zhash r ito0 = do {
     let (r0, ito) = (if set_start_folder r
                      then (r\<lparr>set_start_folder := False\<rparr>,
                            map_option fst (smap_begin (folders_order r)))
                      else (r, ito0));
     k \<leftarrow> ito;
     f \<leftarrow> map_of (folders_order r0) k;
     (r1, to_next_folder) \<leftarrow> folder_loop r0 f True;
     let it_next = smap_upper k (folders_order r1);
     if playlist_construction_completed r1 then Some (r1, None)
     else do {
       let ito1 = (case it_next of Some e \<Rightarrow> Some (fst e)
                   | None \<Rightarrow> map_option fst (smap_begin (folders_order r1)));
       if ito1 = None \<or> \<not> to_next_folder then
         if m_special_conditions r1 then
           let (inc, r2) = playlist_size_increase r1 in
           if inc then
             let r3 = snd (prepare zhash r2)
             in Some (r3, map_option fst (smap_begin (folders_order r3)))
           else Some (r2, None)
         else Some (r1, None)
       else Some (r1, ito1)
     }
   }"

text \<open>
  The outer loop \<open>while (true)\<close> of \<open>analise_folders_by_order\<close> on a number of turns:
  \<open>Running\<close> when they were not enough.
\<close>

datatype 'a outcome = Returned 'a | Undefined | Running

fun order_turns ::
  "(string \<Rightarrow> nat) \<Rightarrow> nat \<Rightarrow> rotator \<Rightarrow> int option \<Rightarrow> rotator outcome" where
  "order_turns zhash 0 r ito = Running"
| "order_turns zhash (Suc n) r ito =
     (case order_step zhash r ito of
        None \<Rightarrow> Undefined
      | Some (r', None) \<Rightarrow> Returned r'
      | Some (r', Some k) \<Rightarrow> order_turns zhash n r' (Some k))"

definition analise_folders_by_order ::
  "(string \<Rightarrow> nat) \<Rightarrow> nat \<Rightarrow> rotator \<Rightarrow> rotator outcome" where
  "analise_folders_by_order zhash n r =
     (if hfolders r = [] then Returned r
      else order_turns zhash n (r\<lparr>set_start_folder := False\<rparr>)
             (map_option fst (smap_begin (folders_order r))))"

definition create_playlist :: "(string \<Rightarrow> nat) \<Rightarrow> nat \<Rightarrow> rotator \<Rightarrow> rotator outcome" where
  "create_playlist zhash n r0 =
     (let r = r0\<lparr>play_list := [], m_previos_playlist_size := 0, m_increase_counter := 0\<rparr> in
      if array_size (Some (php_array r)) = 0 \<or> m_error r > 0 then Returned r
      else
        case (if m_order r then analise_folders_by_order zhash n r else Returned r) of
          Returned r' \<Rightarrow> Returned (r'\<lparr>construction_complete := True\<rparr>)
        | Undefined \<Rightarrow> Undefined
        | Running \<Rightarrow> Running)"

end
