(* ===== verification/Rotator_Walk.thy ===== *)
theory Rotator_Walk
  imports Rotator
begin

text \<open>
  What the walk over the folders (\<open>TRotator_Ctrl::create_playlist\<close> and what it calls) keeps
  true of the engine's state. The locale \<open>walk_invariant\<close> is the contract of a property that
  survives one taken track and the walk's bookkeeping; every invariant of the playlist is an
  instance: its length stays within \<open>max_tracks\<close>, its entries are tracks of the folders, the
  clock is the sum of their lengths, and equal singers and titles are as far apart as the rules
  ask.
\<close>

section \<open>The contract of an invariant\<close>

definition contents :: "rotator \<Rightarrow> string \<Rightarrow> (hash_table \<times> bool) option" where
  "contents r f = map_option (\<lambda>hf. (ht hf, service hf)) (map_of (hfolders r) f)"

text \<open>The walk's bookkeeping: positions, weights, orders, counters and errors may differ.\<close>

definition same_core :: "rotator \<Rightarrow> rotator \<Rightarrow> bool" where
  "same_core r r' \<longleftrightarrow>
     play_list r' = play_list r \<and> mHistory r' = mHistory r \<and> sRules r' = sRules r \<and>
     mRules r' = mRules r \<and> max_tracks r' = max_tracks r \<and> m_schedule r' = m_schedule r \<and>
     general_duration r' = general_duration r \<and> contents r' = contents r \<and>
     construction_complete r' = construction_complete r \<and>
     m_playlist_duration (pTimer r') = m_playlist_duration (pTimer r) \<and>
     m_default_track_duration (pTimer r') = m_default_track_duration (pTimer r)"

definition taken ::
  "rotator \<Rightarrow> string \<Rightarrow> thfolder \<Rightarrow> hash_table \<Rightarrow> string \<Rightarrow> string \<Rightarrow> rotator \<Rightarrow> bool" where
  "taken r f hf t a b r' \<longleftrightarrow>
     contents r f = Some (ht hf, service hf) \<and>
     map_of (ht hf) (KIdx (index hf)) = Some (ZArray t) \<and>
     map_of t (KStr ''executor'') = Some (ZString a) \<and>
     map_of t (KStr ''title'') = Some (ZString b) \<and> a \<noteq> [] \<and> b \<noteq> [] \<and>
     (service hf \<or> find_record_in_history r a b (get_current_rules r f) (f_statistics hf)
        = ADD_TO_PLAYLIST) \<and>
     add_to_playlist r t (f_statistics hf) = Some r'"

definition full :: "rotator \<Rightarrow> bool" where
  "full r \<longleftrightarrow> 0 < max_tracks r \<and> max_tracks r \<le> rsize r"

lemma same_core_refl [simp]: "same_core r r"
  by (simp add: same_core_def)

lemma same_core_trans: "same_core r s \<Longrightarrow> same_core s t \<Longrightarrow> same_core r t"
  by (simp add: same_core_def)

lemma same_core_full: "same_core r r' \<Longrightarrow> full r' = full r"
  by (simp add: same_core_def full_def rsize_def)

lemma contents_put:
  "map_of (hfolders r) f = Some hf0 \<Longrightarrow> ht hf = ht hf0 \<Longrightarrow> service hf = service hf0 \<Longrightarrow>
     same_core r (r\<lparr>hfolders := smap_put f hf (hfolders r)\<rparr>)"
  by (simp add: same_core_def contents_def map_of_smap_put fun_eq_iff)

lemma map_of_reset_folders:
  "map_of (reset_folders m) f =
     map_option (\<lambda>hf. hf\<lparr>index := search_next_hash_index (ht hf) 0\<rparr>) (map_of m f)"
  by (induction m) (auto simp: reset_folders_def)

lemma create_schedule_order_core: "same_core r (snd (create_schedule_order r))"
  by (auto simp: create_schedule_order_def same_core_def contents_def Let_def set_interval_def
      fun_eq_iff split: option.splits prod.splits)

lemma prepare_core:
  assumes "\<not> construction_complete r"
  shows "same_core r (snd (prepare zhash r))"
proof -
  have "same_core r (snd (create_schedule_order r))" by (rule create_schedule_order_core)
  moreover from this have "\<not> construction_complete (snd (create_schedule_order r))"
    using assms by (simp add: same_core_def)
  moreover have "same_core r (r\<lparr>m_error := e\<rparr>)" for e
    by (simp add: same_core_def contents_def fun_eq_iff)
  ultimately show ?thesis using assms by (simp add: prepare_def Let_def)
qed

lemma playlist_size_increase_core: "same_core r (snd (playlist_size_increase r))"
  by (auto simp: playlist_size_increase_def same_core_def contents_def Let_def fun_eq_iff)

locale walk_invariant =
  fixes P :: "rotator \<Rightarrow> bool"
  assumes admin: "P r \<Longrightarrow> same_core r r' \<Longrightarrow> P r'"
    and closed: "P r \<Longrightarrow> P (r\<lparr>construction_complete := c\<rparr>)"
    and take_track: "P r \<Longrightarrow> \<not> full r \<Longrightarrow> taken r f hf t a b r' \<Longrightarrow> P r'"
begin

lemma analize:
  assumes "P r" "\<not> full r" "global_analize r f tn = Some (go, r', tn')"
  shows "P r' \<and> construction_complete r' = construction_complete r \<and> (\<not> go \<longrightarrow> \<not> full r')"
  using assms(3)
proof (cases rule: global_analize_cases)
  case (1 hf0 hf w r2 idx)
  let ?r1 = "r\<lparr>hfolders := smap_put f hf (hfolders r)\<rparr>"
  have core1: "same_core r ?r1" using 1 by (intro contents_put) auto
  then have P1: "P ?r1" and nf: "\<not> full ?r1"
    using assms(1,2) admin same_core_full by blast+
  have h2: "hfolders r2 = smap_put f hf (hfolders r)"
    using find_record_hfolders [OF 1(3)] by simp
  have core3: "same_core r2 r'" unfolding 1(5)
    by (rule contents_put [of _ _ hf]) (simp_all add: h2 map_of_smap_put)
  from 1(3) show ?thesis
  proof (cases rule: find_record_cases)
    case same
    then have "P r'" "\<not> full r'"
      using P1 nf core3 admin same_core_full [OF core3] by auto
    then show ?thesis using same core3 by (simp add: same_core_def)
  next
    case (take t a b)
    have "contents ?r1 f = Some (ht hf, service hf)"
      by (simp add: contents_def map_of_smap_put)
    then have "taken ?r1 f hf t a b r2" using take by (simp add: taken_def)
    from take_track [OF P1 nf this] have "P r'" using core3 admin by blast
    moreover have "construction_complete r2 = construction_complete r"
      using add_to_playlist_fields(12) [OF take(8)] by simp
    ultimately show ?thesis using 1(6) take(1) core3 by (simp add: same_core_def)
  qed
qed

lemma folder_loop_keeps:
  "folder_loop r f tn = Some (r', tn') \<Longrightarrow> P r \<Longrightarrow> \<not> full r \<Longrightarrow>
     P r' \<and> construction_complete r' = construction_complete r"
proof (induction r f tn arbitrary: r' tn' rule: folder_loop.induct)
  case (1 r f tn)
  from 1(2) obtain go r1 tn1 where g: "global_analize r f tn = Some (go, r1, tn1)"
    and nx: "(if go then Some (r1, tn1) else folder_loop r1 f tn1) = Some (r', tn')"
    by (subst (asm) folder_loop.simps) (auto split: option.splits)
  note step = analize [OF 1(3,4) g]
  show ?case
  proof (cases go)
    case True then show ?thesis using nx step by simp
  next
    case False
    then show ?thesis
      using "1.IH" [OF g refl refl False] nx step by simp
  qed
qed

lemma order_step_keeps:
  assumes "order_step zhash r ito = Some (r', ito')"
    and "P r" "\<not> full r" "\<not> construction_complete r"
  shows "P r' \<and> (ito' \<noteq> None \<longrightarrow> \<not> full r' \<and> \<not> construction_complete r')"
proof -
  define r0 where "r0 = (if set_start_folder r then r\<lparr>set_start_folder := False\<rparr> else r)"
  have core0: "same_core r r0" by (simp add: r0_def same_core_def contents_def fun_eq_iff)
  then have r0: "P r0" "\<not> full r0" "\<not> construction_complete r0"
    using assms(3,4) admin [OF assms(2) core0] same_core_full [OF core0] core0
    by (simp_all add: same_core_def)
  obtain k f r1 tn where fl: "folder_loop r0 f True = Some (r1, tn)"
    and rest: "(if playlist_construction_completed r1 then Some (r1, None)
     else do {
       let ito1 = (case smap_upper k (folders_order r1) of Some e \<Rightarrow> Some (fst e)
                   | None \<Rightarrow> map_option fst (smap_begin (folders_order r1)));
       if ito1 = None \<or> \<not> tn then
         if m_special_conditions r1 then
           let (inc, r2) = playlist_size_increase r1 in
           if inc then
             let r3 = snd (prepare zhash r2)
             in Some (r3, map_option fst (smap_begin (folders_order r3)))
           else Some (r2, None)
         else Some (r1, None)
       else Some (r1, ito1)
     }) = Some (r', ito')"
    using assms(1) by (cases "set_start_folder r")
      (auto simp: order_step_def r0_def Let_def Option.bind_eq_Some_conv split: prod.splits)
  have r1: "P r1" "\<not> construction_complete r1"
    using folder_loop_keeps [OF fl r0(1,2)] r0(3) by simp_all
  show ?thesis
  proof (cases "playlist_construction_completed r1")
    case True then show ?thesis using rest r1 by simp
  next
    case False
    then have nf: "\<not> full r1"
      by (auto simp: playlist_construction_completed_def full_def)
    have c2: "same_core r1 (snd (playlist_size_increase r1))"
      by (rule playlist_size_increase_core)
    then have "\<not> construction_complete (snd (playlist_size_increase r1))"
      using r1(2) by (simp add: same_core_def)
    then have c3: "same_core r1 (snd (prepare zhash (snd (playlist_size_increase r1))))"
      using prepare_core c2 same_core_trans by blast
    have "same_core r1 r'"
      using rest False c2 c3
      by (auto simp: Let_def split: if_splits prod.splits)
    then show ?thesis
      using admin [OF r1(1)] r1(2) nf same_core_full [of r1 r'] by (simp add: same_core_def)
  qed
qed

lemma order_turns_keeps:
  "order_turns zhash n r ito = Returned r' \<Longrightarrow> P r \<Longrightarrow> \<not> full r \<Longrightarrow>
     \<not> construction_complete r \<Longrightarrow> P r'"
proof (induction n arbitrary: r ito)
  case (Suc n)
  then obtain r1 ito1 where s: "order_step zhash r ito = Some (r1, ito1)"
    by (auto split: option.splits)
  note keep = order_step_keeps [OF s Suc.prems(2-4)]
  show ?case
  proof (cases ito1)
    case None then show ?thesis using Suc.prems(1) s keep by simp
  next
    case (Some k)
    then show ?thesis using Suc.prems(1) s keep Suc.IH [of r1 "Some k"] by simp
  qed
qed simp

text \<open>The whole call: what holds of the emptied playlist holds of the built one.\<close>

lemma create_playlist_keeps:
  assumes "create_playlist zhash n r = Returned r'"
    and "P (r\<lparr>play_list := []\<rparr>)" and "\<not> construction_complete r"
  shows "P r'"
proof -
  let ?r = "r\<lparr>play_list := [], m_previos_playlist_size := 0, m_increase_counter := 0\<rparr>"
  have "same_core (r\<lparr>play_list := []\<rparr>) ?r" by (simp add: same_core_def contents_def fun_eq_iff)
  then have P0: "P ?r" using assms(2) admin by blast
  have nf: "\<not> full ?r" by (simp add: full_def rsize_def)
  have "same_core ?r (?r\<lparr>set_start_folder := False\<rparr>)"
    by (simp add: same_core_def contents_def fun_eq_iff)
  then have P1: "P (?r\<lparr>set_start_folder := False\<rparr>)" "\<not> full (?r\<lparr>set_start_folder := False\<rparr>)"
    using P0 nf admin same_core_full by blast+
  have "analise_folders_by_order zhash n ?r = Returned r1 \<Longrightarrow> P r1" for r1
    using order_turns_keeps P1 P0 assms(3)
    by (auto simp: analise_folders_by_order_def split: if_splits)
  then show ?thesis
    using assms(1) P0 closed
    by (auto simp: create_playlist_def Let_def split: if_splits outcome.splits)
qed

end

section \<open>Length, origin and running time of the playlist\<close>

definition within_max :: "int \<Rightarrow> rotator \<Rightarrow> bool" where
  "within_max m r \<longleftrightarrow> max_tracks r = m \<and> (0 < m \<longrightarrow> rsize r \<le> m)"

text \<open>A track of a folder that names its singer and its title.\<close>

definition track_of :: "(string \<Rightarrow> (hash_table \<times> bool) option) \<Rightarrow> hash_table \<Rightarrow> bool" where
  "track_of c t \<longleftrightarrow>
     (\<exists>f h s i. c f = Some (h, s) \<and> map_of h (KIdx i) = Some (ZArray t)) \<and>
     (\<exists>a b. map_of t (KStr ''executor'') = Some (ZString a) \<and>
            map_of t (KStr ''title'') = Some (ZString b) \<and> a \<noteq> [] \<and> b \<noteq> [])"

definition drawn :: "(string \<Rightarrow> (hash_table \<times> bool) option) \<Rightarrow> rotator \<Rightarrow> bool" where
  "drawn c r \<longleftrightarrow> contents r = c \<and> (\<forall>t \<in> set (play_list r). track_of c t)"

text \<open>The seconds a taken track adds to the clock: none when it has no length.\<close>

definition track_seconds :: "int \<Rightarrow> hash_table \<Rightarrow> int" where
  "track_seconds d t =
     (case track_duration_of t of None \<Rightarrow> 0
      | Some s \<Rightarrow> (case get_seconds d (Some s) of Some v \<Rightarrow> v | None \<Rightarrow> 0))"

definition timed :: "int \<Rightarrow> int \<Rightarrow> rotator \<Rightarrow> bool" where
  "timed b d r \<longleftrightarrow> m_default_track_duration (pTimer r) = d \<and>
     m_playlist_duration (pTimer r) = b + sum_list (map (track_seconds d) (play_list r))"

lemma append_duration:
  "append_playlist_duration tm (track_duration_of t) = Some tm' \<Longrightarrow>
     tm' = tm\<lparr>m_playlist_duration := m_playlist_duration tm
              + track_seconds (m_default_track_duration tm) t\<rparr>"
  by (auto simp: append_playlist_duration_def track_seconds_def Option.bind_eq_Some_conv
      split: option.splits)

lemma remained_interval_keeps:
  "remained_interval tm s = Some (q, tm') \<Longrightarrow>
     m_playlist_duration tm' = m_playlist_duration tm \<and>
     m_default_track_duration tm' = m_default_track_duration tm"
  by (auto simp: remained_interval_def Let_def Option.bind_eq_Some_conv)

lemma create_schedule_order_timer:
  "m_playlist_duration (pTimer (snd (create_schedule_order r))) = m_playlist_duration (pTimer r)"
  "m_default_track_duration (pTimer (snd (create_schedule_order r)))
     = m_default_track_duration (pTimer r)"
  using create_schedule_order_core [of r] by (simp_all add: same_core_def)

lemma add_to_playlist_timer:
  assumes "add_to_playlist r t st = Some r'"
  shows "m_default_track_duration (pTimer r') = m_default_track_duration (pTimer r) \<and>
    m_playlist_duration (pTimer r') = m_playlist_duration (pTimer r)
      + track_seconds (m_default_track_duration (pTimer r)) t"
proof -
  obtain r2 where r2: "add_to_history (r\<lparr>play_list := play_list r @ [t]\<rparr>) t st = Some r2"
    using assms by (auto simp: add_to_playlist_def Let_def Option.bind_eq_Some_conv)
  obtain h where h: "r2 = r\<lparr>play_list := play_list r @ [t], mHistory := h\<rparr>"
    using add_to_history_frame [OF r2] by metis
  obtain tm where tm: "append_playlist_duration (pTimer r) (track_duration_of t) = Some tm"
    using assms r2 h by (auto simp: add_to_playlist_def Let_def Option.bind_eq_Some_conv)
  note app = append_duration [OF tm]
  show ?thesis
  proof (cases "m_schedule r")
    case False
    then show ?thesis using assms r2 h tm app by (auto simp: add_to_playlist_def)
  next
    case True
    then obtain q tm' where q: "remained_interval tm (track_duration_of t) = Some (q, tm')"
      using assms r2 h tm
      by (auto simp: add_to_playlist_def Let_def Option.bind_eq_Some_conv)
    from True assms r2 h tm app q remained_interval_keeps [OF q] show ?thesis
      by (auto simp: add_to_playlist_def Let_def create_schedule_order_timer)
  qed
qed

lemma taken_contents: "taken r f hf t a b r' \<Longrightarrow> contents r' = contents r"
  using add_to_playlist_fields(2) [of r t "f_statistics hf" r']
  by (simp add: taken_def contents_def fun_eq_iff)

interpretation bounded: walk_invariant "within_max m" for m
proof unfold_locales
  show "within_max m r \<Longrightarrow> same_core r r' \<Longrightarrow> within_max m r'" for r r'
    by (simp add: within_max_def same_core_def rsize_def)
  show "within_max m r \<Longrightarrow> within_max m (r\<lparr>construction_complete := c\<rparr>)" for r c
    by (simp add: within_max_def rsize_def)
  show "within_max m r'" if "within_max m r" "\<not> full r" "taken r f hf t a b r'" for r f hf t a b r'
  proof -
    have add: "add_to_playlist r t (f_statistics hf) = Some r'"
      using that(3) by (simp add: taken_def)
    then show ?thesis
      using that(1,2) add_to_playlist_fields(1,3) [OF add]
      by (auto simp: within_max_def full_def rsize_def)
  qed
qed

interpretation origin: walk_invariant "drawn c" for c
proof unfold_locales
  show "drawn c r \<Longrightarrow> same_core r r' \<Longrightarrow> drawn c r'" for r r'
    by (simp add: drawn_def same_core_def)
  show "drawn c r \<Longrightarrow> drawn c (r\<lparr>construction_complete := d\<rparr>)" for r d
    by (simp add: drawn_def contents_def fun_eq_iff)
  show "drawn c r'" if "drawn c r" "taken r f hf t a b r'" for r f hf t a b r'
  proof -
    have add: "add_to_playlist r t (f_statistics hf) = Some r'"
      using that(2) by (simp add: taken_def)
    have "track_of c t" unfolding track_of_def
      using that by (auto simp: taken_def drawn_def)
    then show ?thesis
      using that taken_contents [OF that(2)] add_to_playlist_fields(1) [OF add]
      by (simp add: drawn_def)
  qed
qed

interpretation clock: walk_invariant "timed b d" for b d
proof unfold_locales
  show "timed b d r \<Longrightarrow> same_core r r' \<Longrightarrow> timed b d r'" for r r'
    by (simp add: timed_def same_core_def)
  show "timed b d r \<Longrightarrow> timed b d (r\<lparr>construction_complete := c\<rparr>)" for r c
    by (simp add: timed_def)
  show "timed b d r'" if "timed b d r" "taken r f hf t x y r'" for r f hf t x y r'
  proof -
    have add: "add_to_playlist r t (f_statistics hf) = Some r'"
      using that(2) by (simp add: taken_def)
    show ?thesis
      using that(1) add_to_playlist_fields(1) [OF add] add_to_playlist_timer [OF add]
      by (simp add: timed_def)
  qed
qed

section \<open>The rules of rotation\<close>

text \<open>The contents of the history, oldest first, as names.\<close>

definition played :: "rotator \<Rightarrow> (string \<times> string) list" where
  "played r = map (\<lambda>(k, H). (singer H, title H)) (mHistory r)"

definition track_names :: "hash_table \<Rightarrow> string \<times> string" where
  "track_names t =
     (case (map_of t (KStr ''executor''), map_of t (KStr ''title'')) of
        (Some (ZString a), Some (ZString b)) \<Rightarrow> (a, b) | _ \<Rightarrow> ([], []))"

text \<open>
  From entry \<open>n\<close> on: a singer is heard again only after \<open>sl\<close> other tracks, and then with
  no title heard less than \<open>kl\<close> tracks before.
\<close>

definition spaced :: "int \<Rightarrow> int \<Rightarrow> nat \<Rightarrow> (string \<times> string) list \<Rightarrow> bool" where
  "spaced sl kl n H \<longleftrightarrow>
     (\<forall>j < length H. n \<le> j \<longrightarrow>
        (\<forall>i < j. fst (H ! i) = fst (H ! j) \<longrightarrow>
           sl \<le> int (j - i - 1) \<and>
           (\<forall>k < j. snd (H ! k) = snd (H ! j) \<longrightarrow> kl \<le> int (j - k - 1))))"

lemma title_statistics_far:
  "title_statistics_in_history hs cnt tt lim = (ADD_TO_PLAYLIST, st) \<Longrightarrow>
     i < length hs \<Longrightarrow> title (hs ! i) = tt \<Longrightarrow> cnt + 1 + int i \<ge> lim"
proof (induction hs cnt tt lim arbitrary: i rule: title_statistics_in_history.induct)
  case (2 H hs cnt tt lim)
  show ?case
  proof (cases i)
    case 0 then show ?thesis using "2.prems" by (auto split: if_splits)
  next
    case (Suc j)
    show ?thesis
    proof (cases "title H = tt")
      case True then show ?thesis using "2.prems" by (auto split: if_splits)
    next
      case False
      then show ?thesis using "2.prems" "2.IH" [of j] Suc by simp
    qed
  qed
qed simp

lemma history_walk_far:
  "history_walk all hs cnt sg tt rule st = ADD_TO_PLAYLIST \<Longrightarrow>
     i < length hs \<Longrightarrow> singer (hs ! i) = sg \<Longrightarrow>
     cnt + 1 + int i \<ge> m_singer_limit rule \<and>
     (\<exists>x. title_statistics_in_history all (- 1) tt (m_track_limit rule) = (ADD_TO_PLAYLIST, x))"
proof (induction all hs cnt sg tt rule st arbitrary: i rule: history_walk.induct)
  case (2 all H hs cnt sg tt rule st)
  show ?case
  proof (cases "singer H = sg")
    case True
    then have "cnt + 1 \<ge> m_singer_limit rule"
      "\<exists>x. title_statistics_in_history all (- 1) tt (m_track_limit rule) = (ADD_TO_PLAYLIST, x)"
      using "2.prems"(1)
      by (auto split: if_splits prod.splits)
    then show ?thesis by simp
  next
    case False
    then obtain j where "i = Suc j" using "2.prems" by (cases i) auto
    then show ?thesis using "2.prems" "2.IH" [OF False, of j] False by simp
  qed
qed simp

lemma spaced_snoc:
  assumes "spaced sl kl n H"
    and "\<And>i. i < length H \<Longrightarrow> fst (H ! i) = a \<Longrightarrow>
           sl \<le> int (length H - i - 1) \<and>
           (\<forall>k < length H. snd (H ! k) = b \<longrightarrow> kl \<le> int (length H - k - 1))"
  shows "spaced sl kl n (H @ [(a, b)])"
  unfolding spaced_def
proof (intro allI impI)
  fix j i
  assume j: "j < length (H @ [(a, b)])" "n \<le> j" "i < j"
    and eq: "fst ((H @ [(a, b)]) ! i) = fst ((H @ [(a, b)]) ! j)"
  show "sl \<le> int (j - i - 1) \<and>
    (\<forall>k < j. snd ((H @ [(a, b)]) ! k) = snd ((H @ [(a, b)]) ! j) \<longrightarrow> kl \<le> int (j - k - 1))"
  proof (cases "j = length H")
    case True
    then show ?thesis using assms(2) [of i] j eq by (auto simp: nth_append)
  next
    case False
    then have "j < length H" using j by simp
    then show ?thesis using assms(1) j eq by (fastforce simp: spaced_def nth_append)
  qed
qed

lemma find_record_in_history_far:
  assumes "find_record_in_history r a b rule st = ADD_TO_PLAYLIST"
    and "i < length (played r)" "fst (played r ! i) = a"
  shows "m_singer_limit rule \<le> int (length (played r) - i - 1) \<and>
    (\<forall>k < length (played r). snd (played r ! k) = b \<longrightarrow>
       m_track_limit rule \<le> int (length (played r) - k - 1))"
proof -
  let ?hs = "newest_first r" and ?n = "length (played r)"
  have len: "length ?hs = ?n" by (simp add: newest_first_def played_def)
  have nth: "singer (?hs ! (?n - k - 1)) = fst (played r ! k)"
    "title (?hs ! (?n - k - 1)) = snd (played r ! k)" if "k < ?n" for k
    using that by (simp_all add: newest_first_def played_def rev_nth case_prod_unfold)
  have "singer (?hs ! (?n - i - 1)) = a" "?n - i - 1 < length ?hs"
    using assms(2,3) nth len by simp_all
  from history_walk_far [OF assms(1) [unfolded find_record_in_history_def] this(2,1)]
  obtain x where s: "m_singer_limit rule \<le> int (?n - i - 1)"
    and t: "title_statistics_in_history ?hs (- 1) b (m_track_limit rule) = (ADD_TO_PLAYLIST, x)"
    by auto
  have "m_track_limit rule \<le> int (?n - k - 1)" if "k < ?n" "snd (played r ! k) = b" for k
    using title_statistics_far [OF t, of "?n - k - 1"] nth [OF that(1)] that len by simp
  with s show ?thesis by blast
qed

lemma smap_put_next:
  "map fst m = map int [k..<k + length m] \<Longrightarrow>
     smap_put (int (k + length m)) v m = m @ [(int (k + length m), v)]"
proof (induction m arbitrary: k)
  case (Cons e m)
  obtain a b where e: "e = (a, b)" by (cases e)
  have "[k..<k + length (e # m)] = k # [Suc k..<Suc k + length m]"
    using upt_conv_Cons [of k "k + length (e # m)"] by simp
  then have "a = int k" "map fst m = map int [Suc k..<Suc k + length m]"
    using Cons.prems e by simp_all
  then show ?case using e Cons.IH [of "Suc k"] by simp
qed simp

definition no_service :: "(string \<Rightarrow> (hash_table \<times> bool) option) \<Rightarrow> bool" where
  "no_service c \<longleftrightarrow> (\<forall>f h s. c f = Some (h, s) \<longrightarrow> \<not> s)"

text \<open>
  The invariant: the history is numbered without gaps, its part from \<open>n\<close> on is the playlist,
  no folder is exempt and the limits are the common ones.
\<close>

definition rotating ::
  "(string \<times> string) list \<Rightarrow> int \<Rightarrow> int \<Rightarrow> (string \<Rightarrow> (hash_table \<times> bool) option) \<Rightarrow> rotator \<Rightarrow> bool"
where
  "rotating H0 sl kl c r \<longleftrightarrow>
     contents r = c \<and> no_service c \<and>
     m_singer_limit (sRules r) = sl \<and> m_track_limit (sRules r) = kl \<and>
     (\<forall>f x. map_of (mRules r) f = Some x \<longrightarrow> m_singer_limit x = sl \<and> m_track_limit x = kl) \<and>
     map fst (mHistory r) = map int [0..<length (mHistory r)] \<and>
     played r = H0 @ map track_names (play_list r) \<and>
     spaced sl kl (length H0) (played r)"

lemma get_current_rules_common:
  assumes "\<forall>f x. map_of (mRules r) f = Some x \<longrightarrow>
      m_singer_limit x = m_singer_limit (sRules r) \<and> m_track_limit x = m_track_limit (sRules r)"
  shows "m_singer_limit (get_current_rules r f) = m_singer_limit (sRules r) \<and>
    m_track_limit (get_current_rules r f) = m_track_limit (sRules r)"
  using assms by (auto simp: get_current_rules_def split: option.splits)

lemma add_to_playlist_history:
  assumes "add_to_playlist r t st = Some r'"
    and "map_of t (KStr ''executor'') = Some (ZString a)"
    and "map_of t (KStr ''title'') = Some (ZString b)"
  shows "mHistory r' = smap_put (int (length (mHistory r)))
    \<lparr>singer = a, title = b, h_statistics = st + 1\<rparr> (mHistory r)"
proof -
  let ?h = "smap_put (int (length (mHistory r)))
    \<lparr>singer = a, title = b, h_statistics = st + 1\<rparr> (mHistory r)"
  have h: "add_to_history (r\<lparr>play_list := play_list r @ [t]\<rparr>) t st =
      Some (r\<lparr>play_list := play_list r @ [t], mHistory := ?h\<rparr>)"
    using assms(2,3) by (simp add: add_to_history_def)
  have cs: "mHistory (snd (create_schedule_order x)) = mHistory x" for x
    using create_schedule_order_core [of x] by (simp add: same_core_def)
  obtain tm where tm: "append_playlist_duration (pTimer r) (track_duration_of t) = Some tm"
    using assms(1) h by (auto simp: add_to_playlist_def Let_def Option.bind_eq_Some_conv)
  show ?thesis
  proof (cases "m_schedule r")
    case False
    then show ?thesis using assms(1) h tm by (auto simp: add_to_playlist_def)
  next
    case True
    then obtain q tm' where "remained_interval tm (track_duration_of t) = Some (q, tm')"
      using assms(1) h tm by (auto simp: add_to_playlist_def Let_def Option.bind_eq_Some_conv)
    with True assms(1) h tm show ?thesis
      by (auto simp: add_to_playlist_def Let_def cs)
  qed
qed

lemma rotating_cong:
  assumes "rotating H0 sl kl c r" "play_list r' = play_list r" "mHistory r' = mHistory r"
    "sRules r' = sRules r" "mRules r' = mRules r" "contents r' = contents r"
  shows "rotating H0 sl kl c r'"
  using assms unfolding rotating_def played_def by metis

interpretation rotation: walk_invariant "rotating H0 sl kl c" for H0 sl kl c
proof unfold_locales
  show "rotating H0 sl kl c r \<Longrightarrow> same_core r r' \<Longrightarrow> rotating H0 sl kl c r'" for r r'
    by (erule rotating_cong) (simp_all add: same_core_def)
  show "rotating H0 sl kl c r \<Longrightarrow> rotating H0 sl kl c (r\<lparr>construction_complete := d\<rparr>)" for r d
    by (erule rotating_cong) (simp_all add: contents_def fun_eq_iff)
  show "rotating H0 sl kl c r'" if "rotating H0 sl kl c r" "taken r f hf t a b r'"
    for r f hf t a b r'
  proof -
    have add: "add_to_playlist r t (f_statistics hf) = Some r'"
      and nm: "map_of t (KStr ''executor'') = Some (ZString a)"
        "map_of t (KStr ''title'') = Some (ZString b)"
      and rec: "find_record_in_history r a b (get_current_rules r f) (f_statistics hf)
        = ADD_TO_PLAYLIST"
      using that by (auto simp: taken_def rotating_def no_service_def)
    have keys: "map fst (mHistory r) = map int [0..<length (mHistory r)]"
      using that(1) by (simp add: rotating_def)
    then have h: "mHistory r' = mHistory r @
        [(int (length (mHistory r)), \<lparr>singer = a, title = b, h_statistics = f_statistics hf + 1\<rparr>)]"
      using add_to_playlist_history [OF add nm] smap_put_next [of "mHistory r" 0] by simp
    have pl: "played r' = played r @ [(a, b)]" by (simp add: played_def h)
    have names: "track_names t = (a, b)" using nm by (simp add: track_names_def)
    have rules: "m_singer_limit (get_current_rules r f) = sl"
      "m_track_limit (get_current_rules r f) = kl"
      using get_current_rules_common [of r f] that(1) by (auto simp: rotating_def)
    have "spaced sl kl (length H0) (played r')" unfolding pl
    proof (rule spaced_snoc)
      show "spaced sl kl (length H0) (played r)" using that(1) unfolding rotating_def by metis
    qed (use find_record_in_history_far [OF rec] rules in auto)
    then show ?thesis
      using that taken_contents [OF that(2)] add_to_playlist_fields(1,7,8) [OF add] pl names keys h
      by (simp add: rotating_def)
  qed
qed

section \<open>What the constructor builds\<close>

text \<open>\<open>search_rules\<close> for a folder gives the common rules back, whatever the folder says.\<close>

lemma search_rules_folder:
  "m_singer_limit (search_rules s t False) = m_singer_limit s \<and>
   m_track_limit (search_rules s t False) = m_track_limit s"
  by (simp add: search_rules_def Let_def)

definition common_only :: "rotator \<Rightarrow> bool" where
  "common_only r \<longleftrightarrow>
     (\<forall>f x. map_of (mRules r) f = Some x \<longrightarrow>
        m_singer_limit x = m_singer_limit (sRules r) \<and>
        m_track_limit x = m_track_limit (sRules r))"

lemma search_tracks_frame:
  "search_tracks r v f = Some r' \<Longrightarrow>
     r' = r\<lparr>hfolders := hfolders r', folders := folders r', max_ht_size := max_ht_size r'\<rparr>"
  by (auto simp: search_tracks_def increase_max_ht_size_def Let_def
      split: zval.splits option.splits if_splits)

lemma search_tracks_fields:
  "search_tracks r v f = Some r' \<Longrightarrow>
     mRules r' = mRules r \<and> sRules r' = sRules r \<and> construction_complete r' = construction_complete r
     \<and> play_list r' = play_list r \<and> max_tracks r' = max_tracks r \<and>
     general_duration r' = general_duration r \<and> mHistory r' = mHistory r"
  by (auto simp: search_tracks_def increase_max_ht_size_def Let_def
      split: zval.splits option.splits if_splits)

lemma search_folders_loop_common:
  "search_folders_loop es r = Some r' \<Longrightarrow> common_only r \<Longrightarrow>
     common_only r' \<and> construction_complete r' = construction_complete r \<and>
     max_tracks r' = max_tracks r \<and> general_duration r' = general_duration r"
proof (induction es r rule: search_folders_loop.induct)
  case (2 k v es r)
  show ?case
  proof (cases k)
    case (KIdx i) then show ?thesis using 2 by simp
  next
    case (KStr f)
    then obtain r1 where t: "search_tracks r v f = Some r1"
      using "2.prems" by (auto simp: Option.bind_eq_Some_conv)
    define r2 where "r2 = (case (map_of (hfolders r1) f, v) of
                      (Some _, ZArray t) \<Rightarrow>
                        r1\<lparr>mRules := smap_put f (search_rules (sRules r1) t False) (mRules r1)\<rparr>
                    | _ \<Rightarrow> r1)"
    have "search_folders_loop es r2 = Some r'"
      using "2.prems"(1) KStr t by (simp add: r2_def Let_def)
    moreover have "common_only r2"
      using search_tracks_fields [OF t] "2.prems"(2)
      by (auto simp: r2_def common_only_def map_of_smap_put search_rules_folder
          split: option.splits zval.splits)
    moreover have "construction_complete r2 = construction_complete r"
      "max_tracks r2 = max_tracks r" "general_duration r2 = general_duration r"
      using search_tracks_fields [OF t]
      by (auto simp: r2_def split: option.splits zval.splits)
    ultimately show ?thesis
      using "2.IH"(2) [OF KStr t refl] by (simp add: r2_def)
  qed
qed simp

lemma search_schedule_fields:
  "snd (search_schedule w r arr) = r' \<Longrightarrow>
     mRules r' = mRules r \<and> sRules r' = sRules r \<and> construction_complete r' = construction_complete r
     \<and> max_tracks r' = max_tracks r \<and> general_duration r' = general_duration r"
proof -
  have "mRules (schedule_loop es r) = mRules r \<and> sRules (schedule_loop es r) = sRules r \<and>
      construction_complete (schedule_loop es r) = construction_complete r \<and>
      max_tracks (schedule_loop es r) = max_tracks r \<and>
      general_duration (schedule_loop es r) = general_duration r" for es r
    by (induction es r rule: schedule_loop.induct)
      (auto simp: Let_def split: zkey.splits zval.splits)
  then show "snd (search_schedule w r arr) = r' \<Longrightarrow> ?thesis"
    by (auto simp: search_schedule_def Let_def split: option.splits prod.splits if_splits)
qed

lemma search_order_fields:
  "snd (search_order zhash r arr) = r' \<Longrightarrow>
     mRules r' = mRules r \<and> sRules r' = sRules r \<and> construction_complete r' = construction_complete r
     \<and> max_tracks r' = max_tracks r \<and> general_duration r' = general_duration r"
proof -
  let ?same = "\<lambda>r r'. mRules r' = mRules r \<and> sRules r' = sRules r \<and>
      construction_complete r' = construction_complete r \<and> max_tracks r' = max_tracks r \<and>
      general_duration r' = general_duration r"
  have inc: "?same r (increase_max_ht_size r v)" for r v by (simp add: increase_max_ht_size_def)
  have "?same r (default_order fs i r)" for fs i r
    by (induction fs i r rule: default_order.induct) (simp_all add: inc)
  moreover have "?same r (order_loop zhash es r)" for es r
    by (induction zhash es r rule: order_loop.induct)
      (auto simp: inc split: option.splits zval.splits)
  ultimately show "snd (search_order zhash r arr) = r' \<Longrightarrow> ?thesis"
    by (auto simp: search_order_def Let_def split: option.splits if_splits)
qed

lemma on_init_common:
  assumes "on_init zhash w arr mt gd = Some r"
  shows "common_only r \<and> \<not> construction_complete r \<and> max_tracks r = mt \<and> general_duration r = gd"
proof -
  obtain tm where tm: "TTimer_new gd = Some tm"
    using assms by (auto simp: on_init_def Option.bind_eq_Some_conv)
  define r1 where "r1 = (rotator_blank arr mt gd tm)
    \<lparr>sRules := search_rules (sRules (rotator_blank arr mt gd tm)) arr True\<rparr>"
  let ?ok = "\<lambda>r. common_only r \<and> \<not> construction_complete r \<and> max_tracks r = mt \<and>
    general_duration r = gd"
  have ok1: "?ok r1" by (simp add: r1_def rotator_blank_def common_only_def)
  show ?thesis
  proof (cases "arr = []")
    case True
    then show ?thesis
      using assms tm by (auto simp: on_init_def array_size_def rotator_blank_def common_only_def)
  next
    case False
    then obtain found r2 where f: "search_folders r1 arr = Some (found, r2)"
      using assms tm
      by (auto simp: on_init_def array_size_def r1_def Let_def Option.bind_eq_Some_conv)
    have ok2: "?ok r2"
      using f ok1 search_folders_loop_common [of _ r1 r2]
      by (auto simp: search_folders_def split: option.splits if_splits)
    show ?thesis
    proof (cases found)
      case found: False
      then show ?thesis
        using assms tm False f ok2 by (auto simp: on_init_def array_size_def r1_def Let_def)
    next
      case found: True
      obtain sch r3 where s: "search_schedule w r2 arr = (sch, r3)" by fastforce
      obtain ord r4 where o: "search_order zhash (r3\<lparr>m_schedule := sch\<rparr>) arr = (ord, r4)"
        by fastforce
      define r5 where
        "r5 = (if sch then r3\<lparr>m_schedule := sch\<rparr> else r4\<lparr>m_order := ord\<rparr>)"
      have ok5: "?ok r5"
        using ok2 search_schedule_fields [of w r2 arr r3] s o
          search_order_fields [of zhash "r3\<lparr>m_schedule := sch\<rparr>" arr r4]
        by (simp add: r5_def common_only_def)
      obtain r6 where h: "search_history zhash r5 arr = Some r6"
        and r: "r = r6\<lparr>construction_complete := False,
                    m_special_conditions := set_special_conditions r6\<rparr>"
        using assms tm False f found s o
        by (cases sch) (auto simp: on_init_def array_size_def r1_def r5_def Let_def
            Option.bind_eq_Some_conv)
      have "?ok r6" using h ok5
        by (auto simp: search_history_def common_only_def split: option.splits)
      then show ?thesis by (simp add: r common_only_def)
    qed
  qed
qed

section \<open>Properties\<close>

text \<open>A small input: two folders, an order, a history of one entry, both intervals 1.\<close>

definition demo_track :: "string \<Rightarrow> string \<Rightarrow> zval" where
  "demo_track a b = ZArray [(KStr ''executor'', ZString a), (KStr ''title'', ZString b),
     (KStr ''duration'', ZString ''00:04:10'')]"

definition demo_input :: hash_table where
  "demo_input =
     [(KStr ''rules'', ZArray [(KStr ''singer_interval'', ZLong 1), (KStr ''track_interval'', ZLong 1)]),
      (KStr ''folders'', ZArray
        [(KStr ''A'', ZArray [(KStr ''tracks'', ZArray
           [(KIdx 0, demo_track ''x'' ''one''), (KIdx 1, demo_track ''y'' ''two'')])]),
         (KStr ''B'', ZArray [(KStr ''tracks'', ZArray [(KIdx 0, demo_track ''z'' ''three'')])])]),
      (KStr ''order'', ZArray [(KIdx 0, ZString ''A''), (KIdx 1, ZString ''B'')]),
      (KStr ''history'', ZArray [(KIdx 0, demo_track ''x'' ''one'')])]"

definition demo_init :: "int \<Rightarrow> rotator option" where
  "demo_init mt = on_init (\<lambda>_. 0) \<lparr>tm_hour = 0, tm_min = 0, tm_sec = 0\<rparr> demo_input mt None"

abbreviation "zhash0 \<equiv> (\<lambda>_ :: string. 0 :: nat)"
abbreviation "midnight \<equiv> \<lparr>tm_hour = 0, tm_min = 0, tm_sec = 0\<rparr>"

lemma demo_runs:
  "case demo_init 3 of
     Some r \<Rightarrow> map fst (mHistory r) = map int [0..<length (mHistory r)] \<and>
       list_all (\<lambda>(f, hf). \<not> service hf) (hfolders r) \<and> \<not> construction_complete r \<and>
       max_tracks r = 3 \<and>
       (case create_playlist zhash0 20 r of Returned r' \<Rightarrow> length (play_list r') = 3 | _ \<Rightarrow> False)
   | None \<Rightarrow> False"
  by code_simp

lemma demo_obtain:
  obtains r r' where "on_init zhash0 midnight demo_input 3 None = Some r"
    "demo_init 3 = Some r" "create_playlist zhash0 20 r = Returned r'"
    "map fst (mHistory r) = map int [0..<length (mHistory r)]"
    "\<forall>(f, hf) \<in> set (hfolders r). \<not> service hf"
    "\<not> construction_complete r" "max_tracks r = 3" "length (play_list r') = 3"
  using demo_runs that
  by (auto simp: demo_init_def list_all_iff split: option.splits outcome.splits)

text \<open>
  C2. Rotation rules: a playlist the engine finishes continues the history it read, and from the
  first new entry on a singer is heard again only after at least \<open>singer_interval\<close> other tracks,
  and then with no title heard less than \<open>track_interval\<close> tracks before. (The history's keys
  run from 0 without a gap, no folder is a service folder.)
\<close>

theorem playlist_keeps_rules:
  assumes "on_init zhash w arr mt gd = Some r"
    and "map fst (mHistory r) = map int [0..<length (mHistory r)]"
    and "\<forall>(f, hf) \<in> set (hfolders r). \<not> service hf"
    and "create_playlist zhash n r = Returned r'"
  shows "played r' = played r @ map track_names (play_list r') \<and>
    spaced (m_singer_limit (sRules r)) (m_track_limit (sRules r)) (length (mHistory r)) (played r')"
proof -
  note init = on_init_common [OF assms(1)]
  have "no_service (contents r)"
    using assms(3) by (auto simp: no_service_def contents_def dest: map_of_SomeD)
  then have "rotating (played r) (m_singer_limit (sRules r)) (m_track_limit (sRules r)) (contents r)
      (r\<lparr>play_list := []\<rparr>)"
    using assms(2) init
    by (auto simp: rotating_def common_only_def played_def contents_def spaced_def)
  then have "rotating (played r) (m_singer_limit (sRules r)) (m_track_limit (sRules r))
      (contents r) r'"
    using rotation.create_playlist_keeps [OF assms(4)] init by simp
  then have "played r' = played r @ map track_names (play_list r')"
    "spaced (m_singer_limit (sRules r)) (m_track_limit (sRules r)) (length (played r)) (played r')"
    unfolding rotating_def by blast+
  then show ?thesis by (simp add: played_def)
qed

theorem playlist_keeps_rules_witness:
  "\<exists>r r'. demo_init 3 = Some r \<and> create_playlist zhash0 20 r = Returned r' \<and>
     length (play_list r') = 3 \<and> played r' = played r @ map track_names (play_list r')"
proof -
  obtain r r' where *: "on_init zhash0 midnight demo_input 3 None = Some r"
    "demo_init 3 = Some r" "create_playlist zhash0 20 r = Returned r'"
    "map fst (mHistory r) = map int [0..<length (mHistory r)]"
    "\<forall>(f, hf) \<in> set (hfolders r). \<not> service hf" "length (play_list r') = 3"
    by (rule demo_obtain)
  from playlist_keeps_rules [OF *(1,4,5,3)] * show ?thesis by blast
qed

text \<open>
  C29. A playlist limited to \<open>max_tracks\<close> tracks never holds more, whatever folders, schedule
  or length in time steer the walk, and every entry is a track of one of the folders, with a
  singer and a title.
\<close>

theorem playlist_within_max_tracks:
  assumes "create_playlist zhash n r = Returned r'" and "\<not> construction_complete r"
  shows "(0 < max_tracks r \<longrightarrow> rsize r' \<le> max_tracks r) \<and>
    (\<forall>t \<in> set (play_list r'). track_of (contents r) t)"
proof -
  have "within_max (max_tracks r) (r\<lparr>play_list := []\<rparr>)"
    by (simp add: within_max_def rsize_def)
  moreover have "drawn (contents r) (r\<lparr>play_list := []\<rparr>)"
    by (simp add: drawn_def contents_def fun_eq_iff)
  ultimately show ?thesis
    using bounded.create_playlist_keeps [OF assms(1) _ assms(2)]
      origin.create_playlist_keeps [OF assms(1) _ assms(2)]
    by (simp add: within_max_def drawn_def)
qed

theorem playlist_within_max_tracks_witness:
  "\<exists>r r'. demo_init 3 = Some r \<and> create_playlist zhash0 20 r = Returned r' \<and>
     play_list r' \<noteq> [] \<and> rsize r' \<le> 3 \<and> (\<forall>t \<in> set (play_list r'). track_of (contents r) t)"
proof -
  obtain r r' where *: "demo_init 3 = Some r" "create_playlist zhash0 20 r = Returned r'"
    "\<not> construction_complete r" "max_tracks r = 3" "length (play_list r') = 3"
    by (rule demo_obtain)
  have "play_list r' \<noteq> []" using *(5) by auto
  with playlist_within_max_tracks [OF *(2,3)] * show ?thesis by auto
qed



end
