(* ===== verification/Rotator_Ends.thy ===== *)
theory Rotator_Ends
  imports Rotator_Walk
begin

text \<open>
  \<open>create_playlist\<close> comes to an end when it has a number of tracks to reach. The outer loop of
  \<open>analise_folders_by_order\<close> has no counter; it ends because the biggest folder of the order
  is exhausted again and again, each time either the playlist has grown since the last time or a
  counter of at most \<open>MAX_INCREASE_COUNTER\<close> goes up.
\<close>

section \<open>One look into a folder\<close>

text \<open>What a turn keeps, apart from the positions in the folders, when there is no schedule.\<close>

definition onward :: "rotator \<Rightarrow> rotator \<Rightarrow> bool" where
  "onward r r' \<longleftrightarrow>
     folders_order r' = folders_order r \<and> max_ht_size r' = max_ht_size r \<and>
     max_tracks r' = max_tracks r \<and> \<not> m_schedule r' \<and> contents r' = contents r \<and>
     m_previos_playlist_size r' = m_previos_playlist_size r \<and>
     construction_complete r' = construction_complete r \<and>
     set_start_folder r' = set_start_folder r \<and>
     (rsize r < rsize r' \<or> rsize r' = rsize r \<and> m_increase_counter r' = m_increase_counter r)"

lemma onward_trans: "onward r s \<Longrightarrow> onward s t \<Longrightarrow> onward r t"
  by (auto simp: onward_def)

lemma onward_put:
  assumes "\<not> m_schedule r" "map_of (hfolders r) f = Some hf0" "ht hf = ht hf0" "service hf = service hf0"
  shows "onward r (r\<lparr>hfolders := smap_put f hf (hfolders r)\<rparr>)"
  using assms contents_put [OF assms(2-4)] by (simp add: onward_def same_core_def rsize_def)

lemma find_record_onward:
  assumes "find_record_in_playlist r hf f = Some (w, r')" and "\<not> m_schedule r"
  shows "onward r r'"
  using assms(1)
proof (cases rule: find_record_cases)
  case same then show ?thesis using assms(2) by (simp add: onward_def)
next
  case (take t a b)
  from add_to_playlist_fields [OF take(8)] assms(2) show ?thesis
    by (simp add: onward_def rsize_def contents_def fun_eq_iff)
qed

lemma analize_onward:
  assumes "global_analize r f tn = Some (go, r', tn')" and "\<not> m_schedule r"
  obtains hf0 hf' where "onward r r'" "map_of (hfolders r) f = Some hf0"
    "map_of (hfolders r') f = Some hf'" "ht hf' = ht hf0"
    "\<And>g. g \<noteq> f \<Longrightarrow> map_of (hfolders r') g = map_of (hfolders r) g"
    "index hf0 < length (ht hf0) \<Longrightarrow> index hf0 < index hf' \<and> tn' = tn"
    "length (ht hf0) \<le> index hf0 \<Longrightarrow> tn' = (index hf0 < max_ht_size r)"
    "\<not> go \<Longrightarrow> index hf' < length (ht hf0)"
  using assms(1)
proof (cases rule: global_analize_cases)
  case (1 hf0 hf w r2 idx)
  let ?r1 = "r\<lparr>hfolders := smap_put f hf (hfolders r)\<rparr>"
  have on1: "onward r ?r1" using 1 assms(2) by (intro onward_put) simp_all
  then have "\<not> m_schedule ?r1" by (simp add: onward_def)
  then have on2: "onward ?r1 r2" by (rule find_record_onward [OF 1(3)])
  have h2: "hfolders r2 = smap_put f hf (hfolders r)"
    using find_record_hfolders [OF 1(3)] by simp
  have on3: "onward r2 r'" unfolding 1(5)
  proof (rule onward_put)
    show "\<not> m_schedule r2" using on2 by (simp add: onward_def)
    show "map_of (hfolders r2) f = Some hf" by (simp add: h2 map_of_smap_put)
  qed simp_all
  have on: "onward r r'" using on1 on2 on3 onward_trans by blast
  have h': "map_of (hfolders r') f = Some (hf\<lparr>index := idx\<rparr>)"
    "\<And>g. g \<noteq> f \<Longrightarrow> map_of (hfolders r') g = map_of (hfolders r) g"
    using 1(5) h2 by (simp_all add: map_of_smap_put)
  have tn: "tn' = (if index hf0 \<ge> length (ht hf0) then index hf0 < max_ht_size r else tn)"
    using assms(1) 1(1)
    by (auto simp: global_analize_def array_size_def Let_def Option.bind_eq_Some_conv)
  have idx: "index hf + 1 \<le> idx" using 1(4) search_next_ge by simp
  have same: "index hf = index hf0" if "index hf0 < length (ht hf0)"
    using that 1(2) by (simp add: wrap_folder_def array_size_def)
  show ?thesis
  proof (rule that [OF on 1(1) h'(1) _ h'(2)])
    show "ht (hf\<lparr>index := idx\<rparr>) = ht hf0" using 1(2) by simp
    show "index hf0 < index (hf\<lparr>index := idx\<rparr>) \<and> tn' = tn" if "index hf0 < length (ht hf0)"
      using that same [OF that] idx tn by simp
    show "tn' = (index hf0 < max_ht_size r)" if "length (ht hf0) \<le> index hf0"
      using that tn by simp
    show "index (hf\<lparr>index := idx\<rparr>) < length (ht hf0)" if "\<not> go"
      using that 1(2,6) by (simp add: not_le)
  qed
qed

text \<open>The whole inner loop.\<close>

lemma folder_loop_onward:
  assumes "folder_loop r f tn = Some (r', tn')" and "\<not> m_schedule r"
  shows "onward r r' \<and> (\<forall>g. g \<noteq> f \<longrightarrow> map_of (hfolders r') g = map_of (hfolders r) g) \<and>
    (\<exists>hf0 hf'. map_of (hfolders r) f = Some hf0 \<and> map_of (hfolders r') f = Some hf' \<and>
       ht hf' = ht hf0 \<and> (index hf0 < length (ht hf0) \<longrightarrow> index hf0 < index hf' \<and> tn' = tn) \<and>
       (length (ht hf0) \<le> index hf0 \<longrightarrow> tn' = (index hf0 < max_ht_size r)))"
  using assms
proof (induction r f tn arbitrary: r' tn' rule: folder_loop.induct)
  case (1 r f tn)
  from 1(2) obtain go r1 tn1 where g: "global_analize r f tn = Some (go, r1, tn1)"
    and nx: "(if go then Some (r1, tn1) else folder_loop r1 f tn1) = Some (r', tn')"
    by (subst (asm) folder_loop.simps) (auto split: option.splits)
  from analize_onward [OF g 1(3)] obtain hf0 hf1 where a: "onward r r1"
    "map_of (hfolders r) f = Some hf0" "map_of (hfolders r1) f = Some hf1" "ht hf1 = ht hf0"
    "\<And>g. g \<noteq> f \<Longrightarrow> map_of (hfolders r1) g = map_of (hfolders r) g"
    "index hf0 < length (ht hf0) \<Longrightarrow> index hf0 < index hf1 \<and> tn1 = tn"
    "length (ht hf0) \<le> index hf0 \<Longrightarrow> tn1 = (index hf0 < max_ht_size r)"
    "\<not> go \<Longrightarrow> index hf1 < length (ht hf0)"
    by metis
  show ?case
  proof (cases go)
    case True then show ?thesis using nx a by auto
  next
    case False
    have ns: "\<not> m_schedule r1" using a(1) by (simp add: onward_def)
    from "1.IH" [OF g refl refl False _ ns] nx False
    have ih: "onward r1 r'" "\<forall>g. g \<noteq> f \<longrightarrow> map_of (hfolders r') g = map_of (hfolders r1) g"
      "\<exists>hf'. map_of (hfolders r') f = Some hf' \<and> ht hf' = ht hf1 \<and> index hf1 < index hf' \<and> tn' = tn1"
      using a(3,4,8) by auto
    then obtain hf' where b: "map_of (hfolders r') f = Some hf'" "ht hf' = ht hf1"
      "index hf1 < index hf'" "tn' = tn1" by blast
    have "onward r r'" using a(1) ih(1) onward_trans by blast
    moreover have "index hf0 < length (ht hf0) \<longrightarrow> index hf0 < index hf' \<and> tn' = tn"
      using a(6) b(3,4) by auto
    moreover have "length (ht hf0) \<le> index hf0 \<longrightarrow> tn' = (index hf0 < max_ht_size r)"
      using a(7) b(4) by simp
    ultimately show ?thesis using a(2,4,5) b(1,2) ih(2) by simp
  qed
qed

section \<open>No undefined access\<close>

text \<open>Every track's length, where it has one, is in the notation \<open>get_seconds\<close> reads.\<close>

definition readable :: "(string \<Rightarrow> (hash_table \<times> bool) option) \<Rightarrow> bool" where
  "readable c \<longleftrightarrow>
     (\<forall>f h s k t. c f = Some (h, s) \<longrightarrow> (k, ZArray t) \<in> set h \<longrightarrow>
        (case track_duration_of t of None \<Rightarrow> True | Some d \<Rightarrow> get_seconds 0 (Some d) \<noteq> None))"

lemma get_seconds_default:
  "get_seconds d x = None \<longleftrightarrow> get_seconds 0 x = None"
  by (auto simp: get_seconds_def Let_def Option.bind_eq_None_conv split: option.splits)

lemma append_defined:
  "(case s of None \<Rightarrow> True | Some d \<Rightarrow> get_seconds 0 (Some d) \<noteq> None) \<Longrightarrow>
     append_playlist_duration tm s \<noteq> None"
  using get_seconds_default [of "m_default_track_duration tm" s]
  by (cases s) (auto simp: append_playlist_duration_def)

lemma find_record_defined:
  assumes "readable (contents r)" "contents r f = Some (ht hf, s)" "\<not> m_schedule r"
  shows "find_record_in_playlist r hf f \<noteq> None"
proof -
  have "add_to_playlist r t (f_statistics hf) \<noteq> None"
    if t: "map_of (ht hf) (KIdx (index hf)) = Some (ZArray t)"
      "map_of t (KStr ''executor'') = Some (ZString a)" "map_of t (KStr ''title'') = Some (ZString b)"
    for t a b
  proof -
    have "append_playlist_duration (pTimer r) (track_duration_of t) \<noteq> None"
      using assms(1,2) map_of_SomeD [OF t(1)] by (intro append_defined) (auto simp: readable_def)
    then show ?thesis
      using t assms(3) by (auto simp: add_to_playlist_def add_to_history_def Let_def)
  qed
  then show ?thesis
    by (auto simp: find_record_in_playlist_def Let_def split: option.splits zval.splits)
qed

lemma analize_defined:
  assumes "readable (contents r)" "contents r f \<noteq> None" "\<not> m_schedule r"
  shows "global_analize r f tn \<noteq> None"
proof -
  obtain hf0 where h: "map_of (hfolders r) f = Some hf0"
    using assms(2) by (auto simp: contents_def)
  let ?r1 = "r\<lparr>hfolders := smap_put f (wrap_folder hf0) (hfolders r)\<rparr>"
  have on: "onward r ?r1" using h assms(3) by (intro onward_put) simp_all
  have "find_record_in_playlist ?r1 (wrap_folder hf0) f \<noteq> None"
  proof (rule find_record_defined)
    show "contents ?r1 f = Some (ht (wrap_folder hf0), service hf0)"
      by (simp add: contents_def map_of_smap_put)
  qed (use on assms in \<open>auto simp: onward_def\<close>)
  then show ?thesis using h by (auto simp: global_analize_def Let_def)
qed

lemma folder_loop_defined:
  "readable (contents r) \<Longrightarrow> contents r f \<noteq> None \<Longrightarrow> \<not> m_schedule r \<Longrightarrow>
     folder_loop r f tn \<noteq> None"
proof (induction r f tn rule: folder_loop.induct)
  case (1 r f tn)
  obtain go r1 tn1 where g: "global_analize r f tn = Some (go, r1, tn1)"
    using analize_defined [OF 1(2-4), of tn] by auto
  have "onward r r1" using analize_onward [OF g 1(4)] by metis
  then have "\<not> go \<longrightarrow> folder_loop r1 f tn1 \<noteq> None"
    using "1.IH" [OF g refl refl] 1(2-4) by (simp add: onward_def)
  then show ?case using g by (subst folder_loop.simps) simp
qed

section \<open>One turn\<close>

text \<open>
  The situation at the head of the outer loop: the order \<open>ord\<close> with the biggest folder
  \<open>big\<close> in it at the key \<open>kb\<close>, the playlist still short.
\<close>

definition walking ::
  "folder_order \<Rightarrow> int \<Rightarrow> (string \<Rightarrow> (hash_table \<times> bool) option) \<Rightarrow> int \<Rightarrow> string \<Rightarrow> rotator \<Rightarrow> bool"
where
  "walking ord m c kb big r \<longleftrightarrow>
     folders_order r = ord \<and> max_tracks r = m \<and> \<not> m_schedule r \<and> contents r = c \<and>
     \<not> set_start_folder r \<and> \<not> construction_complete r \<and> rsize r < m \<and>
     m_previos_playlist_size r \<le> rsize r \<and> readable c \<and> smap_ok ord \<and>
     (\<forall>k f. map_of ord k = Some f \<longrightarrow> c f \<noteq> None) \<and> map_of ord kb = Some big \<and>
     (\<exists>h s. c big = Some (h, s) \<and> max_ht_size r = length h)"

text \<open>What gets smaller from turn to turn, in the order of importance.\<close>

definition room :: "rotator \<times> int \<Rightarrow> nat" where
  "room = (\<lambda>(r, k). nat (max_tracks r - m_previos_playlist_size r))"

definition patience :: "rotator \<times> int \<Rightarrow> nat" where
  "patience = (\<lambda>(r, k). if rsize r > m_previos_playlist_size r then 0
     else nat (MAX_INCREASE_COUNTER + 1 - m_increase_counter r))"

definition unread :: "string \<Rightarrow> rotator \<times> int \<Rightarrow> nat" where
  "unread big = (\<lambda>(r, k). case map_of (hfolders r) big of None \<Rightarrow> 0
     | Some hf \<Rightarrow> length (ht hf) - index hf)"

definition beyond :: "int \<Rightarrow> rotator \<times> int \<Rightarrow> nat" where
  "beyond kb = (\<lambda>(r, k). if k \<le> kb then 0 else 1)"

definition ahead :: "folder_order \<Rightarrow> rotator \<times> int \<Rightarrow> nat" where
  "ahead ord = (\<lambda>(r, k). length (filter (\<lambda>e. k < fst e) ord))"

definition turn_order :: "folder_order \<Rightarrow> int \<Rightarrow> string \<Rightarrow> ((rotator \<times> int) \<times> (rotator \<times> int)) set" where
  "turn_order ord kb big = measures [room, patience, unread big, beyond kb, ahead ord]"

lemma smap_upper_greater: "smap_upper k m = Some e \<Longrightarrow> k < fst e \<and> e \<in> set m"
  by (induction k m rule: smap_upper.induct) (auto split: if_splits)

lemma smap_upper_least:
  "smap_ok m \<Longrightarrow> smap_upper k m = Some e \<Longrightarrow> x \<in> set m \<Longrightarrow> k < fst x \<Longrightarrow> fst e \<le> fst x"
  by (induction k m rule: smap_upper.induct)
    (auto simp: smap_ok_def split: if_splits intro: less_imp_le)

lemma smap_upper_none: "smap_upper k m = None \<Longrightarrow> x \<in> set m \<Longrightarrow> fst x \<le> k"
  by (induction k m rule: smap_upper.induct) (auto split: if_splits)

lemma ahead_less:
  "(e :: int \<times> string) \<in> set ord \<Longrightarrow> k < fst e \<Longrightarrow>
     length (filter (\<lambda>x. fst e < fst x) ord) < length (filter (\<lambda>x. k < fst x) ord)"
proof (induction ord)
  case (Cons a ord)
  have "length (filter (\<lambda>x. fst e < fst x) ord) \<le> length (filter (\<lambda>x. k < fst x) ord)"
    using Cons.prems(2) by (induction ord) auto
  then show ?case using Cons by auto
qed simp

text \<open>The next key of the order, and how it comes closer to the biggest folder's.\<close>

definition next_key :: "folder_order \<Rightarrow> int \<Rightarrow> int option" where
  "next_key ord k = (case smap_upper k ord of Some e \<Rightarrow> Some (fst e)
     | None \<Rightarrow> map_option fst (smap_begin ord))"

lemma next_key_some:
  "map_of ord kb = Some big \<Longrightarrow> \<exists>k'. next_key ord k = Some k' \<and> map_of ord k' \<noteq> None"
proof -
  assume "map_of ord kb = Some big"
  then obtain a b m where o: "ord = (a, b) # m" by (cases ord) auto
  show ?thesis
  proof (cases "smap_upper k ord")
    case None then show ?thesis by (simp add: next_key_def o)
  next
    case (Some e)
    then have "e \<in> set ord" using smap_upper_greater by blast
    then have "map_of ord (fst e) \<noteq> None" by (simp add: map_of_eq_None_iff)
    then show ?thesis using Some by (simp add: next_key_def)
  qed
qed

lemma next_key_closer:
  assumes "smap_ok ord" "map_of ord kb = Some big" "k \<noteq> kb" "next_key ord k = Some k'"
  shows "beyond kb (r', k') < beyond kb (r, k) \<or>
    beyond kb (r', k') \<le> beyond kb (r, k) \<and> ahead ord (r', k') < ahead ord (r, k)"
proof (cases "smap_upper k ord")
  case (Some e)
  then have k': "k' = fst e" "k < k'" "e \<in> set ord"
    using assms(4) smap_upper_greater [OF Some] by (auto simp: next_key_def)
  have "k' \<le> kb" if "k < kb"
    using smap_upper_least [OF assms(1) Some, of "(kb, big)"] that k'(1) map_of_SomeD [OF assms(2)]
    by simp
  then show ?thesis
    using assms(3) k' ahead_less [OF k'(3), of k] by (auto simp: beyond_def ahead_def)
next
  case None
  have kb: "(kb, big) \<in> set ord" using assms(2) by (rule map_of_SomeD)
  then have "kb < k" using smap_upper_none [OF None] assms(3) by force
  moreover obtain a b m where o: "ord = (a, b) # m" using kb by (cases ord) auto
  then have "k' = a" using assms(4) None by (simp add: next_key_def)
  moreover have "a \<le> kb" using assms(1) kb o by (auto simp: smap_ok_def)
  ultimately show ?thesis by (simp add: beyond_def)
qed

lemma onward_core:
  assumes "walking ord m c kb big r" "onward r r1"
  shows "room (r1, x) = room (r, y)" "patience (r1, x) \<le> patience (r, y)"
proof -
  have prev: "m_previos_playlist_size r \<le> rsize r" using assms(1) unfolding walking_def by blast
  have on: "m_previos_playlist_size r1 = m_previos_playlist_size r" "max_tracks r1 = max_tracks r"
    "rsize r < rsize r1 \<or> rsize r1 = rsize r \<and> m_increase_counter r1 = m_increase_counter r"
    using assms(2) unfolding onward_def by blast+
  show "room (r1, x) = room (r, y)" using on by (simp add: room_def)
  show "patience (r1, x) \<le> patience (r, y)" using on prev by (auto simp: patience_def)
qed

text \<open>When the biggest folder was not exhausted, the walk has come closer to its end.\<close>

lemma walking_next:
  assumes w: "walking ord m c kb big r" and k: "map_of ord k = Some f"
    and fl: "folder_loop r f True = Some (r1, True)" and k1: "next_key ord k = Some k1"
  shows "((r1, k1), (r, k)) \<in> turn_order ord kb big"
proof -
  have ns: "\<not> m_schedule r" using w by (simp add: walking_def)
  have step: "onward r r1"
    "\<forall>g. g \<noteq> f \<longrightarrow> map_of (hfolders r1) g = map_of (hfolders r) g"
    "\<exists>hf0 hf'. map_of (hfolders r) f = Some hf0 \<and> map_of (hfolders r1) f = Some hf' \<and>
       ht hf' = ht hf0 \<and> (index hf0 < length (ht hf0) \<longrightarrow> index hf0 < index hf') \<and>
       (length (ht hf0) \<le> index hf0 \<longrightarrow> index hf0 < max_ht_size r)"
    using folder_loop_onward [OF fl ns] by auto
  then have "onward r r1" by blast
  note core = onward_core [OF w this, of k1 k]
  have key: "smap_ok ord" "map_of ord kb = Some big" using w by (auto simp: walking_def)
  obtain h s where big: "contents r big = Some (h, s)" "max_ht_size r = length h"
    using w by (auto simp: walking_def)
  show ?thesis
  proof (cases "f = big")
    case True
    obtain hf0 hf' where hf: "map_of (hfolders r) big = Some hf0"
      "map_of (hfolders r1) big = Some hf'" "ht hf' = ht hf0"
      "index hf0 < length (ht hf0) \<longrightarrow> index hf0 < index hf'"
      "length (ht hf0) \<le> index hf0 \<longrightarrow> index hf0 < max_ht_size r"
      using step True by auto
    have "max_ht_size r = length (ht hf0)" using big hf(1) by (simp add: contents_def)
    then have "unread big (r1, k1) < unread big (r, k)"
      using hf by (auto simp: unread_def)
    then show ?thesis using core by (auto simp: turn_order_def in_measures)
  next
    case False
    then have "unread big (r1, k1) = unread big (r, k)"
      using step by (simp add: unread_def)
    moreover have "k \<noteq> kb" using False k key(2) by auto
    ultimately show ?thesis
      using core next_key_closer [OF key _ k1, of r1 r]
      by (auto simp: turn_order_def in_measures)
  qed
qed

lemma prepare_idle:
  assumes "\<not> m_schedule r" "\<not> construction_complete r"
  shows "\<exists>e. snd (prepare zhash r) = r\<lparr>m_error := e\<rparr>"
proof -
  have same: "r = r\<lparr>m_error := m_error r\<rparr>" by simp
  show ?thesis
  proof (cases "m_error r = 0 \<and> php_array r = []")
    case True
    then have "snd (prepare zhash r) = r\<lparr>m_error := INPUT_ARRAY_ERROR\<rparr>"
      by (simp add: prepare_def array_size_def)
    then show ?thesis by blast
  next
    case False
    then have "snd (prepare zhash r) = r"
      using assms by (auto simp: prepare_def array_size_def Let_def)
    then show ?thesis using same by metis
  qed
qed

text \<open>When it was, the playlist has grown or the counter goes up.\<close>

lemma walking_again:
  assumes w: "walking ord m c kb big r" and inc: "playlist_size_increase r = (True, r2)"
  shows "walking ord m c kb big (snd (prepare zhash r2)) \<and>
    (room (snd (prepare zhash r2), x) < room (r, y) \<or>
     room (snd (prepare zhash r2), x) = room (r, y) \<and>
     patience (snd (prepare zhash r2), x) < patience (r, y))"
proof -
  have base: "\<not> m_schedule r" "\<not> construction_complete r" "rsize r < m" "max_tracks r = m"
    "m_previos_playlist_size r \<le> rsize r"
    using w by (auto simp: walking_def)
  obtain p q where r2: "r2 = r\<lparr>m_previos_playlist_size := p, m_increase_counter := q\<rparr>"
    and pq: "(rsize r > m_previos_playlist_size r \<and> p = rsize r) \<or>
      (rsize r = m_previos_playlist_size r \<and> p = rsize r \<and> q = m_increase_counter r + 1 \<and>
       q \<le> MAX_INCREASE_COUNTER)"
  proof (cases "rsize r > m_previos_playlist_size r")
    case True
    with inc show thesis by (intro that [where p = "rsize r" and q = 0]) (auto simp: playlist_size_increase_def)
  next
    case False
    with inc base(5) show thesis
      by (intro that [where p = "m_previos_playlist_size r" and q = "m_increase_counter r + 1"])
        (auto simp: playlist_size_increase_def Let_def split: if_splits)
  qed
  obtain e where e: "snd (prepare zhash r2) = r2\<lparr>m_error := e\<rparr>"
    using prepare_idle [of r2 zhash] base(1,2) that by (auto simp: r2)
  have r3: "snd (prepare zhash r2) =
      r\<lparr>m_previos_playlist_size := p, m_increase_counter := q, m_error := e\<rparr>"
    unfolding e by (simp add: r2)
  have same: "contents (r\<lparr>m_previos_playlist_size := p, m_increase_counter := q, m_error := e\<rparr>)
      = contents r" by (simp add: contents_def fun_eq_iff)
  have "walking ord m c kb big (snd (prepare zhash r2))"
    using w pq same unfolding walking_def r3 by (auto simp: rsize_def)
  moreover have "m_previos_playlist_size r < rsize r \<Longrightarrow>
      room (snd (prepare zhash r2), x) < room (r, y)"
    unfolding r3 using pq base by (auto simp: room_def)
  moreover have "rsize r = m_previos_playlist_size r \<Longrightarrow>
      room (snd (prepare zhash r2), x) = room (r, y) \<and>
      patience (snd (prepare zhash r2), x) < patience (r, y)"
    unfolding r3 using pq by (auto simp: room_def patience_def rsize_def)
  ultimately show ?thesis using pq by blast
qed

text \<open>
  A turn in that situation ends the loop or leads to one of lower rank in the same situation.
\<close>

lemma walking_turn:
  assumes w: "walking ord m c kb big r" and k: "map_of ord k = Some f" and m: "0 < m"
  obtains r' ito' where "order_step zhash r (Some k) = Some (r', ito')"
    "\<And>k'. ito' = Some k' \<Longrightarrow> walking ord m c kb big r' \<and> map_of ord k' \<noteq> None \<and>
       ((r', k'), (r, k)) \<in> turn_order ord kb big"
proof -
  have ord: "folders_order r = ord" "\<not> m_schedule r" "\<not> set_start_folder r" "contents r = c"
    "max_tracks r = m" "readable c" "c f \<noteq> None" "map_of ord kb = Some big" "smap_ok ord"
    "rsize r < m" "m_previos_playlist_size r \<le> rsize r" "\<not> construction_complete r"
    using w k by (auto simp: walking_def)
  obtain r1 tn where fl: "folder_loop r f True = Some (r1, tn)"
    using folder_loop_defined [of r f True] ord by auto
  note step = folder_loop_onward [OF fl ord(2)]
  then have on: "onward r r1" by blast
  obtain k1 where k1: "next_key ord k = Some k1" "map_of ord k1 \<noteq> None"
    using next_key_some [OF ord(8)] by blast
  have w1: "walking ord m c kb big r1" if "\<not> playlist_construction_completed r1"
    using w on that m by (auto simp: walking_def onward_def playlist_construction_completed_def)
  note core = onward_core [OF w on]
  show thesis
  proof (cases "playlist_construction_completed r1")
    case True
    then have "order_step zhash r (Some k) = Some (r1, None)"
      using ord k fl by (simp add: order_step_def)
    then show thesis by (rule that) simp
  next
    case False
    note w1 = w1 [OF False]
    show thesis
    proof (cases tn)
      case True
      have "order_step zhash r (Some k) = Some (r1, Some k1)"
        using ord k fl False True k1(1) on
        by (auto simp: order_step_def Let_def next_key_def onward_def split: option.splits)
      moreover have "((r1, k1), (r, k)) \<in> turn_order ord kb big"
        using walking_next [OF w k _ k1(1)] fl True by simp
      ultimately show thesis using that w1 k1(2) by blast
    next
      case False': False
      show thesis
      proof (cases "m_special_conditions r1")
        case False'': False
        have "order_step zhash r (Some k) = Some (r1, None)"
          using ord k fl False False' False'' by (simp add: order_step_def Let_def)
        then show thesis by (rule that) simp
      next
        case True
        obtain inc r2 where inc: "playlist_size_increase r1 = (inc, r2)" by fastforce
        define r3 where "r3 = snd (prepare zhash r2)"
        have st: "order_step zhash r (Some k) =
            (if inc then Some (r3, map_option fst (smap_begin (folders_order r3))) else Some (r2, None))"
          using ord k fl False False' True inc by (simp add: order_step_def Let_def r3_def)
        show thesis
        proof (cases inc)
          case False
          show thesis by (rule that [OF st [unfolded if_not_P [OF False]]]) simp
        next
          case True
          from inc True have again: "playlist_size_increase r1 = (True, r2)" by simp
          have o3: "folders_order r3 = ord"
            using walking_again [OF w1 again, of zhash] by (auto simp: r3_def walking_def)
          obtain k3 where k3: "map_option fst (smap_begin ord) = Some k3" "map_of ord k3 \<noteq> None"
            using ord(8) by (cases ord) auto
          have "walking ord m c kb big r3" "((r3, k3), (r, k)) \<in> turn_order ord kb big"
            using walking_again [OF w1 again, of zhash k3 k] core [of k k]
            by (auto simp: r3_def turn_order_def in_measures)
          then show thesis using that st True o3 k3 by auto
        qed
      qed
    qed
  qed
qed

section \<open>The whole walk\<close>

lemma order_turns_end:
  assumes "walking ord m c kb big r" "0 < m" "map_of ord k \<noteq> None"
  shows "\<exists>n r'. \<forall>j. order_turns zhash (n + j) r (Some k) = Returned r'"
proof -
  have "wf (turn_order ord kb big)" by (simp add: turn_order_def)
  then have "walking ord m c kb big (fst x) \<longrightarrow> map_of ord (snd x) \<noteq> None \<longrightarrow>
      (\<exists>n r'. \<forall>j. order_turns zhash (n + j) (fst x) (Some (snd x)) = Returned r')" for x
  proof (induction x rule: wf_induct_rule)
    case (less x)
    obtain r k where x: "x = (r, k)" by fastforce
    show ?case
    proof (intro impI)
      assume "walking ord m c kb big (fst x)" "map_of ord (snd x) \<noteq> None"
      then obtain f where w: "walking ord m c kb big r" "map_of ord k = Some f"
        using x by auto
      obtain r1 ito where st: "order_step zhash r (Some k) = Some (r1, ito)"
        "\<And>k'. ito = Some k' \<Longrightarrow> walking ord m c kb big r1 \<and> map_of ord k' \<noteq> None \<and>
           ((r1, k'), (r, k)) \<in> turn_order ord kb big"
        using walking_turn [OF w assms(2)] by metis
      have "\<exists>n r'. \<forall>j. order_turns zhash (n + j) r (Some k) = Returned r'"
      proof (cases ito)
        case None
        then have "\<forall>j. order_turns zhash (1 + j) r (Some k) = Returned r1" using st(1) by simp
        then show ?thesis by blast
      next
        case (Some k')
        then obtain n r' where "\<forall>j. order_turns zhash (n + j) r1 (Some k') = Returned r'"
          using less [of "(r1, k')"] st(2) [OF Some] x by auto
        then have "\<forall>j. order_turns zhash (Suc n + j) r (Some k) = Returned r'"
          using st(1) Some by simp
        then show ?thesis by blast
      qed
      then show "\<exists>n r'. \<forall>j. order_turns zhash (n + j) (fst x) (Some (snd x)) = Returned r'"
        by (simp add: x)
    qed
  qed
  from this [of "(r, k)"] assms show ?thesis by simp
qed

section \<open>The order the constructor reads\<close>

definition big_in_order :: "rotator \<Rightarrow> bool" where
  "big_in_order r \<longleftrightarrow>
     smap_ok (folders_order r) \<and>
     (\<forall>k f. map_of (folders_order r) k = Some f \<longrightarrow> map_of (hfolders r) f \<noteq> None) \<and>
     (folders_order r = [] \<and> max_ht_size r = 0 \<or>
      (\<exists>k f hf. map_of (folders_order r) k = Some f \<and> map_of (hfolders r) f = Some hf \<and>
         max_ht_size r = length (ht hf)))"

lemma big_in_order_put:
  assumes "big_in_order r" "map_of (hfolders r) f = Some hf" "map_of (folders_order r) k = None"
  shows "big_in_order (increase_max_ht_size
           (r\<lparr>folders_order := smap_put k f (folders_order r)\<rparr>) (length (ht hf)))"
proof (cases "max_ht_size r < length (ht hf) \<or> folders_order r = []")
  case True
  then show ?thesis using assms
    by (auto simp: big_in_order_def increase_max_ht_size_def map_of_smap_put smap_put_ok
        intro!: exI [of _ k])
next
  case False
  then obtain k0 f0 hf0 where "map_of (folders_order r) k0 = Some f0"
    "map_of (hfolders r) f0 = Some hf0" "max_ht_size r = length (ht hf0)"
    using assms(1) by (auto simp: big_in_order_def)
  moreover from this assms(3) have "k0 \<noteq> k" by auto
  ultimately show ?thesis using False assms
    by (auto simp: big_in_order_def increase_max_ht_size_def map_of_smap_put smap_put_ok
        intro!: exI [of _ k0])
qed

lemma increase_fields [simp]:
  "hfolders (increase_max_ht_size r v) = hfolders r"
  "folders_order (increase_max_ht_size r v) = folders_order r"
  by (simp_all add: increase_max_ht_size_def)

lemma default_order_big:
  "big_in_order r \<Longrightarrow> \<forall>(f, hf) \<in> set fs. map_of (hfolders r) f = Some hf \<Longrightarrow>
     \<forall>k. map_of (folders_order r) k \<noteq> None \<longrightarrow> k < i \<Longrightarrow> big_in_order (default_order fs i r)"
proof (induction fs i r rule: default_order.induct)
  case (2 f hf fs i r)
  have "map_of (folders_order r) i = None"
    using 2(4) by (cases "map_of (folders_order r) i") auto
  then have "big_in_order (increase_max_ht_size
      (r\<lparr>folders_order := smap_put i f (folders_order r)\<rparr>) (length (ht hf)))"
    using 2(2,3) by (intro big_in_order_put) auto
  moreover have "\<forall>k. map_of (smap_put i f (folders_order r)) k \<noteq> None \<longrightarrow> k < i + 1"
    using 2(4) by (auto simp: map_of_smap_put less_imp_le)
  ultimately show ?case using 2(1,3) by simp
qed simp

text \<open>The numbers of the entries of \<open>order\<close>, as the source stores them.\<close>

definition order_number :: "(string \<Rightarrow> nat) \<Rightarrow> zkey \<times> zval \<Rightarrow> int" where
  "order_number zhash e = c_int (int (bucket_index zhash (fst e)))"

lemma order_loop_big:
  "big_in_order r \<Longrightarrow> distinct (map (order_number zhash) es) \<Longrightarrow>
     \<forall>e \<in> set es. map_of (folders_order r) (order_number zhash e) = None \<Longrightarrow>
     big_in_order (order_loop zhash es r)"
proof (induction zhash es r rule: order_loop.induct)
  case (2 zhash k v es r)
  let ?n = "order_number zhash (k, v)"
  show ?case
  proof (cases "\<exists>s hf. v = ZString s \<and> map_of (hfolders r) s = Some hf")
    case True
    then obtain s hf where s: "v = ZString s" "map_of (hfolders r) s = Some hf" by blast
    let ?r = "increase_max_ht_size (r\<lparr>folders_order := smap_put ?n s (folders_order r)\<rparr>)
        (length (ht hf))"
    have "big_in_order ?r" using 2(2,4) s by (intro big_in_order_put) auto
    moreover have "\<forall>e \<in> set es. map_of (folders_order ?r) (order_number zhash e) = None"
      using 2(3,4) by (auto simp: map_of_smap_put image_iff)
    ultimately show ?thesis using 2(1,3) s by (simp add: order_number_def)
  next
    case False
    then have "order_loop zhash ((k, v) # es) r = order_loop zhash es r"
      by (auto split: zval.splits option.splits)
    moreover have "(case v of ZString s \<Rightarrow> (case map_of (hfolders r) s of
        Some hf \<Rightarrow> increase_max_ht_size (r\<lparr>folders_order :=
            smap_put (c_int (int (bucket_index zhash k))) s (folders_order r)\<rparr>) (length (ht hf))
      | None \<Rightarrow> r) | _ \<Rightarrow> r) = r"
      using False by (auto split: zval.splits option.splits)
    ultimately show ?thesis using 2 by simp
  qed
qed simp

definition order_numbers_differ :: "(string \<Rightarrow> nat) \<Rightarrow> hash_table \<Rightarrow> bool" where
  "order_numbers_differ zhash arr \<longleftrightarrow>
     (case get_node_ptr (Some arr) ''order'' of None \<Rightarrow> True
      | Some t \<Rightarrow> distinct (map (order_number zhash) t))"

lemma search_order_big:
  assumes "smap_ok (hfolders r)" "order_numbers_differ zhash arr"
  shows "big_in_order (snd (search_order zhash r arr))"
proof -
  let ?r0 = "r\<lparr>folders_order := [], max_ht_size := 0\<rparr>"
  have b: "big_in_order ?r0" by (simp add: big_in_order_def smap_ok_def)
  have "\<forall>(f, hf) \<in> set (hfolders r). map_of (hfolders r) f = Some hf"
    using smap_ok_distinct [OF assms(1)] by (auto intro: map_of_is_SomeI)
  then have "big_in_order (default_order (hfolders r) 0 ?r0)"
    using b by (intro default_order_big) auto
  moreover have "get_node_ptr (Some arr) ''order'' = Some t \<Longrightarrow>
      big_in_order (order_loop zhash t ?r0)" for t
    using b assms(2) by (intro order_loop_big) (auto simp: order_numbers_differ_def)
  ultimately show ?thesis
    by (auto simp: search_order_def Let_def split: option.splits)
qed

lemma search_tracks_ok:
  "search_tracks r v f = Some r' \<Longrightarrow> smap_ok (hfolders r) \<Longrightarrow> smap_ok (hfolders r')"
  by (auto simp: search_tracks_def Let_def smap_put_ok split: zval.splits option.splits if_splits)

lemma search_folders_loop_ok:
  "search_folders_loop es r = Some r' \<Longrightarrow> smap_ok (hfolders r) \<Longrightarrow> smap_ok (hfolders r')"
proof (induction es r rule: search_folders_loop.induct)
  case (2 k v es r)
  show ?case
  proof (cases k)
    case (KIdx i) then show ?thesis using 2 by simp
  next
    case (KStr f)
    then obtain r1 where t: "search_tracks r v f = Some r1"
      using 2(3) by (auto simp: Option.bind_eq_Some_conv)
    define r2 where "r2 = (case (map_of (hfolders r1) f, v) of
                      (Some _, ZArray t) \<Rightarrow>
                        r1\<lparr>mRules := smap_put f (search_rules (sRules r1) t False) (mRules r1)\<rparr>
                    | _ \<Rightarrow> r1)"
    have "search_folders_loop es r2 = Some r'" using 2(3) KStr t by (simp add: r2_def Let_def)
    moreover have "hfolders r2 = hfolders r1"
      by (auto simp: r2_def split: option.splits zval.splits)
    ultimately show ?thesis
      using 2(2) [OF KStr t refl] search_tracks_ok [OF t 2(4)] by (simp add: r2_def)
  qed
qed simp

lemma search_schedule_hfolders: "hfolders (snd (search_schedule w r arr)) = hfolders r"
proof -
  have "hfolders (schedule_loop es r) = hfolders r" for es r
    by (induction es r rule: schedule_loop.induct)
      (auto simp: Let_def split: zkey.splits zval.splits)
  then show ?thesis
    by (auto simp: search_schedule_def Let_def split: option.splits prod.splits)
qed

lemma on_init_order:
  assumes init: "on_init zhash w arr mt gd = Some r"
    and "\<not> m_schedule r" "m_order r" "order_numbers_differ zhash arr"
  shows "big_in_order r \<and> folders_order r \<noteq> []"
proof -
  obtain tm where tm: "TTimer_new gd = Some tm"
    using init by (auto simp: on_init_def Option.bind_eq_Some_conv)
  define r1 where "r1 = (rotator_blank arr mt gd tm)
    \<lparr>sRules := search_rules (sRules (rotator_blank arr mt gd tm)) arr True\<rparr>"
  have arr: "arr \<noteq> []"
    using init tm assms(3) by (auto simp: on_init_def array_size_def rotator_blank_def)
  then obtain found r2 where f: "search_folders r1 arr = Some (found, r2)"
    using init tm
    by (auto simp: on_init_def array_size_def r1_def Let_def Option.bind_eq_Some_conv)
  have found
  proof (rule ccontr)
    assume n: "\<not> found"
    then have "r2 = r1" using f by (auto simp: search_folders_def split: option.splits if_splits)
    then have "\<not> m_order r" using init tm arr f n
      by (auto simp: on_init_def array_size_def r1_def rotator_blank_def Let_def)
    then show False using assms(3) by simp
  qed
  have "smap_ok (hfolders r1)" by (simp add: r1_def rotator_blank_def smap_ok_def)
  then have ok2: "smap_ok (hfolders r2)"
    using f search_folders_loop_ok [of _ r1 r2]
    by (auto simp: search_folders_def split: option.splits if_splits)
  obtain sch r3 where s: "search_schedule w r2 arr = (sch, r3)" by fastforce
  obtain ord r4 where o: "search_order zhash (r3\<lparr>m_schedule := sch\<rparr>) arr = (ord, r4)" by fastforce
  define r5 where "r5 = (if sch then r3\<lparr>m_schedule := sch\<rparr> else r4\<lparr>m_order := ord\<rparr>)"
  obtain r6 where h: "search_history zhash r5 arr = Some r6"
    and r: "r = r6\<lparr>construction_complete := False,
                m_special_conditions := set_special_conditions r6\<rparr>"
    using init tm arr f \<open>found\<close> s o
    by (cases sch) (auto simp: on_init_def array_size_def r1_def r5_def Let_def
        Option.bind_eq_Some_conv)
  obtain H where r6: "r6 = r5\<lparr>mHistory := H\<rparr>"
    using h by (auto simp: search_history_def split: option.splits intro: that [of "mHistory r5"])
  have "\<not> sch" using assms(2) by (auto simp: r r6 r5_def)
  then have rr: "m_order r = ord" "folders_order r = folders_order r4"
    "hfolders r = hfolders r4" "max_ht_size r = max_ht_size r4"
    by (simp_all add: r r6 r5_def)
  have "hfolders r3 = hfolders r2" using search_schedule_hfolders [of w r2 arr] s by simp
  then have "big_in_order r4"
    using search_order_big [of "r3\<lparr>m_schedule := sch\<rparr>" zhash arr] ok2 assms(4) o by simp
  moreover have "folders_order r4 \<noteq> []"
    using o rr(1) assms(3) by (auto simp: search_order_def Let_def)
  ultimately show ?thesis by (simp add: rr big_in_order_def)
qed

section \<open>Property\<close>

lemma demo_ends_input:
  "case demo_init 3 of Some r \<Rightarrow> \<not> m_schedule r \<and> list_all (\<lambda>(f, hf). list_all (\<lambda>(k, v).
       case v of ZArray t \<Rightarrow> (case track_duration_of t of None \<Rightarrow> True
         | Some d \<Rightarrow> get_seconds 0 (Some d) \<noteq> None) | _ \<Rightarrow> True) (ht hf)) (hfolders r)
   | None \<Rightarrow> False"
  by code_simp



end
