(* ===== verification/Frames.thy ===== *)
theory Frames
  imports Prelude
begin

text \<open>
  What the two audio readers share: the \<open>FILE *\<close> they read from (contents, position, end
  flag) with the calls of \<open>stdio\<close> they make, and the contract \<open>frame_source\<close> between a
  reader and the playing loop, which calls \<open>GetFrames\<close> until it gives nothing.
\<close>

unbundle bit_operations_syntax

section \<open>Files\<close>

record cfile =
  content :: "byte list"
  pos :: nat
  eof :: bool

definition opened :: "byte list \<Rightarrow> cfile" where
  "opened bs = \<lparr>content = bs, pos = 0, eof = False\<rparr>"

text \<open>
  \<open>fread(buf, 1, n, fs)\<close>: the bytes read; a short read sets the end flag. A count that
  is negative as \<open>int\<close> is a huge \<open>size_t\<close>: everything up to the end is read.
\<close>

definition fread :: "int \<Rightarrow> cfile \<Rightarrow> byte list \<times> cfile" where
  "fread n f =
     (let av = drop (pos f) (content f);
          got = (if n < 0 \<or> int (length av) \<le> n then av else take (nat n) av)
      in (got, f\<lparr>pos := pos f + length got,
                 eof := (eof f \<or> n < 0 \<or> int (length got) < n)\<rparr>))"

text \<open>\<open>fseek\<close>: a position before the start is refused and changes nothing.\<close>

definition seek_to :: "int \<Rightarrow> cfile \<Rightarrow> cfile" where
  "seek_to p f = (if p < 0 then f else f\<lparr>pos := nat p, eof := False\<rparr>)"

definition seek_cur :: "int \<Rightarrow> cfile \<Rightarrow> cfile" where
  "seek_cur d f = seek_to (int (pos f) + d) f"

definition seek_end :: "int \<Rightarrow> cfile \<Rightarrow> cfile" where
  "seek_end d f = seek_to (int (length (content f)) + d) f"

definition rest :: "cfile \<Rightarrow> byte list" where
  "rest f = drop (pos f) (content f)"

lemma fread_exact:
  "rest f = a @ b \<Longrightarrow>
     \<exists>f'. fread (int (length a)) f = (a, f') \<and> rest f' = b \<and> content f' = content f \<and>
          pos f' = pos f + length a"
proof -
  assume r: "rest f = a @ b"
  have "drop (pos f + length a) (content f) = b"
    by (metis add.commute append_eq_conv_conj drop_drop r rest_def)
  then show ?thesis using r by (auto simp: fread_def rest_def Let_def)
qed

lemma seek_cur_exact:
  "rest f = a @ b \<Longrightarrow> rest (seek_cur (int (length a)) f) = b \<and>
     content (seek_cur (int (length a)) f) = content f \<and> \<not> eof (seek_cur (int (length a)) f)"
proof -
  assume r: "rest f = a @ b"
  have "nat (int (pos f) + int (length a)) = pos f + length a" by simp
  moreover have "drop (pos f + length a) (content f) = b"
    by (metis add.commute append_eq_conv_conj drop_drop r rest_def)
  ultimately show ?thesis by (simp add: seek_cur_def seek_to_def rest_def)
qed

lemma fread_full_eof:
  "\<not> eof f \<Longrightarrow> fread n f = (d, f') \<Longrightarrow> 0 \<le> n \<Longrightarrow> int (length d) = n \<Longrightarrow> \<not> eof f'"
  by (auto simp: fread_def Let_def)

lemma fread_content: "fread n f = (d, f') \<Longrightarrow> content f' = content f"
  by (auto simp: fread_def Let_def)

lemma fread_length: "0 \<le> n \<Longrightarrow> fread n f = (d, f') \<Longrightarrow> length d \<le> nat n"
  by (auto simp: fread_def Let_def)

lemma fread_empty: "rest f = [] \<Longrightarrow> fread n f = (d, f') \<Longrightarrow> d = []"
  by (auto simp: fread_def rest_def Let_def split: if_splits)

text \<open>A byte as the source's \<open>char\<close>, which has a sign.\<close>

abbreviation schar :: "byte \<Rightarrow> int" where "schar \<equiv> sint"

text \<open>The bytes as characters, as they go over a connection.\<close>

definition chars :: "byte list \<Rightarrow> string" where
  "chars bs = map (\<lambda>b. char_of (unat b)) bs"

section \<open>Whole frames\<close>

text \<open>
  A frame begins with a header of \<open>hs\<close> bytes that gives its length (0 for no header):
  the frames a text of bytes begins with, one after the other.
\<close>

function cut_frames :: "nat \<Rightarrow> (byte list \<Rightarrow> int) \<Rightarrow> byte list \<Rightarrow> byte list list" where
  "cut_frames hs len bs =
     (let n = nat (len (take hs bs)) in
      if length bs < hs \<or> n = 0 \<or> length bs < n then []
      else take n bs # cut_frames hs len (drop n bs))"
  by pat_completeness auto
termination by (relation "measure (\<lambda>(hs, len, bs). length bs)") (auto simp: Let_def)

declare cut_frames.simps [simp del]

definition framed :: "nat \<Rightarrow> (byte list \<Rightarrow> int) \<Rightarrow> byte list \<Rightarrow> bool" where
  "framed hs len bs \<longleftrightarrow> concat (cut_frames hs len bs) = bs"

definition is_frame :: "nat \<Rightarrow> (byte list \<Rightarrow> int) \<Rightarrow> byte list \<Rightarrow> bool" where
  "is_frame hs len fr \<longleftrightarrow> hs \<le> length fr \<and> len (take hs fr) = int (length fr)"

text \<open>
  Reading \<open>n\<close> frames: how many were read, their bytes, the bytes of a frame cut short, the
  file.
\<close>

fun read_frames ::
  "nat \<Rightarrow> (byte list \<Rightarrow> int) \<Rightarrow> nat \<Rightarrow> cfile \<Rightarrow> nat \<times> byte list \<times> byte list \<times> cfile"
where
  "read_frames hs len 0 f = (0, [], [], f)"
| "read_frames hs len (Suc n) f =
     (let (h, f1) = fread (int hs) f in
      if length h < hs \<or> len h = 0 then (0, [], [], f1)
      else
        let (body, f2) = fread (len h - int hs) f1 in
        if int (length body) < len h - int hs then (0, [], h @ body, f2)
        else let (k, sent, part, f3) = read_frames hs len n f2
             in (k + 1, h @ body @ sent, part, f3))"

locale frame_format =
  fixes hs :: nat and len :: "byte list \<Rightarrow> int"
  assumes header: "0 < hs"
    and bounds: "len h = 0 \<or> int hs \<le> len h \<and> len h \<le> 5000"
begin

lemma cut_Cons:
  assumes "cut_frames hs len bs = fr # frs"
  shows "bs = fr @ drop (length fr) bs" "cut_frames hs len (drop (length fr) bs) = frs"
    "int (length fr) = len (take hs bs)" "hs \<le> length fr" "length fr \<le> 5000"
    "length fr \<le> length bs" "0 < length fr"
proof -
  let ?n = "nat (len (take hs bs))"
  have *: "hs \<le> length bs" "?n \<noteq> 0" "?n \<le> length bs" "fr = take ?n bs"
    "frs = cut_frames hs len (drop ?n bs)"
    using assms by (subst (asm) cut_frames.simps, auto simp: Let_def split: if_splits)+
  then have n: "length fr = ?n" by simp
  show "bs = fr @ drop (length fr) bs" using * n by simp
  show "cut_frames hs len (drop (length fr) bs) = frs" using * n by simp
  show "int (length fr) = len (take hs bs)" "hs \<le> length fr" "length fr \<le> 5000"
    using n *(2) bounds [of "take hs bs"] by auto
  show "length fr \<le> length bs" "0 < length fr" using * n by simp_all
qed

lemma cut_Nil:
  "cut_frames hs len bs = [] \<longleftrightarrow> length bs < hs \<or> len (take hs bs) = 0 \<or>
     int (length bs) < len (take hs bs)"
  using bounds [of "take hs bs"] by (subst cut_frames.simps) (auto simp: Let_def)

lemma cut_nonempty: "[] \<notin> set (cut_frames hs len bs)"
proof (induction bs rule: length_induct)
  case (1 bs)
  show ?case
  proof (cases "cut_frames hs len bs")
    case (Cons fr frs)
    note fr = cut_Cons [OF Cons]
    have "length (drop (length fr) bs) < length bs"
      unfolding length_drop using fr(6,7) by linarith
    then show ?thesis using 1 fr(2,7) Cons by auto
  qed simp
qed

lemma cut_are_frames:
  "fr \<in> set (cut_frames hs len bs) \<Longrightarrow> is_frame hs len fr \<and> length fr \<le> 5000"
proof (induction bs rule: length_induct)
  case (1 bs)
  from "1.prems" obtain a as where c: "cut_frames hs len bs = a # as" by (cases "cut_frames hs len bs") auto
  note a = cut_Cons [OF c]
  have "take hs bs = take hs a" using a(4) by (subst a(1)) simp
  then have "is_frame hs len a" using a(3,4) by (simp add: is_frame_def)
  moreover have l: "length (drop (length a) bs) < length bs"
    unfolding length_drop using a(6,7) by linarith
  have "is_frame hs len fr \<and> length fr \<le> 5000" if "fr \<in> set as"
    using "1.IH" [rule_format, OF l] that a(2) by simp
  ultimately show ?case using "1.prems" c a(5) by auto
qed

lemma cut_concat: "\<forall>fr \<in> set frs. is_frame hs len fr \<Longrightarrow> cut_frames hs len (concat frs) = frs"
proof (induction frs)
  case Nil show ?case using header by (subst cut_frames.simps) simp
next
  case (Cons fr frs)
  have fr: "hs \<le> length fr" "len (take hs fr) = int (length fr)"
    using Cons.prems by (simp_all add: is_frame_def)
  then have "fr \<noteq> []" using header by auto
  moreover have "take hs (concat (fr # frs)) = take hs fr" using fr(1) by simp
  ultimately show ?case using fr Cons by (subst cut_frames.simps) (auto simp: Let_def)
qed

lemma framed_concat: "\<forall>fr \<in> set frs. is_frame hs len fr \<Longrightarrow> framed hs len (concat frs)"
  by (simp add: framed_def cut_concat)

lemma framed_Cons:
  "cut_frames hs len bs = fr # frs \<Longrightarrow> framed hs len bs \<Longrightarrow> framed hs len (drop (length fr) bs)"
proof -
  assume a: "cut_frames hs len bs = fr # frs" "framed hs len bs"
  then have "fr @ concat frs = fr @ drop (length fr) bs"
    using cut_Cons(1) [OF a(1)] by (simp add: framed_def)
  then show ?thesis using cut_Cons(2) [OF a(1)] by (simp add: framed_def)
qed

lemma framed_Nil: "cut_frames hs len bs = [] \<Longrightarrow> framed hs len bs \<Longrightarrow> bs = []"
  by (simp add: framed_def)

text \<open>One turn that reads a whole frame.\<close>

lemma read_frame:
  assumes s: "cut_frames hs len (rest f) = fr # frs"
  obtains f2 where "rest f2 = drop (length fr) (rest f)" "content f2 = content f"
    "read_frames hs len (Suc n) f =
       (let (k, sent, part, f3) = read_frames hs len n f2 in (k + 1, fr @ sent, part, f3))"
proof -
  note fr = cut_Cons [OF s]
  let ?b = "drop hs fr"
  have h: "take hs (rest f) = take hs fr" using fr(4)
    by (subst fr(1)) simp
  have "rest f = take hs fr @ (?b @ drop (length fr) (rest f))"
    using fr(1) by (metis append.assoc append_take_drop_id)
  from fread_exact [OF this] obtain f1 where
    f1: "fread (int hs) f = (take hs fr, f1)" "rest f1 = ?b @ drop (length fr) (rest f)"
      "content f1 = content f"
    using fr(4) by (auto simp: min_def split: if_splits)
  from fread_exact [OF f1(2)] obtain f2 where
    f2: "fread (int (length ?b)) f1 = (?b, f2)" "rest f2 = drop (length fr) (rest f)"
      "content f2 = content f1"
    by blast
  have n: "int (length fr) - int hs = int (length ?b)" using fr(4) by (simp add: of_nat_diff)
  have l: "len (take hs fr) = int (length fr)" using fr(3) unfolding h by (rule sym)
  have body: "fread (int (length fr) - int hs) f1 = (?b, f2)" unfolding n by (rule f2(1))
  have c: "\<not> int (length ?b) < int (length fr) - int hs" unfolding n by simp
  obtain k sent part g where rf: "read_frames hs len n f2 = (k, sent, part, g)"
    by (metis prod_cases4)
  have all: "take hs fr @ drop hs fr @ sent = fr @ sent" by (simp flip: append_assoc)
  show thesis
  proof (rule that [OF f2(2)])
    show "content f2 = content f" using f1 f2 by simp
    show "read_frames hs len (Suc n) f =
       (let (k, sent, part, f3) = read_frames hs len n f2 in (k + 1, fr @ sent, part, f3))"
      using f1(1) body l fr(4,7) c all rf by (simp add: Let_def)
  qed
qed

text \<open>One turn that does not.\<close>

lemma read_stops:
  assumes s: "cut_frames hs len (rest f) = []"
  obtains part f' where "read_frames hs len (Suc n) f = (0, [], part, f')" "content f' = content f"
    "length part \<le> 5000" "rest f = [] \<longrightarrow> part = [] \<and> rest f' = []"
proof -
  obtain h f1 where h: "fread (int hs) f = (h, f1)" by fastforce
  then have h7: "h = take hs (rest f)" "content f1 = content f" "pos f1 = pos f + length h"
    by (auto simp: fread_def rest_def Let_def)
  show thesis
  proof (cases "length h < hs \<or> len h = 0")
    case True
    then have "read_frames hs len (Suc n) f = (0, [], [], f1)"
      using h by (auto simp: Let_def)
    moreover have "rest f1 = []" if "rest f = []"
      using h7 that by (simp add: rest_def)
    ultimately show thesis using that [of "[]" f1] h7(2) by simp
  next
    case False
    obtain b f2 where b: "fread (len h - int hs) f1 = (b, f2)" by fastforce
    then have b7: "length b = min (length (rest f1)) (nat (len h - int hs))"
      "content f2 = content f1"
      using bounds [of h] False by (auto simp: fread_def rest_def Let_def)
    have "int (length (rest f)) < len h" using s False h7(1) by (auto simp: cut_Nil)
    moreover have "length (rest f1) = length (rest f) - hs" "hs \<le> length (rest f)"
      using h7 False by (auto simp: rest_def)
    ultimately have "int (length b) < len h - int hs" using b7(1) by linarith
    moreover have "rest f \<noteq> []" using False h7(1) header by auto
    moreover have "length (h @ b) \<le> 5000"
      using b7(1) bounds [of h] False h7(1) by auto
    ultimately show thesis
      using h b False b7(2) h7(2) that [of "h @ b" f2] by (auto simp: Let_def)
  qed
qed

text \<open>What \<open>n\<close> turns deliver, for any file.\<close>

lemma read_sent:
  "read_frames hs len n f = (k, sent, part, f') \<Longrightarrow>
     sent = concat (take n (cut_frames hs len (rest f))) \<and>
     k = length (take n (cut_frames hs len (rest f))) \<and>
     content f' = content f \<and> length sent + length part \<le> 5000 * n"
proof (induction n arbitrary: f k sent)
  case (Suc n)
  show ?case
  proof (cases "cut_frames hs len (rest f)")
    case Nil
    obtain p' f0 where "read_frames hs len (Suc n) f = (0, [], p', f0)" "content f0 = content f"
      "length p' \<le> 5000"
      by (rule read_stops [OF Nil, of n]) blast
    then show ?thesis using Suc.prems Nil by simp
  next
    case (Cons fr frs)
    note fr = cut_Cons [OF Cons]
    obtain f2 where f2: "rest f2 = drop (length fr) (rest f)" "content f2 = content f"
      "read_frames hs len (Suc n) f =
         (let (k, sent, part, f3) = read_frames hs len n f2 in (k + 1, fr @ sent, part, f3))"
      by (rule read_frame [OF Cons, of n])
    obtain k' sent' where r: "read_frames hs len n f2 = (k', sent', part, f')"
      "k = k' + 1" "sent = fr @ sent'"
      using f2(3) Suc.prems by (auto split: prod.splits)
    from Suc.IH [OF r(1)] show ?thesis using r fr(2,5) f2 Cons by auto
  qed
qed simp

text \<open>A file that is framed to its end stays so, without a frame cut short.\<close>

lemma read_framed:
  "read_frames hs len n f = (k, sent, part, f') \<Longrightarrow> framed hs len (rest f) \<Longrightarrow>
     part = [] \<and> framed hs len (rest f') \<and>
     cut_frames hs len (rest f') = drop n (cut_frames hs len (rest f))"
proof (induction n arbitrary: f k sent)
  case (Suc n)
  show ?case
  proof (cases "cut_frames hs len (rest f)")
    case Nil
    then have "rest f = []" using Suc.prems(2) framed_Nil by blast
    moreover obtain p' f0 where "read_frames hs len (Suc n) f = (0, [], p', f0)"
      "rest f = [] \<longrightarrow> p' = [] \<and> rest f0 = []"
      by (rule read_stops [OF Nil, of n]) blast
    ultimately have "part = []" "rest f' = []" using Suc.prems(1) by auto
    then show ?thesis using Nil \<open>rest f = []\<close> by (simp add: framed_def)
  next
    case (Cons fr frs)
    obtain f2 where f2: "rest f2 = drop (length fr) (rest f)"
      "read_frames hs len (Suc n) f =
         (let (k, sent, part, f3) = read_frames hs len n f2 in (k + 1, fr @ sent, part, f3))"
      by (rule read_frame [OF Cons, of n]) blast
    obtain k' sent' where r: "read_frames hs len n f2 = (k', sent', part, f')"
      using f2(2) Suc.prems by (auto split: prod.splits)
    from Suc.IH [OF r] show ?thesis
      using framed_Cons [OF Cons Suc.prems(2)] cut_Cons(2) [OF Cons] f2(1) Cons by simp
  qed
qed simp

end

section \<open>The contract of a reader\<close>

text \<open>
  What the playing loop sees of a reader: \<open>feeds get B s bs\<close> when calling \<open>get\<close> until it gives
  nothing yields \<open>bs\<close>, in blocks of at most \<open>B\<close> bytes.
\<close>

inductive feeds :: "('s \<Rightarrow> byte list \<times> 's) \<Rightarrow> nat \<Rightarrow> 's \<Rightarrow> byte list \<Rightarrow> bool" for get B where
  feeds_end: "get s = ([], s') \<Longrightarrow> feeds get B s []"
| feeds_block: "get s = (b, s') \<Longrightarrow> b \<noteq> [] \<Longrightarrow> length b \<le> B \<Longrightarrow> feeds get B s' bs \<Longrightarrow>
    feeds get B s (b @ bs)"

lemma concat_length_bound:
  "(\<And>x. x \<in> set xs \<Longrightarrow> length x \<le> m) \<Longrightarrow> length (concat xs) \<le> length xs * m"
  by (induction xs) (auto intro!: add_mono)

text \<open>
  \<open>left s\<close>: the frames of the track not yet handed out; \<open>per s\<close>: how many one call takes.
\<close>

locale frame_source =
  fixes get_frames :: "'s \<Rightarrow> byte list \<times> 's"
    and left :: "'s \<Rightarrow> byte list list"
    and per :: "'s \<Rightarrow> nat"
    and ok :: "'s \<Rightarrow> bool"
  assumes call: "ok s \<Longrightarrow> get_frames s = (b, s') \<Longrightarrow>
      b = concat (take (per s) (left s)) \<and> left s' = drop (per s) (left s) \<and>
      per s' = per s \<and> ok s'"
    and progress: "ok s \<Longrightarrow> 0 < per s"
    and frames: "ok s \<Longrightarrow> [] \<notin> set (left s)"
begin

text \<open>The bytes of \<open>n\<close> calls, and the state after them.\<close>

primrec calls :: "nat \<Rightarrow> 's \<Rightarrow> byte list \<times> 's" where
  "calls 0 s = ([], s)"
| "calls (Suc n) s =
     (let (b, s1) = get_frames s; (bs, s2) = calls n s1 in (b @ bs, s2))"

lemma calls_concat:
  "ok s \<Longrightarrow> calls n s = (b, s') \<Longrightarrow>
     b = concat (take (n * per s) (left s)) \<and> left s' = drop (n * per s) (left s) \<and>
     per s' = per s \<and> ok s'"
proof (induction n arbitrary: s b)
  case (Suc n)
  obtain b1 s1 where 1: "get_frames s = (b1, s1)" by fastforce
  obtain b2 where 2: "calls n s1 = (b2, s')" and b: "b = b1 @ b2"
    using Suc.prems(2) 1 by (auto split: prod.splits)
  from call [OF Suc.prems(1) 1] have *: "b1 = concat (take (per s) (left s))"
    "left s1 = drop (per s) (left s)" "per s1 = per s" "ok s1" by blast+
  from Suc.IH [OF *(4) 2] * b show ?case
    by (simp add: take_add add.commute flip: concat_append)
qed simp

text \<open>The playing loop's end test: a call gives nothing just when no frame is left.\<close>

lemma empty_call: "ok s \<Longrightarrow> get_frames s = (b, s') \<Longrightarrow> b = [] \<longleftrightarrow> left s = []"
  using call [of s b s'] progress [of s] frames [of s]
  by (cases "left s"; cases "per s") auto

text \<open>Enough calls hand out the track whole, in order, and then nothing.\<close>

lemma all_calls:
  assumes "ok s" "length (left s) \<le> n"
  shows "\<exists>s'. calls n s = (concat (left s), s') \<and> left s' = [] \<and> fst (get_frames s') = []"
proof -
  obtain b s' where c: "calls n s = (b, s')" by fastforce
  from calls_concat [OF assms(1) c]
  have *: "b = concat (take (n * per s) (left s))" "left s' = drop (n * per s) (left s)" "ok s'"
    by blast+
  obtain p where "per s = Suc p" using progress [OF assms(1)] by (cases "per s") auto
  then have "length (left s) \<le> n * per s" using assms(2) by simp
  then show ?thesis using c * empty_call [OF *(3)] by (metis drop_all prod.collapse take_all)
qed

text \<open>The same as the playing loop sees it.\<close>

lemma feeds_left:
  assumes "ok s" "\<And>fr. fr \<in> set (left s) \<Longrightarrow> length fr \<le> m" "per s * m \<le> B"
  shows "feeds get_frames B s (concat (left s))"
  using assms
proof (induction "length (left s)" arbitrary: s rule: less_induct)
  case less
  obtain b s' where c: "get_frames s = (b, s')" by fastforce
  from call [OF less.prems(1) c] have s': "b = concat (take (per s) (left s))"
    "left s' = drop (per s) (left s)" "per s' = per s" "ok s'" by blast+
  show ?case
  proof (cases "left s = []")
    case True
    then show ?thesis using c empty_call [OF less.prems(1) c] by (auto intro: feeds_end)
  next
    case False
    have b: "b \<noteq> []" using empty_call [OF less.prems(1) c] False by simp
    have "length b \<le> length (take (per s) (left s)) * m"
      unfolding s'(1) by (rule concat_length_bound) (meson in_set_takeD less.prems(2))
    also have "\<dots> \<le> per s * m" by simp
    finally have l: "length b \<le> B" using less.prems(3) by simp
    have "length (left s') < length (left s)"
      using s'(2) False progress [OF less.prems(1)] by (cases "left s") auto
    from less.hyps [OF this s'(4)] have "feeds get_frames B s' (concat (left s'))"
      using less.prems(2,3) s'(2,3) in_set_dropD by metis
    from feeds_block [of get_frames s, OF c b l this] show ?thesis
      using s'(1,2) by (simp flip: concat_append)
  qed
qed

end

end
