(* ===== verification/Socket.thy ===== *)
theory Socket
  imports Prelude
begin

text \<open>
  The TCP clients: \<open>accordion_V10.X/tclientsocket.cpp\<close> (to the icecast server and the scripts) and
  \<open>logger/tclientsocket.cpp\<close> (to the other log servers and the mail server). What the kernel
  answers is a script: the results of the calls of \<open>send\<close>, \<open>recv\<close> and \<open>connect\<close> one after the
  other. What was put on the wire is part of the result. A function whose script ends before it
  returns gives \<open>None\<close>.
\<close>

section \<open>What the kernel answers\<close>

datatype send_result = Sent nat | Again | Failed
datatype recv_result = Got string | Closed | RecvAgain | RecvFailed
datatype connect_result = Connected | IsConn | Refused

text \<open>
  The interface of the senders: a script, the bytes to send and what is on the wire already give
  a verdict, the wire, and the rest of the script.
\<close>

locale sender =
  fixes send_all :: "send_result list \<Rightarrow> string \<Rightarrow> string \<Rightarrow> (bool \<times> string \<times> send_result list) option"
  assumes sent_all: "send_all cs buf wire = Some (True, wire', cs') \<Longrightarrow> wire' = wire @ buf"
    and sent_part: "send_all cs buf wire = Some (False, wire', cs') \<Longrightarrow>
      \<exists>p. wire' = wire @ p \<and> strict_prefix p buf"
begin

lemma wire_grows: "send_all cs buf wire = Some (ok, wire', cs') \<Longrightarrow> \<exists>p. wire' = wire @ p \<and> prefix p buf"
  using sent_all [of cs buf wire] sent_part [of cs buf wire]
  by (cases ok) (auto simp: strict_prefix_def)

text \<open>Messages sent one after the other arrive in order, up to the first that fails.\<close>

fun send_list ::
  "send_result list \<Rightarrow> string list \<Rightarrow> string \<Rightarrow> (bool \<times> string \<times> send_result list) option" where
  "send_list cs [] wire = Some (True, wire, cs)"
| "send_list cs (b # bs) wire =
     (case send_all cs b wire of
        Some (True, wire', cs') \<Rightarrow> send_list cs' bs wire'
      | r \<Rightarrow> r)"

lemma send_list_prefix:
  "send_list cs bs wire = Some (ok, wire', cs') \<Longrightarrow>
     \<exists>p. wire' = wire @ p \<and> prefix p (concat bs) \<and> (ok \<longrightarrow> p = concat bs)"
proof (induction bs arbitrary: cs wire)
  case (Cons b bs)
  obtain ok1 w1 cs1 where s: "send_all cs b wire = Some (ok1, w1, cs1)"
    using Cons.prems by (auto split: option.splits)
  show ?case
  proof (cases ok1)
    case True
    then have "w1 = wire @ b" using s sent_all by simp
    moreover have "send_list cs1 bs w1 = Some (ok, wire', cs')"
      using Cons.prems s True by simp
    ultimately obtain p where "wire' = wire @ b @ p" "prefix p (concat bs)" "ok \<longrightarrow> p = concat bs"
      using Cons.IH by fastforce
    then show ?thesis by (intro exI [of _ "b @ p"]) simp
  next
    case False
    then have "wire' = w1" "\<not> ok" using Cons.prems s by auto
    moreover obtain p where "w1 = wire @ p" "strict_prefix p b"
      using s False sent_part [of cs b wire w1 cs1] by auto
    ultimately show ?thesis
      by (intro exI [of _ p]) (auto simp: strict_prefix_def intro: prefix_order.trans)
  qed
qed simp

end

section \<open>The sending loop\<close>

text \<open>
  The loop \<open>while (total < length)\<close> of \<open>net_send\<close> and of \<open>bsend(int, char *, int)\<close>; \<open>rest\<close> is
  what lies at \<open>buf + total\<close>.
\<close>

fun send_loop :: "send_result list \<Rightarrow> string \<Rightarrow> string \<Rightarrow> (bool \<times> string \<times> send_result list) option" where
  "send_loop cs [] wire = Some (True, wire, cs)"
| "send_loop [] (b # rest) wire = None"
| "send_loop (c # cs) (b # rest) wire =
     (case c of
        Failed \<Rightarrow> Some (False, wire, cs)
      | Again \<Rightarrow> send_loop cs (b # rest) wire
      | Sent k \<Rightarrow> send_loop cs (drop k (b # rest)) (wire @ take k (b # rest)))"

lemma strict_prefix_append: "strict_prefix p v \<Longrightarrow> strict_prefix (u @ p) (u @ v)"
  by (auto simp: strict_prefix_def)

lemma send_loop_wire:
  "send_loop cs rest wire = Some (ok, wire', cs') \<Longrightarrow>
     \<exists>p. wire' = wire @ p \<and> (if ok then p = rest else strict_prefix p rest)"
proof (induction cs rest wire rule: send_loop.induct)
  case (3 c cs b rest wire)
  note ih = "3.IH" and prems = "3.prems"
  show ?case
  proof (cases c)
    case (Sent k)
    have "send_loop cs (drop k (b # rest)) (wire @ take k (b # rest)) = Some (ok, wire', cs')"
      using prems Sent by simp
    with Sent ih obtain p where p: "wire' = (wire @ take k (b # rest)) @ p"
      "if ok then p = drop k (b # rest) else strict_prefix p (drop k (b # rest))"
      by blast
    have "strict_prefix (take k (b # rest) @ p) (b # rest)" if "\<not> ok"
      using p(2) that strict_prefix_append [of p "drop k (b # rest)" "take k (b # rest)"]
      by (metis append_take_drop_id)
    then show ?thesis using p
      by (intro exI [of _ "take k (b # rest) @ p"]) (auto simp del: take_Suc_Cons drop_Suc_Cons)
  next
    case Again then show ?thesis using prems ih by simp
  next
    case Failed then show ?thesis using prems by (auto simp: strict_prefix_def)
  qed
qed auto

interpretation net: sender send_loop
proof unfold_locales
  show "send_loop cs buf wire = Some (True, wire', cs') \<Longrightarrow> wire' = wire @ buf"
    for cs buf wire wire' cs'
    using send_loop_wire [of cs buf wire True wire' cs'] by auto
  show "send_loop cs buf wire = Some (False, wire', cs') \<Longrightarrow>
      \<exists>p. wire' = wire @ p \<and> strict_prefix p buf" for cs buf wire wire' cs'
    using send_loop_wire [of cs buf wire False wire' cs'] by auto
qed

text \<open>How many bytes a script lets through.\<close>

fun accepts :: "send_result list \<Rightarrow> nat" where
  "accepts [] = 0"
| "accepts (Sent k # cs) = k + accepts cs"
| "accepts (_ # cs) = accepts cs"

lemma send_loop_returns:
  "length rest \<le> accepts cs \<or> Failed \<in> set cs \<Longrightarrow> send_loop cs rest wire \<noteq> None"
proof (induction cs rest wire rule: send_loop.induct)
  case (3 c cs b rest wire)
  note ih = "3.IH" and prems = "3.prems"
  show ?case
  proof (cases c)
    case (Sent k)
    have "length (drop k (b # rest)) \<le> accepts cs \<or> Failed \<in> set cs"
      using prems Sent by auto
    with Sent ih show ?thesis by simp
  next
    case Again then show ?thesis using prems ih by simp
  qed simp
qed auto

section \<open>The client of accordion\<close>

record tclient =
  port :: int
  max_conections :: int
  connection_counter :: int
  sock :: int
  f_connected :: bool
  socket_type :: int
  reconnection_time :: int

definition SOCKET_NONBLOCK :: int where "SOCKET_NONBLOCK = 1"

definition tclient_new :: "int \<Rightarrow> int \<Rightarrow> int \<Rightarrow> int \<Rightarrow> tclient" where
  "tclient_new p m_connection st rt =
     \<lparr>port = p, max_conections = m_connection, connection_counter = 0, sock = - 1,
      f_connected = False, socket_type = st, reconnection_time = rt\<rparr>"

definition connection_attempt :: "tclient \<Rightarrow> bool" where
  "connection_attempt t \<longleftrightarrow> connection_counter t \<ge> max_conections t"

definition net_close :: "tclient \<Rightarrow> tclient" where
  "net_close t = (if f_connected t then t\<lparr>sock := - 1, f_connected := False\<rparr> else t\<lparr>f_connected := False\<rparr>)"

text \<open>
  The attempts: \<open>con i\<close> is the result of the \<open>connect\<close> made with \<open>connection_counter = i\<close>; \<open>n\<close>
  attempts are left.
\<close>

fun connect_loop :: "(nat \<Rightarrow> connect_result) \<Rightarrow> nat \<Rightarrow> nat \<Rightarrow> nat \<times> bool" where
  "connect_loop con i 0 = (i, False)"
| "connect_loop con i (Suc n) =
     (if con i = Refused then connect_loop con (Suc i) n else (i, True))"

text \<open>
  \<open>net_connect\<close>: \<open>fd\<close> is what \<open>socket\<close> returns, \<open>resolved\<close> whether the host name has an address.
  The function returns \<open>bool\<close>: the early \<open>return ret_value\<close> of -1 is a \<open>true\<close>. The third
  result is the time slept.
\<close>

definition net_connect ::
  "int \<Rightarrow> bool \<Rightarrow> (nat \<Rightarrow> connect_result) \<Rightarrow> tclient \<Rightarrow> bool \<times> tclient \<times> int" where
  "net_connect fd resolved con t =
     (if f_connected t then (True, t, 0)
      else
        let t1 = t\<lparr>sock := fd\<rparr> in
        if fd < 0 then (True, t1, 0)
        else if \<not> resolved then (True, t1, 0)
        else
          let (c, ok) = connect_loop con 0 (nat (max_conections t));
              t2 = t1\<lparr>connection_counter := int c\<rparr>;
              slept = int c * (if reconnection_time t \<noteq> 0 then reconnection_time t else 5)
          in if \<not> ok then (False, t2\<lparr>f_connected := False\<rparr>, slept)
             else (True,
                   (if socket_type t = SOCKET_NONBLOCK then t2\<lparr>connection_counter := 0\<rparr> else t2)
                     \<lparr>f_connected := True\<rparr>, slept))"

definition net_send ::
  "send_result list \<Rightarrow> string \<Rightarrow> string \<Rightarrow> tclient \<Rightarrow> (bool \<times> tclient \<times> string \<times> send_result list) option"
where
  "net_send cs buf wire t =
     (if \<not> f_connected t then Some (False, t, wire, cs)
      else map_option (\<lambda>(ok, w, cs'). (ok, if ok then t else net_close t, w, cs'))
             (send_loop cs buf wire))"

text \<open>
  \<open>net_recv(char *)\<close>: one \<open>recv\<close> into 65535 bytes; its verdict is an \<open>int\<close> made \<open>bool\<close>, so that
  -1 is \<open>true\<close>.
\<close>

definition net_recv_match :: "recv_result \<Rightarrow> string \<Rightarrow> tclient \<Rightarrow> bool \<times> tclient" where
  "net_recv_match r s t =
     (case r of
        Got buf \<Rightarrow> if buf = [] then (False, net_close t)
                   else (find_sub s (takeWhile (\<lambda>c. c \<noteq> CHR 0x00) (take 65535 buf)) \<noteq> None, t)
      | Closed \<Rightarrow> (False, net_close t)
      | _ \<Rightarrow> (True, net_close t))"

text \<open>\<open>net_recv()\<close> only looks whether the other end has closed.\<close>

definition net_recv :: "recv_result \<Rightarrow> tclient \<Rightarrow> tclient" where
  "net_recv r t = (if r = Closed then net_close t else t)"

text \<open>
  \<open>net_recv_string\<close>: \<open>continue\<close> in a \<open>do ... while (sz > 0)\<close> goes to the test, and \<open>sz\<close> is -1
  after \<open>EAGAIN\<close>.
\<close>

fun recv_loop :: "recv_result list \<Rightarrow> string \<Rightarrow> (string \<times> recv_result list) option" where
  "recv_loop [] str = None"
| "recv_loop (r # rs) str =
     (case r of
        Got buf \<Rightarrow> if buf = [] then Some (str, rs) else recv_loop rs (str @ buf)
      | _ \<Rightarrow> Some (str, rs))"

definition net_recv_string ::
  "recv_result list \<Rightarrow> tclient \<Rightarrow> (string \<times> tclient \<times> recv_result list) option" where
  "net_recv_string rs t =
     map_option (\<lambda>(str, rs'). (str, if str = [] then net_close t else t, rs')) (recv_loop rs [])"

section \<open>The client of logger\<close>

text \<open>
  \<open>bsend(const char *, int)\<close>: the sum of the results is compared with -1, and the length left is
  reduced by the sum of all that was sent so far.
\<close>

fun bsend_loop ::
  "send_result list \<Rightarrow> string \<Rightarrow> int \<Rightarrow> int \<Rightarrow> string \<Rightarrow> (bool \<times> string \<times> send_result list) option"
where
  "bsend_loop [] buf tot len wire =
     (if tot < len then None else Some (tot \<noteq> - 1, wire, []))"
| "bsend_loop (c # cs) buf tot len wire =
     (if \<not> tot < len then Some (tot \<noteq> - 1, wire, c # cs)
      else
        let avail = take (nat len) (drop (nat tot) buf);
            (m, sent) = (case c of Sent k \<Rightarrow> (int (min k (length avail)), take k avail)
                         | _ \<Rightarrow> (- 1, []));
            tot' = tot + m
        in if tot' = - 1 then Some (False, wire @ sent, cs)
           else bsend_loop cs buf tot' (len - tot') (wire @ sent))"

definition bsend :: "send_result list \<Rightarrow> string \<Rightarrow> string \<Rightarrow> (bool \<times> string \<times> send_result list) option"
where
  "bsend cs buf wire = bsend_loop cs buf 0 (int (length buf)) wire"

text \<open>\<open>bsend(int, char *, int)\<close> and logger's \<open>net_send\<close>, which leaves the socket open on errors.\<close>

definition bsend_fd :: "send_result list \<Rightarrow> string \<Rightarrow> string \<Rightarrow> (bool \<times> string \<times> send_result list) option"
where
  "bsend_fd = send_loop"

definition logger_net_send ::
  "send_result list \<Rightarrow> string \<Rightarrow> string \<Rightarrow> tclient \<Rightarrow> (bool \<times> string \<times> send_result list) option" where
  "logger_net_send cs buf wire t =
     (if \<not> f_connected t then Some (False, wire, cs) else send_loop cs buf wire)"

definition logger_net_connect ::
  "int \<Rightarrow> bool \<Rightarrow> connect_result \<Rightarrow> tclient \<Rightarrow> bool \<times> tclient" where
  "logger_net_connect fd resolved con t =
     (let t1 = t\<lparr>sock := fd\<rparr> in
      if fd < 0 then (True, t1)
      else if \<not> resolved then (True, t1)
      else (con = Connected, t1\<lparr>f_connected := (con = Connected)\<rparr>))"

definition logger_net_recv_string :: "recv_result list \<Rightarrow> (string \<times> recv_result list) option" where
  "logger_net_recv_string rs = recv_loop rs []"

definition recv_file :: "recv_result list \<Rightarrow> tclient \<Rightarrow> (string \<times> tclient \<times> recv_result list) option"
where
  "recv_file rs t =
     map_option (\<lambda>(str, rs'). (str, if str = [] then net_close t else t, rs')) (recv_loop rs [])"

lemma send_loop_ok: "send_loop cs b w = Some (ok, w', cs') \<Longrightarrow> Failed \<notin> set cs \<Longrightarrow> ok"
  by (induction cs b w rule: send_loop.induct) (auto split: send_result.splits)

lemma net_send_smooth:
  assumes "length b \<le> accepts cs" "Failed \<notin> set cs" "f_connected t"
  shows "\<exists>cs'. net_send cs b w t = Some (True, t, w @ b, cs')"
proof -
  obtain ok w' cs' where l: "send_loop cs b w = Some (ok, w', cs')"
    using send_loop_returns [of b cs w] assms(1) by auto
  moreover have "ok" using send_loop_ok [OF l assms(2)] .
  moreover from this have "w' = w @ b" using send_loop_wire [OF l] by auto
  ultimately show ?thesis using assms(3) by (simp add: net_send_def)
qed

text \<open>The calls of a script that bring something on its way: each is worth one byte at least.\<close>

definition progress :: "send_result list \<Rightarrow> nat" where
  "progress cs = length (filter (\<lambda>c. \<exists>k. c = Sent (Suc k)) cs)"

lemma progress_simps [simp]:
  "progress [] = 0" "progress (Sent (Suc k) # cs) = Suc (progress cs)"
  "progress (Sent 0 # cs) = progress cs" "progress (Again # cs) = progress cs"
  "progress (Failed # cs) = progress cs"
  by (simp_all add: progress_def)

lemma send_loop_left:
  "send_loop cs buf wire = Some (ok, wire', cs') \<Longrightarrow>
     set cs' \<subseteq> set cs \<and> progress cs \<le> progress cs' + length buf"
proof (induction cs buf wire rule: send_loop.induct)
  case (3 c cs b rest wire)
  show ?case
  proof (cases c)
    case (Sent k)
    with 3 show ?thesis by (cases k) fastforce+
  qed (use 3 in auto)
qed auto

lemma send_loop_progress: "length buf \<le> progress cs \<Longrightarrow> send_loop cs buf wire \<noteq> None"
proof (induction cs buf wire rule: send_loop.induct)
  case (3 c cs b rest wire)
  note ih = "3.IH" and prems = "3.prems"
  show ?case
  proof (cases c)
    case (Sent k)
    have "length (drop k (b # rest)) \<le> progress cs" using prems Sent by (cases k) auto
    with Sent ih show ?thesis by simp
  qed (use ih prems in auto)
qed auto

section \<open>Properties\<close>

text \<open>
  C23. \<open>net_send\<close> and \<open>bsend(int, ...)\<close> send everything, once and in order: when they report
  success exactly the message has been added to the wire, when they fail a proper beginning of it,
  and accordion's client is closed then. They return once the kernel has accepted as many bytes
  as the message has, or refused, however often it said to try again.
\<close>

theorem net_send_exact:
  assumes "f_connected t"
  shows "(net_send cs buf wire t = Some (ok, t', wire', cs') \<longrightarrow>
      (if ok then wire' = wire @ buf \<and> t' = t
       else (\<exists>p. wire' = wire @ p \<and> strict_prefix p buf) \<and> \<not> f_connected t')) \<and>
    (length buf \<le> accepts cs \<or> Failed \<in> set cs \<longrightarrow> net_send cs buf wire t \<noteq> None)"
proof (intro conjI impI)
  assume "net_send cs buf wire t = Some (ok, t', wire', cs')"
  then have s: "send_loop cs buf wire = Some (ok, wire', cs')" and "t' = (if ok then t else net_close t)"
    using assms by (auto simp: net_send_def)
  then show "if ok then wire' = wire @ buf \<and> t' = t
       else (\<exists>p. wire' = wire @ p \<and> strict_prefix p buf) \<and> \<not> f_connected t'"
    using net.sent_all [of cs buf wire wire' cs'] net.sent_part [of cs buf wire wire' cs']
    by (auto simp: net_close_def)
next
  assume "length buf \<le> accepts cs \<or> Failed \<in> set cs"
  then show "net_send cs buf wire t \<noteq> None"
    using assms send_loop_returns by (simp add: net_send_def)
qed

theorem net_send_exact_witness:
  "net_send [Sent 2, Again, Sent 3] ''hello'' ''>'' ((tclient_new 80 3 1 0)\<lparr>f_connected := True\<rparr>) =
     Some (True, (tclient_new 80 3 1 0)\<lparr>f_connected := True\<rparr>, ''>hello'', []) \<and>
   ''>hello'' = ''>'' @ ''hello''"
  using net_send_exact [of "(tclient_new 80 3 1 0)\<lparr>f_connected := True\<rparr>"
      "[Sent 2, Again, Sent 3]" "''hello''" "''>''"
      True "(tclient_new 80 3 1 0)\<lparr>f_connected := True\<rparr>" "''>hello''" "[]"]
  by (simp add: net_send_def tclient_new_def)

text \<open>
  \<open>bsend(const char *, int)\<close> is not such a sender: when the kernel takes at least half of the
  message but not all of it, the function stops and reports success with the rest unsent.
\<close>

theorem bsend_loses_rest:
  assumes "length buf \<le> 2 * k" "k < length buf"
  shows "bsend [Sent k] buf wire = Some (True, wire @ take k buf, []) \<and> take k buf \<noteq> buf"
proof -
  have "take k buf \<noteq> buf" using assms(2) by (metis length_take less_irrefl min.absorb4)
  moreover have "bsend [Sent k] buf wire = Some (True, wire @ take k buf, [])"
    using assms by (auto simp: bsend_def Let_def min_def)
  ultimately show ?thesis by blast
qed

theorem bsend_loses_rest_witness:
  "bsend [Sent 5] ''0123456789'' [] = Some (True, ''01234'', [])"
  using bsend_loses_rest [of "''0123456789''" 5 "[]"] by simp

lemma connect_loop_spec:
  "connect_loop con i n = (c, ok) \<Longrightarrow>
     (ok \<longleftrightarrow> (\<exists>j < n. con (i + j) \<noteq> Refused)) \<and> i \<le> c \<and> c \<le> i + n \<and>
     (\<forall>j. i \<le> j \<and> j < c \<longrightarrow> con j = Refused) \<and> (ok \<longrightarrow> con c \<noteq> Refused)"
proof (induction con i n rule: connect_loop.induct)
  case (2 con i n)
  show ?case
  proof (cases "con i = Refused")
    case True
    then have ih: "ok \<longleftrightarrow> (\<exists>j < n. con (Suc i + j) \<noteq> Refused)" "Suc i \<le> c" "c \<le> Suc i + n"
      "\<forall>j. Suc i \<le> j \<and> j < c \<longrightarrow> con j = Refused" "ok \<longrightarrow> con c \<noteq> Refused"
      using 2 by auto
    have "(\<exists>j < Suc n. con (i + j) \<noteq> Refused) \<longleftrightarrow> (\<exists>j < n. con (Suc i + j) \<noteq> Refused)"
      using True by (metis Suc_less_eq add.right_neutral add_Suc_right add_Suc less_Suc_eq_0_disj)
    moreover have "\<forall>j. i \<le> j \<and> j < c \<longrightarrow> con j = Refused"
      using ih(4) True by (metis Suc_leI le_neq_implies_less)
    ultimately show ?thesis using ih by auto
  qed (use 2 in auto)
qed auto

text \<open>
  With a resolved host \<open>net_connect\<close> tries at most \<open>max_conections\<close> times and succeeds just
  when one of these attempts does, sleeping once for each refusal before it; without a socket or
  an address it reports success although the client is not connected and cannot send.
\<close>

theorem net_connect_attempts:
  assumes "\<not> f_connected t" and "net_connect fd resolved con t = (ok, t', slept)"
  shows "(0 \<le> fd \<and> resolved \<longrightarrow>
      (ok \<longleftrightarrow> (\<exists>i < nat (max_conections t). con i \<noteq> Refused)) \<and> f_connected t' = ok \<and>
      (\<exists>c \<le> nat (max_conections t). (\<forall>i < c. con i = Refused) \<and>
         slept = int c * (if reconnection_time t \<noteq> 0 then reconnection_time t else 5))) \<and>
    (fd < 0 \<or> \<not> resolved \<longrightarrow>
      ok \<and> \<not> f_connected t' \<and> net_send cs buf wire t' = Some (False, t', wire, cs))"
proof (cases "fd < 0 \<or> \<not> resolved")
  case True
  then show ?thesis using assms by (cases "fd < 0") (auto simp: net_connect_def net_send_def)
next
  case False
  obtain c k where l: "connect_loop con 0 (nat (max_conections t)) = (c, k)" by fastforce
  then have "ok = k" "f_connected t' = k"
    "slept = int c * (if reconnection_time t \<noteq> 0 then reconnection_time t else 5)"
    using assms False by (auto simp: net_connect_def Let_def split: if_splits)
  then show ?thesis using connect_loop_spec [OF l] False by auto
qed

theorem net_connect_attempts_witness:
  "net_connect 4 True (\<lambda>i. if i < 2 then Refused else Connected) (tclient_new 80 3 1 7) =
     (True, (tclient_new 80 3 1 7)\<lparr>sock := 4, f_connected := True\<rparr>, 14) \<and>
   (\<exists>i < 3. (if i < (2 :: nat) then Refused else Connected) \<noteq> Refused)"
proof -
  have r: "net_connect 4 True (\<lambda>i. if i < 2 then Refused else Connected) (tclient_new 80 3 1 7) =
     (True, (tclient_new 80 3 1 7)\<lparr>sock := 4, f_connected := True\<rparr>, 14)"
    by code_simp
  have "\<not> f_connected (tclient_new 80 3 1 7)" "max_conections (tclient_new 80 3 1 7) = 3"
    by (simp_all add: tclient_new_def)
  with net_connect_attempts [OF _ r] r show ?thesis by auto
qed

lemma recv_loop_got:
  "[] \<notin> set ds \<Longrightarrow> recv_loop (map Got ds @ r # rs) str =
     (case r of Got b \<Rightarrow> if b = [] then Some (str @ concat ds, rs)
                         else recv_loop rs (str @ concat ds @ b)
      | _ \<Rightarrow> Some (str @ concat ds, rs))"
  by (induction ds arbitrary: str) (auto split: recv_result.split)

text \<open>
  \<open>net_recv_string\<close> joins what arrives until the first call of \<open>recv\<close> that brings nothing. On
  the non-blocking sockets the program uses this is also the moment at which no data has come in
  yet: the \<open>continue\<close> meant to wait ends the loop, and what comes later is not read.
\<close>

theorem net_recv_string_stops:
  assumes "[] \<notin> set ds" "r \<in> {Closed, RecvAgain, RecvFailed, Got []}"
  shows "net_recv_string (map Got ds @ r # map Got later) t =
    Some (concat ds, if concat ds = [] then net_close t else t, map Got later)"
  using assms by (auto simp: net_recv_string_def recv_loop_got)

theorem net_recv_string_stops_witness:
  "net_recv_string (map Got [''HTTP/1.1 200 OK''] @ RecvAgain # map Got [''body'']) (tclient_new 80 3 1 7) =
     Some (''HTTP/1.1 200 OK'', tclient_new 80 3 1 7, [Got ''body''])"
  using net_recv_string_stops [of "[''HTTP/1.1 200 OK'']" RecvAgain "[''body'']" "tclient_new 80 3 1 7"]
  by simp

end
