(* ===== verification/Text.thy ===== *)
theory Text
  imports Prelude
begin

text \<open>
  \<open>accordion_V10.X/common.cpp\<close>: the text, path, time and process helpers the programs share.
  A \<open>char *\<close> argument that is changed in place is a function from the old text to the new. What
  the operating system answers (a directory made, the output of a command, the clock) is an
  argument.
\<close>

section \<open>Case and encoding\<close>

definition xstrlower :: "string \<Rightarrow> string" where "xstrlower s = map c_tolower s"
definition xstrupper :: "string \<Rightarrow> string" where "xstrupper s = map c_toupper s"

definition hex_digit :: "nat \<Rightarrow> char" where
  "hex_digit n = (if n < 10 then char_of (48 + n) else char_of (55 + n))"

definition url_safe :: "char \<Rightarrow> bool" where
  "url_safe c \<longleftrightarrow> c_isalnum c \<or> c = CHR ''-'' \<or> c = CHR ''_'' \<or> c = CHR ''.'' \<or> c = CHR ''~''"

fun urlEncode :: "string \<Rightarrow> string" where
  "urlEncode [] = []"
| "urlEncode (c # cs) =
     (if url_safe c then [c]
      else [CHR ''%'', hex_digit (code c div 16), hex_digit (code c mod 16)]) @ urlEncode cs"

text \<open>What a server makes of the text (the specification of percent encoding).\<close>

definition hex_value :: "char \<Rightarrow> nat" where
  "hex_value c = (if c_isdigit c then code c - 48 else code c - 55)"

fun percent_decode :: "string \<Rightarrow> string" where
  "percent_decode [] = []"
| "percent_decode (c # cs) =
     (if c = CHR ''%'' then
        (case cs of a # b # rest \<Rightarrow> char_of (16 * hex_value a + hex_value b) # percent_decode rest
         | _ \<Rightarrow> [c])
      else c # percent_decode cs)"

lemma hex_value_digit: "n < 16 \<Longrightarrow> hex_value (hex_digit n) = n"
  by (auto simp: hex_value_def hex_digit_def c_isdigit_def code_char_of)

lemma char_of_code: "char_of (16 * (code c div 16) + code c mod 16) = c"
  by (simp only: mult_div_mod_eq) (simp add: code_def)

lemma percent_not_safe: "\<not> url_safe CHR ''%''"
  by (simp add: url_safe_def c_isalnum_def c_isdigit_def c_isupper_def c_islower_def code_def)

lemma percent_decode_urlEncode: "percent_decode (urlEncode s) = s"
proof (induction s)
  case (Cons c cs)
  have "code c div 16 < 16" using code_less [of c] by auto
  then show ?case
    using Cons percent_not_safe char_of_code [of c] by (auto simp: hex_value_digit simp del: mult_div_mod_eq)
qed simp

interpretation url: codec urlEncode percent_decode "\<lambda>_. True"
  by unfold_locales (rule percent_decode_urlEncode)

section \<open>Trimming\<close>

text \<open>
  \<open>xtrim\<close>: the offset \<open>i\<close> of the first character that is not a blank (0 when there is none),
  then the last blank. \<open>strrchr\<close>'s pointer always lies before the end of the string, so the loop
  that would cut blanks at the end is the \<open>else\<close> branch no input reaches.
\<close>

definition first_non_blank :: "string \<Rightarrow> nat" where
  "first_non_blank s =
     (let i = length (takeWhile (\<lambda>c. c = CHR '' '') s) in if i = length s then 0 else i)"

definition xtrim :: "string \<Rightarrow> string" where
  "xtrim s =
     (let s1 = drop (first_non_blank s) s
      in case find_last CHR '' '' s1 of
           None \<Rightarrow> s1
         | Some p \<Rightarrow> if p < length s1 then s1 else take p s1)"

section \<open>Paths\<close>

text \<open>
  \<open>pathname\<close>: what stands before \<open>basename\<close> (the XPG one, which does not count slashes at the
  end); \<open>None\<close> for the empty path, where \<open>basename\<close> points elsewhere.
\<close>

definition pathname :: "string \<Rightarrow> string option" where
  "pathname s =
     (if s = [] then None
      else
        let t = rev (dropWhile (\<lambda>c. c = CHR ''/'') (rev s))
        in Some (if t = [] then take (length s - 1) s
                 else case find_last CHR ''/'' t of None \<Rightarrow> [] | Some p \<Rightarrow> take (p + 1) s))"

text \<open>
  \<open>MakeDirectory\<close>: \<open>mkdir d\<close> says whether \<open>mkdir\<close> made \<open>d\<close> or found it. The result is the
  directories tried, in order, and \<open>mdret\<close>, which is not initialised when none is tried
  (\<open>None\<close>). An empty argument throws from \<open>at(0)\<close> (the outer \<open>None\<close>).
\<close>

fun mkdir_loop ::
  "(string \<Rightarrow> bool) \<Rightarrow> string \<Rightarrow> string \<Rightarrow> bool option \<Rightarrow> string list \<times> bool option" where
  "mkdir_loop mkdir pre [] mdret = ([], mdret)"
| "mkdir_loop mkdir pre (c # cs) mdret =
     (if c = CHR ''/'' \<and> pre \<noteq> [] then
        if mkdir pre
        then (let (ds, r) = mkdir_loop mkdir (pre @ [c]) cs (Some True) in (pre # ds, r))
        else ([pre], Some False)
      else mkdir_loop mkdir (pre @ [c]) cs mdret)"

definition dir_path :: "string \<Rightarrow> string" where
  "dir_path str =
     (let s = (if hd str \<noteq> CHR ''/'' \<and> hd str \<noteq> CHR ''.'' then CHR ''/'' # str else str)
      in if last s \<noteq> CHR ''/'' then s @ ''/'' else s)"

definition MakeDirectory :: "(string \<Rightarrow> bool) \<Rightarrow> string \<Rightarrow> (string list \<times> bool option) option" where
  "MakeDirectory mkdir str =
     (if str = [] then None else Some (mkdir_loop mkdir [] (dir_path str) None))"

text \<open>The specification: the directories on the way to a path that ends in a slash: all its prefixes before a slash.\<close>

definition parents :: "string \<Rightarrow> string list" where
  "parents s = map (\<lambda>n. take n s) (filter (\<lambda>n. n > 0 \<and> s ! n = CHR ''/'') [0..<length s])"

definition GetSubPath :: "int \<Rightarrow> string" where
  "GetSubPath m_id = show_int (c_div m_id 10000)"

section \<open>Files\<close>

text \<open>\<open>FileStatExists\<close>: the argument is the size \<open>stat\<close> gives, the second result whether a line was
  logged.\<close>

definition FileStatExists :: "int option \<Rightarrow> bool \<times> bool" where
  "FileStatExists st_size =
     (case st_size of None \<Rightarrow> (False, True) | Some n \<Rightarrow> if n \<noteq> 0 then (True, False) else (False, True))"

section \<open>Time\<close>

record tm =
  tm_mday :: int
  tm_mon :: int
  tm_year :: int

text \<open>The daily check: the new \<open>tm_begin\<close> is part of the result.\<close>

definition up_time_day :: "tm \<Rightarrow> tm \<Rightarrow> bool \<times> tm" where
  "up_time_day tm_now tm_begin =
     (let ret_value = tm_mday tm_now > tm_mday tm_begin \<or> tm_mon tm_now > tm_mon tm_begin
            \<or> tm_year tm_now > tm_year tm_begin
      in (ret_value, if ret_value then tm_now else tm_begin))"

definition up_time_interval :: "int \<Rightarrow> int \<Rightarrow> int \<Rightarrow> bool \<times> int" where
  "up_time_interval now tm_between tm_begin =
     (if now - tm_begin \<ge> tm_between then (True, now) else (False, tm_begin))"

text \<open>\<open>mtime\<close>: milliseconds in 32 bits.\<close>

definition mtime :: "int \<Rightarrow> int \<Rightarrow> 32 word" where
  "mtime tv_sec tv_nsec = of_int (c_int tv_sec * 1000 + c_div tv_nsec 1000000)"

section \<open>Commands and processes\<close>

text \<open>\<open>fgets\<close> with a buffer of \<open>n\<close> bytes: up to \<open>n - 1\<close> characters, ending after a newline.\<close>

fun fgets :: "nat \<Rightarrow> string \<Rightarrow> string \<times> string" where
  "fgets 0 s = ([], s)"
| "fgets (Suc n) [] = ([], [])"
| "fgets (Suc 0) s = ([], s)"
| "fgets (Suc (Suc n)) (c # cs) =
     (if c = CHR 0x0A then ([c], cs) else (let (l, r) = fgets (Suc n) cs in (c # l, r)))"

lemma fgets_split: "fgets n s = (l, r) \<Longrightarrow> l @ r = s"
  by (induction n s arbitrary: l r rule: fgets.induct) (auto split: if_splits prod.splits)

lemma fgets_progress: "fgets (Suc (Suc n)) s = (l, r) \<Longrightarrow> s \<noteq> [] \<Longrightarrow> length r < length s"
  by (cases s) (auto split: if_splits prod.splits dest!: fgets_split)

lemma fgets_length: "fgets (Suc n) s = (l, r) \<Longrightarrow> length l \<le> n"
  by (induction "Suc n" s arbitrary: n l r rule: fgets.induct) (auto split: if_splits prod.splits)

lemma fgets_short: "CHR 0x0A \<notin> set s \<Longrightarrow> length s < n \<Longrightarrow> fgets n s = (s, [])"
  by (induction n s rule: fgets.induct) auto

text \<open>All the lines of a stream, for a buffer of at least two bytes.\<close>

function fgets_all :: "nat \<Rightarrow> string \<Rightarrow> string list" where
  "fgets_all n s =
     (if s = [] then []
      else let (l, r) = fgets (Suc (Suc n)) s in l # fgets_all n r)"
  by auto
termination
  by (relation "measure (\<lambda>(n, s). length s)") (auto intro: fgets_progress [OF sym])

declare fgets_all.simps [simp del]

definition getCmdOutput1 :: "string \<Rightarrow> string" where
  "getCmdOutput1 out = concat (fgets_all 254 out)"

definition getCmdOutput :: "string \<Rightarrow> string list" where
  "getCmdOutput out = fgets_all 4998 out"

text \<open>
  \<open>is_console_cmd\<close>: \<open>sscanf\<close> takes the second field of a line of \<open>ps\<close> (nothing when the
  first is no number), \<open>which\<close> is asked for it.
\<close>

definition second_field :: "string \<Rightarrow> string" where
  "second_field m =
     (let t = dropWhile c_isspace m;
          u = (case t of [] \<Rightarrow> [] | c # cs \<Rightarrow> if c = CHR ''-'' \<or> c = CHR ''+'' then cs else t);
          v = dropWhile c_isdigit u
      in if u = [] \<or> \<not> c_isdigit (hd u) then []
         else takeWhile (\<lambda>c. \<not> c_isspace c) (dropWhile c_isspace v))"

definition is_console_cmd :: "(string \<Rightarrow> string) \<Rightarrow> string \<Rightarrow> bool" where
  "is_console_cmd which m =
     list_ex (\<lambda>l. find_sub ''accord'' l = None \<or> find_sub ''stop'' l \<noteq> None
                  \<or> find_sub ''exit'' l \<noteq> None)
       (getCmdOutput (which (''which '' @ second_field m)))"

definition GetPid :: "(string \<Rightarrow> string) \<Rightarrow> string list \<Rightarrow> int" where
  "GetPid which m =
     (case filter (\<lambda>l. \<not> is_console_cmd which l) (butlast m) of
        [] \<Rightarrow> 0 | l # _ \<Rightarrow> c_atoi l)"

section \<open>Facts\<close>

lemma concat_fgets_all: "concat (fgets_all n s) = s"
proof (induction n s rule: fgets_all.induct)
  case (1 n s)
  show ?case
  proof (cases "s = []")
    case True then show ?thesis by (simp add: fgets_all.simps)
  next
    case False
    obtain l r where lr: "fgets (Suc (Suc n)) s = (l, r)" by fastforce
    then show ?thesis
      using "1.IH" [OF False] fgets_split [OF lr] False by (subst fgets_all.simps) simp
  qed
qed

lemma xtrim_eq:
  "xtrim s = (if \<forall>c \<in> set s. c = CHR '' '' then s else dropWhile (\<lambda>c. c = CHR '' '') s)"
proof -
  let ?P = "\<lambda>c. c = CHR '' ''"
  have "xtrim s = drop (first_non_blank s) s"
    using find_last_Some by (auto simp: xtrim_def Let_def split: option.splits)
  moreover have "length (takeWhile ?P s) = length s \<longleftrightarrow> (\<forall>c \<in> set s. ?P c)"
    by (induction s) auto
  ultimately show ?thesis
    by (simp add: first_non_blank_def dropWhile_eq_drop)
qed

text \<open>Trying a list in order up to the first failure.\<close>

definition tried :: "('a \<Rightarrow> bool) \<Rightarrow> 'a list \<Rightarrow> 'a list" where
  "tried ok xs = takeWhile ok xs @ take 1 (dropWhile ok xs)"

definition parents_from :: "string \<Rightarrow> string \<Rightarrow> string list" where
  "parents_from pre s = map (\<lambda>n. take n (pre @ s))
     (filter (\<lambda>n. n > 0 \<and> (pre @ s) ! n = CHR ''/'') [length pre..<length (pre @ s)])"

lemma parents_from_Cons:
  "parents_from pre (c # cs) =
     (if c = CHR ''/'' \<and> pre \<noteq> [] then [pre] else []) @ parents_from (pre @ [c]) cs"
proof -
  have "[length pre..<length (pre @ c # cs)] =
      length pre # [length (pre @ [c])..<length ((pre @ [c]) @ cs)]"
    by (simp add: upt_rec)
  then show ?thesis by (simp add: parents_from_def nth_append del: upt_Suc)
qed

lemma mkdir_loop_tried:
  "mkdir_loop mkdir pre s mdret =
     (tried mkdir (parents_from pre s),
      if parents_from pre s = [] then mdret else Some (list_all mkdir (parents_from pre s)))"
proof (induction mkdir pre s mdret rule: mkdir_loop.induct)
  case (1 mkdir pre mdret)
  then show ?case by (simp add: parents_from_def tried_def)
next
  case (2 mkdir pre c cs mdret)
  then show ?case
    by (cases "c = CHR ''/'' \<and> pre \<noteq> []"; cases "mkdir pre")
      (auto simp: parents_from_Cons tried_def)
qed

section \<open>Properties\<close>

text \<open>
  \<open>urlEncode\<close> gives a text of unreserved characters and percent escapes only, from which the
  original is recovered; different texts stay different.
\<close>

theorem urlEncode_sound:
  "percent_decode (urlEncode s) = s \<and> (urlEncode s = urlEncode t \<longleftrightarrow> s = t) \<and>
   set (urlEncode s) \<subseteq> {c. url_safe c} \<union> {CHR ''%''}"
proof -
  have "url_safe (hex_digit n)" if "n < 16" for n
    using that by (auto simp: url_safe_def hex_digit_def c_isalnum_def c_isdigit_def c_isupper_def
        code_char_of)
  moreover have "code c div 16 < 16" for c using code_less [of c] by auto
  ultimately have "set (urlEncode s) \<subseteq> {c. url_safe c} \<union> {CHR ''%''}"
    by (induction s) auto
  then show ?thesis
    using url.dec_enc [of s] url.enc_inject [of s t] by simp
qed

text \<open>
  \<open>xtrim\<close> removes the blanks in front of a text that has another character and nothing else:
  blanks at the end stay, and a text of blanks only is returned as it is.
\<close>

theorem xtrim_keeps_end:
  "xtrim s = (if list_all (\<lambda>c. c = CHR '' '') s then s else dropWhile (\<lambda>c. c = CHR '' '') s) \<and>
   xtrim (t @ ''x'' @ replicate n CHR '' '') = dropWhile (\<lambda>c. c = CHR '' '') (t @ ''x'')
     @ replicate n CHR '' ''"
  by (auto simp: xtrim_eq list_all_iff dropWhile_append)

text \<open>
  \<open>MakeDirectory\<close> tries every directory on the way to the given one, outermost first, the
  path itself last, stops at the first that can be neither made nor found, and returns true just
  when there is none; only for the root is the result not set.
\<close>

theorem MakeDirectory_tries_parents:
  "MakeDirectory mkdir str =
     (if str = [] then None
      else let ps = parents (dir_path str)
           in Some (tried mkdir ps, if ps = [] then None else Some (list_all mkdir ps)))"
proof -
  have "parents_from [] p = parents p" for p by (simp add: parents_from_def parents_def)
  then show ?thesis by (simp add: MakeDirectory_def mkdir_loop_tried Let_def)
qed

text \<open>
  The daily check fires exactly when the date has changed, provided the clock did not run
  backwards, and then takes the new date as its start.
\<close>

theorem up_time_day_changes:
  assumes "tm_year b < tm_year n \<or> tm_year b = tm_year n \<and>
      (tm_mon b < tm_mon n \<or> tm_mon b = tm_mon n \<and> tm_mday b \<le> tm_mday n)"
  shows "(fst (up_time_day n b) \<longleftrightarrow> n \<noteq> b) \<and> snd (up_time_day n b) = n"
  using assms by (cases n; cases b) (auto simp: up_time_day_def Let_def)

theorem up_time_day_changes_witness:
  "fst (up_time_day \<lparr>tm_mday = 1, tm_mon = 0, tm_year = 119\<rparr> \<lparr>tm_mday = 31, tm_mon = 11, tm_year = 118\<rparr>)"
  using up_time_day_changes [of "\<lparr>tm_mday = 31, tm_mon = 11, tm_year = 118\<rparr>"
      "\<lparr>tm_mday = 1, tm_mon = 0, tm_year = 119\<rparr>"] by simp

text \<open>
  A command's output is read whole: the pieces of at most 255 characters that \<open>fgets\<close> cuts
  are the output again when appended.
\<close>

theorem getCmdOutput1_whole: "getCmdOutput1 out = out \<and> concat (getCmdOutput out) = out"
  by (simp add: getCmdOutput1_def getCmdOutput_def concat_fgets_all)

end
