(* ===== verification/Parameters.thy ===== *)
theory Parameters
  imports Text
begin

text \<open>
  \<open>accordion_V10.X/parameters.cpp\<close>: the list of tracks the player takes over from the server,
  the file it keeps the list in, and the flags the threads share. A disk is the contents of its
  files; \<open>stat\<close> and \<open>access\<close> see those. The mutexes order the operations, each of which is
  one function here. A result of \<open>None\<close> is a run C++ leaves undefined or ends with an exception
  no one catches: a text that overruns its buffer, or a play file without a directory.
\<close>

section \<open>Files and lines\<close>

type_synonym files = "string \<Rightarrow> string option"

definition file_size :: "files \<Rightarrow> string \<Rightarrow> int option" where
  "file_size D p = map_option (\<lambda>c. int (length c)) (D p)"

definition stat_exists :: "files \<Rightarrow> string \<Rightarrow> bool" where
  "stat_exists D p = fst (FileStatExists (file_size D p))"

lemma stat_exists: "stat_exists D p \<longleftrightarrow> (\<exists>c. D p = Some c \<and> c \<noteq> [])"
  by (auto simp: stat_exists_def FileStatExists_def file_size_def split: option.splits)

definition nl :: char where "nl = CHR 0x0A"

text \<open>\<open>get_endl\<close>: the text after the next end of line.\<close>

definition get_endl :: "string \<Rightarrow> string option" where
  "get_endl s = (case find_chr nl s of None \<Rightarrow> None | Some i \<Rightarrow> Some (drop (Suc i) s))"

lemma get_endl_less: "get_endl s = Some t \<Longrightarrow> length t < length s"
  by (auto simp: get_endl_def split: option.splits dest!: find_chr_Some)

lemma get_endl_line: "nl \<notin> set a \<Longrightarrow> get_endl (a @ nl # t) = Some t"
  by (simp add: get_endl_def find_chr_append)

text \<open>
  The lines \<open>getline\<close> gives with a buffer for 255 characters. A line that does not fit sets
  \<open>failbit\<close>: its first 255 characters are the last that is read. A text that ends in a newline
  gives an empty line more, as the last call does.
\<close>

function getlines :: "string \<Rightarrow> string list" where
  "getlines c =
     (let line = takeWhile (\<lambda>x. x \<noteq> nl) c in
      if 255 < length line then [take 255 line]
      else case get_endl c of None \<Rightarrow> [line] | Some t \<Rightarrow> line # getlines t)"
  by auto
termination
  by (relation "measure length") (auto intro: get_endl_less)

declare getlines.simps [simp del]

lemma takeWhile_stop: "c \<notin> set a \<Longrightarrow> takeWhile (\<lambda>x. x \<noteq> c) (a @ c # t) = a"
  by (induction a) auto

lemma getlines_line:
  "nl \<notin> set a \<Longrightarrow> length a \<le> 255 \<Longrightarrow> getlines (a @ nl # t) = a # getlines t"
  by (subst getlines.simps) (simp add: takeWhile_stop get_endl_line)

lemma getlines_all:
  "(\<And>a. a \<in> set as \<Longrightarrow> nl \<notin> set a \<and> length a \<le> 255) \<Longrightarrow>
     getlines (concat (map (\<lambda>a. a @ [nl]) as)) = as @ [[]]"
proof (induction as)
  case Nil
  show ?case by (subst getlines.simps) (simp add: get_endl_def)
qed (simp add: getlines_line)

section \<open>The parameters\<close>

record tparameters =
  aac_streamtype :: bool
  playlist_path :: string
  playfile :: string
  np_file :: string
  jingle_path :: string
  start_play_track :: bool
  stop_play_track :: bool
  last_track :: bool
  new_playlist :: bool
  get_titrs :: bool
  playfile_exists :: bool
  playfile_default :: bool
  playlist :: "string list"

definition set_start_play_track :: "bool \<Rightarrow> tparameters \<Rightarrow> tparameters" where
  "set_start_play_track v p = p\<lparr>start_play_track := v\<rparr>"

definition set_stop_play_track :: "bool \<Rightarrow> tparameters \<Rightarrow> tparameters" where
  "set_stop_play_track v p = p\<lparr>stop_play_track := v\<rparr>"

definition set_start :: "tparameters \<Rightarrow> tparameters" where
  "set_start p = set_stop_play_track False (set_start_play_track True p)"

definition set_new_playlist :: "bool \<Rightarrow> tparameters \<Rightarrow> tparameters" where
  "set_new_playlist v p = p\<lparr>new_playlist := v\<rparr>"

definition get_new_playlist :: "tparameters \<Rightarrow> bool" where
  "get_new_playlist p \<longleftrightarrow> new_playlist p \<and> playlist p \<noteq> []"

text \<open>\<open>update_playlist\<close> appends to the caller's list.\<close>

definition update_playlist :: "string list \<Rightarrow> tparameters \<Rightarrow> string list \<times> tparameters" where
  "update_playlist pl p = (pl @ playlist p, set_new_playlist False p)"

definition playlist_size :: "tparameters \<Rightarrow> nat" where
  "playlist_size p = length (playlist p)"

section \<open>Start\<close>

definition extension :: "bool \<Rightarrow> string" where
  "extension aac = (if aac then ''aac'' else ''mp3'')"

text \<open>
  \<open>check_playlist\<close>. The stored list counts as far as its tracks are there; without any of
  them the entries \<open>readdir\<close> gives for the jingle directory take its place (\<open>jingles\<close> is
  \<open>None\<close> when \<open>opendir\<close> fails). \<open>sprintf\<close> has room for 255 characters.
\<close>

definition check_playlist :: "files \<Rightarrow> string list option \<Rightarrow> tparameters \<Rightarrow> tparameters option" where
  "check_playlist D jingles p =
     (let ext = CHR ''.'' # extension (aac_streamtype p);
          stored = (case D (playfile p) of
                      None \<Rightarrow> []
                    | Some c \<Rightarrow> filter (\<lambda>l. find_sub ext l \<noteq> None \<and> stat_exists D l) (getlines c));
          pl = playlist p @ stored;
          jl = (if pl = []
                then map (\<lambda>e. jingle_path p @ ''/'' @ e)
                       (filter (\<lambda>e. find_sub ext e \<noteq> None) (case jingles of None \<Rightarrow> [] | Some es \<Rightarrow> es))
                else [])
      in if \<exists>j \<in> set jl. 255 < length j then None
         else Some (p\<lparr>playlist := pl @ jl, playfile_default := (pl = []),
                      playfile_exists := (pl @ jl \<noteq> [])\<rparr>))"

definition Tparameters_new ::
  "files \<Rightarrow> string list option \<Rightarrow> bool \<Rightarrow> string \<Rightarrow> string \<Rightarrow> string \<Rightarrow> string \<Rightarrow> tparameters option"
where
  "Tparameters_new D jingles aac path pf npf jingle =
     check_playlist D jingles
       \<lparr>aac_streamtype = aac, playlist_path = path, playfile = pf, np_file = npf,
        jingle_path = jingle, start_play_track = False, stop_play_track = False,
        last_track = False, new_playlist = False, get_titrs = False, playfile_exists = False,
        playfile_default = False, playlist = []\<rparr>"

section \<open>A new list\<close>

text \<open>
  \<open>get_metadata_begin\<close>: the text from the word \<open>finish\<close> on; an empty argument makes a string
  of the null pointer, which throws.
\<close>

definition get_metadata_begin :: "string \<Rightarrow> string option" where
  "get_metadata_begin str =
     (if str = [] then None
      else case find_sub ''finish'' str of None \<Rightarrow> Some [] | Some i \<Rightarrow> Some (drop i str))"

text \<open>
  \<open>sscanf(s, "%[^|]%*c%[^|]", id, path)\<close>, the outer option \<open>None\<close> when a field overruns its 100
  bytes, the inner when the first field is empty. Neither field ends at the end of the line, and
  \<open>path\<close> keeps its old text when the second field is empty.
\<close>

definition scan_fields :: "string \<Rightarrow> string \<Rightarrow> (string \<times> string) option option" where
  "scan_fields s path =
     (let fid = takeWhile (\<lambda>c. c \<noteq> CHR ''|'') s;
          fpath = takeWhile (\<lambda>c. c \<noteq> CHR ''|'') (drop (Suc (length fid)) s)
      in if fid = [] then Some None
         else if 99 < length fid \<or> 99 < length fpath then None
         else Some (Some (fid, if fpath = [] then path else fpath)))"

definition track_file :: "tparameters \<Rightarrow> string \<Rightarrow> string \<Rightarrow> string" where
  "track_file p path fid =
     playlist_path p @ ''/'' @ path @ ''/'' @ GetSubPath (c_atoi fid) @ ''/'' @ fid @ ''.'' @
       extension (aac_streamtype p)"

text \<open>The loop over the lines; the results are \<open>pl\<close> and \<open>m_received_counter\<close>.\<close>

definition PATH_MAX :: nat where "PATH_MAX = 4096"

definition change_step ::
  "files \<Rightarrow> tparameters \<Rightarrow> string \<Rightarrow> string \<Rightarrow> string list \<Rightarrow> nat \<Rightarrow>
     (string \<times> string list \<times> nat) option" where
  "change_step D p s path pl cnt =
     (case scan_fields s path of
        None \<Rightarrow> None
      | Some None \<Rightarrow> Some (path, pl, cnt)
      | Some (Some (fid, q)) \<Rightarrow>
          if c_atoi fid \<noteq> 0 \<and> q \<noteq> [] then
            let data = track_file p q fid in
            if PATH_MAX \<le> length data then None
            else Some (q, if stat_exists D data then pl @ [data] else pl, cnt + 1)
          else Some (q, pl, cnt))"

function change_loop ::
  "files \<Rightarrow> tparameters \<Rightarrow> string \<Rightarrow> string \<Rightarrow> string list \<Rightarrow> nat \<Rightarrow> (string list \<times> nat) option" where
  "change_loop D p s path pl cnt =
     (if s = [] then Some (pl, cnt)
      else
        case change_step D p s path pl cnt of
          None \<Rightarrow> None
        | Some (path', pl', cnt') \<Rightarrow>
            case get_endl s of
              None \<Rightarrow> Some (pl', cnt')
            | Some t \<Rightarrow> change_loop D p t path' pl' cnt')"
  by auto
termination
  by (relation "measure (\<lambda>(D, p, s, _). length s)") (auto intro: get_endl_less)

declare change_loop.simps [simp del]

definition received :: "files \<Rightarrow> tparameters \<Rightarrow> string \<Rightarrow> (string list \<times> nat) option" where
  "received D p m =
     (case get_metadata_begin m of
        None \<Rightarrow> None
      | Some b \<Rightarrow> (case get_endl b of None \<Rightarrow> Some ([], 0) | Some s \<Rightarrow> change_loop D p s [] [] 0))"

text \<open>
  \<open>set_change_playlist\<close>; \<open>can_write\<close>: the play file can be opened. Nothing to play leaves the
  old list and takes back the sign of a new one.
\<close>

definition set_change_playlist ::
  "bool \<Rightarrow> string \<Rightarrow> files \<Rightarrow> tparameters \<Rightarrow> (files \<times> tparameters) option" where
  "set_change_playlist can_write m D p =
     (case received D p m of
        None \<Rightarrow> None
      | Some (pl, cnt) \<Rightarrow>
          if pl = [] then Some (D, p\<lparr>new_playlist := False\<rparr>)
          else
            case pathname (playfile p) of
              None \<Rightarrow> None
            | Some a \<Rightarrow>
                if a = [] then None
                else Some (if can_write
                             then D(playfile p := Some (concat (map (\<lambda>t. t @ [nl]) pl))) else D,
                           p\<lparr>playlist := pl, new_playlist := True, playfile_exists := False\<rparr>))"


section \<open>What a list from the server gives\<close>

text \<open>A track in the answer: its number, its directory, and what the line has after the second bar.\<close>

type_synonym entry = "nat \<times> string \<times> string"

definition entry_line :: "entry \<Rightarrow> string" where
  "entry_line e = (case e of (i, q, r) \<Rightarrow> show_nat i @ CHR ''|'' # q @ CHR ''|'' # r @ [nl])"

definition entry_file :: "tparameters \<Rightarrow> entry \<Rightarrow> string" where
  "entry_file p e = (case e of (i, q, r) \<Rightarrow>
     playlist_path p @ ''/'' @ q @ ''/'' @ show_nat (i div 10000) @ ''/'' @ show_nat i @ ''.'' @
       extension (aac_streamtype p))"

definition entry_ok :: "tparameters \<Rightarrow> entry \<Rightarrow> bool" where
  "entry_ok p e = (case e of (i, q, r) \<Rightarrow>
     0 < i \<and> i < 2 ^ 31 \<and> q \<noteq> [] \<and> length q \<le> 99 \<and> CHR ''|'' \<notin> set q \<and> nl \<notin> set q \<and> nl \<notin> set r \<and>
     length (entry_file p e) < PATH_MAX)"

lemma show_nat_plain: "c \<in> set (show_nat n) \<Longrightarrow> c \<noteq> CHR ''|'' \<and> c \<noteq> nl"
  using show_nat_digits [of n] by (auto simp: c_isdigit_def code_def nl_def)

lemma atoi_show_nat: "n < 2 ^ 31 \<Longrightarrow> c_atoi (show_nat n) = int n"
  using c_atoi_show_int [of "int n" "[]"] by (simp add: int_range_def show_int_def)

lemma scan_entry:
  assumes "entry_ok p (i, q, r)"
  shows "scan_fields (entry_line (i, q, r) @ t) path = Some (Some (show_nat i, q))"
    and "get_endl (entry_line (i, q, r) @ t) = Some t"
proof -
  let ?s = "entry_line (i, q, r) @ t"
  have s: "?s = show_nat i @ CHR ''|'' # q @ CHR ''|'' # (r @ nl # t)"
    by (simp add: entry_line_def)
  have 1: "takeWhile (\<lambda>c. c \<noteq> CHR ''|'') ?s = show_nat i"
    unfolding s by (rule takeWhile_stop) (use show_nat_plain in blast)
  have 2: "takeWhile (\<lambda>c. c \<noteq> CHR ''|'') (drop (Suc (length (show_nat i))) ?s) = q"
    using assms unfolding s by (simp add: takeWhile_stop entry_ok_def)
  have "i < 10 ^ Suc 9" using assms by (simp add: entry_ok_def)
  from show_nat_length [OF this] show "scan_fields ?s path = Some (Some (show_nat i, q))"
    using assms unfolding scan_fields_def Let_def 1 2 by (simp add: entry_ok_def)
  have "nl \<notin> set (show_nat i @ CHR ''|'' # q @ CHR ''|'' # r)"
    using assms show_nat_plain by (auto simp: entry_ok_def nl_def)
  from get_endl_line [OF this, of t] show "get_endl ?s = Some t" unfolding s by simp
qed

lemma entry_track:
  assumes "entry_ok p (i, q, r)"
  shows "track_file p q (show_nat i) = entry_file p (i, q, r)"
proof -
  have "c_atoi (show_nat i) = int i" using assms by (simp add: entry_ok_def atoi_show_nat)
  moreover have "GetSubPath (int i) = show_nat (i div 10000)"
    using zdiv_int [of i 10000] by (simp add: GetSubPath_def c_div_nonneg show_int_def nat_div_distrib)
  ultimately show ?thesis by (simp add: track_file_def entry_file_def)
qed

lemma change_loop_entry:
  assumes "entry_ok p e"
  shows "change_loop D p (entry_line e @ t) path pl cnt =
     change_loop D p t (fst (snd e)) (pl @ filter (stat_exists D) [entry_file p e]) (cnt + 1)"
proof -
  obtain i q r where e: "e = (i, q, r)" by (metis prod_cases3)
  note ok = assms [unfolded e]
  have "entry_line (i, q, r) \<noteq> []" by (simp add: entry_line_def)
  moreover have "\<not> PATH_MAX \<le> length (entry_file p (i, q, r))" "c_atoi (show_nat i) \<noteq> 0" "q \<noteq> []"
    using ok by (auto simp: entry_ok_def atoi_show_nat)
  ultimately show ?thesis
    by (subst change_loop.simps)
      (simp add: e change_step_def scan_entry [OF ok] entry_track [OF ok] Let_def)
qed

lemma change_loop_entries:
  "(\<And>e. e \<in> set es \<Longrightarrow> entry_ok p e) \<Longrightarrow>
     change_loop D p (concat (map entry_line es)) path pl cnt =
       Some (pl @ filter (stat_exists D) (map (entry_file p) es), cnt + length es)"
proof (induction es arbitrary: path pl cnt)
  case Nil
  show ?case by (subst change_loop.simps) simp
qed (simp add: change_loop_entry)

lemma find_sub_occurs: "find_sub p (a @ p) \<noteq> None"
proof (induction a)
  case Nil
  show ?case using find_sub_prefix [of p "[]"] by simp
qed (cases p; simp)

lemma find_sub_first:
  "prefix p (drop (length pre) s) \<Longrightarrow> length pre \<le> length s \<Longrightarrow> take (length pre) s = pre \<Longrightarrow>
     (\<And>k. k < length pre \<Longrightarrow> \<not> prefix p (drop k s)) \<Longrightarrow> find_sub p s = Some (length pre)"
proof (induction pre arbitrary: s)
  case Nil
  then show ?case by (cases s) auto
next
  case (Cons a pre)
  then obtain x xs where s: "s = x # xs" by (cases s) auto
  have "\<not> prefix p (x # xs)" using Cons.prems(4) [of 0] s by simp
  moreover have "find_sub p xs = Some (length pre)"
  proof (rule Cons.IH)
    show "\<And>k. k < length pre \<Longrightarrow> \<not> prefix p (drop k xs)"
      using Cons.prems(4) [of "Suc _"] s by simp
  qed (use Cons.prems s in simp_all)
  ultimately show ?case by (simp add: s)
qed


text \<open>What any list taken from the server holds.\<close>

definition good_track :: "files \<Rightarrow> tparameters \<Rightarrow> string \<Rightarrow> bool" where
  "good_track D p t \<longleftrightarrow> stat_exists D t \<and> (\<exists>a. t = a @ CHR ''.'' # extension (aac_streamtype p))"

lemma change_step_good:
  "change_step D p s path pl cnt = Some (q, pl', cnt') \<Longrightarrow> \<forall>t \<in> set pl. good_track D p t \<Longrightarrow>
     \<forall>t \<in> set pl'. good_track D p t"
  by (auto simp: change_step_def good_track_def track_file_def Let_def
      split: option.splits if_splits)

lemma change_loop_good:
  "change_loop D p s path pl cnt = Some (pl', cnt') \<Longrightarrow> \<forall>t \<in> set pl. good_track D p t \<Longrightarrow>
     \<forall>t \<in> set pl'. good_track D p t"
proof (induction D p s path pl cnt arbitrary: pl' cnt' rule: change_loop.induct)
  case (1 D p s path pl cnt)
  show ?case
  proof (cases "s = []")
    case True
    then show ?thesis using "1.prems" by (simp add: change_loop.simps)
  next
    case False
    obtain q pl1 c1 where st: "change_step D p s path pl cnt = Some (q, pl1, c1)"
      using "1.prems"(1) False by (subst (asm) change_loop.simps) (auto split: option.splits)
    note good = change_step_good [OF st "1.prems"(2)]
    show ?thesis
    proof (cases "get_endl s")
      case None
      then show ?thesis
        using "1.prems"(1) False st good by (subst (asm) change_loop.simps) simp
    next
      case (Some t)
      then have "change_loop D p t q pl1 c1 = Some (pl', cnt')"
        using "1.prems"(1) False st by (subst (asm) change_loop.simps) simp
      from "1.IH" [OF False st _ _ Some this good] show ?thesis by simp
    qed
  qed
qed

text \<open>A player with one track on its disk, and an answer that names that track and another.\<close>

definition demo_par :: tparameters where
  "demo_par =
     \<lparr>aac_streamtype = False, playlist_path = ''/m'', playfile = ''/p/a.txt'', np_file = ''/n'',
      jingle_path = ''/j'', start_play_track = False, stop_play_track = False,
      last_track = False, new_playlist = False, get_titrs = False, playfile_exists = True,
      playfile_default = False, playlist = [''/old.mp3'']\<rparr>"

definition demo_disk :: files where "demo_disk = [''/m/x/0/7.mp3'' \<mapsto> ''A'']"

definition demo_entries :: "entry list" where
  "demo_entries = [(7, ''x'', []), (9, ''x'', ''t'')]"

definition demo_answer :: string where
  "demo_answer = ''ok '' @ ''finish'' @ '' 2'' @ nl # concat (map entry_line demo_entries)"

lemma set_change_entries:
  assumes "m = pre @ ''finish'' @ line @ nl # concat (map entry_line es)"
    and "\<And>k. k < length pre \<Longrightarrow> \<not> prefix ''finish'' (drop k m)"
    and "nl \<notin> set line" "\<And>e. e \<in> set es \<Longrightarrow> entry_ok p e"
    and "pathname (playfile p) = Some a" "a \<noteq> []"
    and "pl = filter (stat_exists D) (map (entry_file p) es)" "pl \<noteq> []"
  shows "set_change_playlist can_write m D p =
     Some (if can_write then D(playfile p := Some (concat (map (\<lambda>t. t @ [nl]) pl))) else D,
           p\<lparr>playlist := pl, new_playlist := True, playfile_exists := False\<rparr>)"
proof -
  have "find_sub ''finish'' m = Some (length pre)"
    using assms(1,2) by (intro find_sub_first) simp_all
  then have b: "get_metadata_begin m = Some (''finish'' @ line @ nl # concat (map entry_line es))"
    using assms(1) by (simp add: get_metadata_begin_def)
  have "nl \<notin> set (''finish'' @ line)" using assms(3) by (simp add: nl_def)
  from get_endl_line [OF this]
  have "get_endl (''finish'' @ line @ nl # concat (map entry_line es)) =
      Some (concat (map entry_line es))"
    by simp
  then have "received D p m = Some (pl, length es)"
    using assms(4,7) by (simp add: received_def b change_loop_entries)
  then show ?thesis using assms(5,6,8) by (simp add: set_change_playlist_def)
qed

section \<open>Properties\<close>

text \<open>
  C27. The player takes over what the server answers: from the lines after the one with \<open>finish\<close>,
  the tracks that are on the disk, in their order and under the path made of their directory and
  number. They are written to the play file, one line each.
\<close>

theorem change_playlist_takes_entries:
  assumes "m = pre @ ''finish'' @ line @ nl # concat (map entry_line es)"
    and "\<And>k. k < length pre \<Longrightarrow> \<not> prefix ''finish'' (drop k m)"
    and "nl \<notin> set line" "\<And>e. e \<in> set es \<Longrightarrow> entry_ok p e"
    and "pathname (playfile p) = Some a" "a \<noteq> []"
    and "pl = filter (stat_exists D) (map (entry_file p) es)" "pl \<noteq> []"
  shows "set_change_playlist can_write m D p =
     Some (if can_write then D(playfile p := Some (concat (map (\<lambda>t. t @ [nl]) pl))) else D,
           p\<lparr>playlist := pl, new_playlist := True, playfile_exists := False\<rparr>)"
  using assms by (rule set_change_entries)

theorem change_playlist_takes_entries_witness:
  "set_change_playlist True demo_answer demo_disk demo_par =
     Some (demo_disk(''/p/a.txt'' := Some (''/m/x/0/7.mp3'' @ [nl])),
           demo_par\<lparr>playlist := [''/m/x/0/7.mp3''], new_playlist := True, playfile_exists := False\<rparr>)"
proof -
  have early: "\<not> prefix ''finish'' (drop k demo_answer)" if "k < length ''ok ''" for k
  proof -
    have "\<forall>k \<in> {0, 1, 2}. \<not> prefix ''finish'' (drop k demo_answer)" by code_simp
    moreover have "k \<in> {0, 1, 2}" using that by auto
    ultimately show ?thesis by blast
  qed
  have "\<forall>e \<in> set demo_entries. entry_ok demo_par e"
    by (simp add: entry_ok_def entry_file_def demo_entries_def demo_par_def nl_def PATH_MAX_def
        extension_def show_nat.simps)
  then have ok: "entry_ok demo_par e" if "e \<in> set demo_entries" for e using that by blast
  have pl: "[''/m/x/0/7.mp3''] = filter (stat_exists demo_disk) (map (entry_file demo_par) demo_entries)"
    by code_simp
  have pn: "pathname (playfile demo_par) = Some ''/p/''" by code_simp
  show ?thesis
    using change_playlist_takes_entries [OF demo_answer_def early _ ok pn _ pl, of True]
    by (simp add: nl_def demo_par_def)
qed

text \<open>
  C26. A list taken over from the server survives a restart: the player that starts with the play file
  it wrote has the same list, and does not fall back on the jingles.
\<close>

theorem saved_playlist_reloads:
  assumes "set_change_playlist True m D p = Some (D', p')" "new_playlist p'"
    and "\<And>t. t \<in> set (playlist p') \<Longrightarrow> length t \<le> 255 \<and> nl \<notin> set t"
  shows "\<exists>q. Tparameters_new D' jingles (aac_streamtype p) path (playfile p) npf jingle = Some q \<and>
     playlist q = playlist p' \<and> playfile_exists q \<and> \<not> playfile_default q"
proof -
  obtain pl cnt where r: "received D p m = Some (pl, cnt)" "pl \<noteq> []" "playlist p' = pl"
    "D' = D(playfile p := Some (concat (map (\<lambda>t. t @ [nl]) pl)))"
    using assms(1,2) by (auto simp: set_change_playlist_def split: option.splits if_splits)
  have good: "\<forall>t \<in> set pl. good_track D p t"
    using r(1,2) change_loop_good [of D p _ "[]" "[]" 0 pl cnt]
    by (auto simp: received_def split: option.splits)
  have lines: "getlines (concat (map (\<lambda>t. t @ [nl]) pl)) = pl @ [[]]"
    using assms(3) r(3) by (intro getlines_all) auto
  have keep: "find_sub (CHR ''.'' # extension (aac_streamtype p)) t \<noteq> None \<and> stat_exists D' t"
    if "t \<in> set pl" for t
    using that good r(2,4) find_sub_occurs
    by (fastforce simp: good_track_def stat_exists)
  have "find_sub (CHR ''.'' # extension (aac_streamtype p)) [] = None" by simp
  with keep have f: "filter (\<lambda>l. find_sub (CHR ''.'' # extension (aac_streamtype p)) l \<noteq> None \<and>
      stat_exists D' l) (getlines (concat (map (\<lambda>t. t @ [nl]) pl))) = pl"
    unfolding lines by (simp add: filter_id_conv)
  show ?thesis
    using f r(2-4) by (simp add: Tparameters_new_def check_playlist_def Let_def)
qed

theorem saved_playlist_reloads_witness:
  "\<exists>D' p' q. set_change_playlist True demo_answer demo_disk demo_par = Some (D', p') \<and>
     Tparameters_new D' None False ''/m'' ''/p/a.txt'' ''/n'' ''/j'' = Some q \<and>
     playlist q = [''/m/x/0/7.mp3''] \<and> playlist q = playlist p' \<and> \<not> playfile_default q"
proof -
  let ?D = "demo_disk(''/p/a.txt'' := Some (''/m/x/0/7.mp3'' @ [nl]))"
  let ?p = "demo_par\<lparr>playlist := [''/m/x/0/7.mp3''], new_playlist := True, playfile_exists := False\<rparr>"
  have r: "received demo_disk demo_par demo_answer = Some ([''/m/x/0/7.mp3''], 2)" by code_simp
  have pn: "pathname ''/p/a.txt'' = Some ''/p/''" by code_simp
  have c: "set_change_playlist True demo_answer demo_disk demo_par = Some (?D, ?p)"
  proof -
    have "playfile demo_par = ''/p/a.txt''" by (simp add: demo_par_def)
    then show ?thesis unfolding set_change_playlist_def r by (simp add: pn)
  qed
  have "\<exists>q. Tparameters_new ?D None (aac_streamtype demo_par) ''/m'' (playfile demo_par) ''/n'' ''/j'' =
      Some q \<and> playlist q = playlist ?p \<and> playfile_exists q \<and> \<not> playfile_default q"
    by (rule saved_playlist_reloads [OF c]) (simp_all add: nl_def)
  then show ?thesis using c by (auto simp: demo_par_def)
qed

end
