(* ===== verification/Playlist.thy ===== *)
theory Playlist
  imports Complex_Main Frames Socket Parameters
begin

text \<open>
  \<open>accordion_V10.X/playlist.cpp\<close>: the player. It takes the files of its list in turn, asks
  the reader of the stream's format for their frames (\<open>fmt\<close>: the table of function pointers
  set up by the constructor), and sends them over one connection to the icecast server, to which
  it first introduces itself with a header. The loop of \<open>start\<close> is cut into phases: taking a
  file, one turn of the inner loop, the end of a file. What the network does in one turn is a
  \<open>turn\<close>. The threads that fetch new lists work on the shared parameters between the phases.

  The iterator into \<open>std::list\<close> is a position in the list. Log output is left out.
\<close>

section \<open>The state\<close>

record tfile_info =
  fi_spf :: int
  fi_simple_frequency :: int
  fi_frames :: int
  fi_bitrate :: rat
  fi_channel_configuration :: int
  fi_frames_to_read :: int
  fi_play_time :: int
  fi_icecast_sample_rate :: int

text \<open>
  The reader's functions; \<open>'r\<close> is its state. \<open>fmt_GetFileInfo\<close> gives \<open>None\<close> when it does
  not return.
\<close>

record 'r fmt =
  fmt_GetFileInfo :: "string \<Rightarrow> tfile_info \<Rightarrow> 'r \<Rightarrow> (int \<times> tfile_info \<times> 'r) option"
  fmt_start_play :: "'r \<Rightarrow> bool \<times> 'r"
  fmt_GetFrames :: "'r \<Rightarrow> byte list \<times> 'r"
  fmt_stop_play :: "'r \<Rightarrow> 'r"

text \<open>What \<open>tconfig\<close> tells the player.\<close>

record tplayer_config =
  c_npfile :: string
  c_header :: string
  c_update_meta_data :: bool
  c_can_save :: bool

text \<open>
  \<open>wires\<close> holds what was put on each connection, the newest first. \<open>queries\<close> and
  \<open>titles\<close> are the threads started: requests for a new list, and metadata of a file.
\<close>

record 'r player =
  play_list :: "string list"
  it_playlist :: nat
  config_error :: bool
  ev_header :: bool
  info :: tfile_info
  frames_sent :: int
  client :: tclient
  reader :: 'r
  params :: tparameters
  disk :: files
  wires :: "string list"
  queries :: nat
  titles :: "(string \<times> int) list"

record turn =
  n_fd :: int
  n_resolved :: bool
  n_con :: "nat \<Rightarrow> connect_result"
  n_head :: "send_result list"
  n_answer :: recv_result
  n_body :: "send_result list"

text \<open>Where the player stands; \<open>Feed f n\<close>: in the inner loop for \<open>f\<close> with \<open>res = n\<close>.\<close>

datatype phase = Select | Feed string nat | Finished | Stopped | Crashed

section \<open>The saved position\<close>

text \<open>\<open>save_idx\<close>; \<open>None\<close> when there is no directory to make.\<close>

definition save_idx :: "tplayer_config \<Rightarrow> nat \<Rightarrow> files \<Rightarrow> files option" where
  "save_idx c idx D =
     (case pathname (c_npfile c) of
        None \<Rightarrow> None
      | Some a \<Rightarrow> if a = [] then None
                  else Some (if c_can_save c then D(c_npfile c \<mapsto> show_nat idx) else D))"

definition load_idx :: "tplayer_config \<Rightarrow> files \<Rightarrow> int" where
  "load_idx c D = (case D (c_npfile c) of None \<Rightarrow> 0 | Some s \<Rightarrow> c_atoi (fst (fgets 255 s)))"

section \<open>The list\<close>

definition playlist_clear :: "'r player \<Rightarrow> 'r player" where
  "playlist_clear s = s\<lparr>play_list := []\<rparr>"

definition load_playlist :: "'r player \<Rightarrow> 'r player" where
  "load_playlist s =
     (let (pl, p) = update_playlist [] (params s)
      in s\<lparr>play_list := pl, params := p, config_error := (pl = []), it_playlist := 0\<rparr>)"

text \<open>A position before the start of the list is undefined.\<close>

definition advance_iterator :: "tplayer_config \<Rightarrow> 'r player \<Rightarrow> 'r player option" where
  "advance_iterator c s =
     (let idx = load_idx c (disk s)
      in if idx < - 1 then None
         else Some (s\<lparr>it_playlist :=
             (if idx \<noteq> 0 \<and> idx + 1 < int (length (play_list s)) then nat (idx + 1) else 0)\<rparr>))"

text \<open>\<open>get_next_iterator\<close>: at the end a new list is asked for and the old one starts again.\<close>

definition get_next_iterator :: "'r player \<Rightarrow> nat \<times> 'r player" where
  "get_next_iterator s =
     (if it_playlist s + 1 = length (play_list s) then (0, s\<lparr>queries := queries s + 1\<rparr>)
      else (it_playlist s + 1, s))"

definition remove_nth :: "nat \<Rightarrow> 'a list \<Rightarrow> 'a list" where
  "remove_nth i xs = take i xs @ drop (Suc i) xs"

definition erase_idx :: "'r player \<Rightarrow> 'r player" where
  "erase_idx s =
     (let pl = remove_nth (it_playlist s) (play_list s)
      in s\<lparr>play_list := pl,
           it_playlist := (if it_playlist s = length pl then 0 else it_playlist s)\<rparr>)"

section \<open>The header\<close>

text \<open>
  \<open>sprintf\<close> with \<open>%i\<close> alone; any other conversion, or one without an argument, is undefined.
\<close>

fun sprintf_i :: "string \<Rightarrow> int list \<Rightarrow> string option" where
  "sprintf_i [] as = Some []"
| "sprintf_i (c # s) as =
     (if c \<noteq> CHR ''%'' then map_option ((#) c) (sprintf_i s as)
      else case s of
             [] \<Rightarrow> None
           | d # s' \<Rightarrow>
               if d = CHR ''%'' then map_option ((#) d) (sprintf_i s' as)
               else if d = CHR ''i'' \<and> as \<noteq> []
                    then map_option ((@) (show_int (hd as))) (sprintf_i s' (tl as))
                    else None)"

definition header_text :: "tplayer_config \<Rightarrow> tfile_info \<Rightarrow> string option" where
  "header_text c fi =
     sprintf_i (c_header c)
       [\<lfloor>fi_bitrate fi\<rfloor>, fi_channel_configuration fi, fi_simple_frequency fi]"

section \<open>The loop\<close>

definition set_rate :: "int \<Rightarrow> 'r player \<Rightarrow> 'r player" where
  "set_rate r s = s\<lparr>info := (info s)\<lparr>fi_icecast_sample_rate := r\<rparr>\<rparr>"

definition put_wire :: "string \<Rightarrow> 'r player \<Rightarrow> 'r player" where
  "put_wire w s = s\<lparr>wires := w # tl (wires s)\<rparr>"

text \<open>\<open>net_connect\<close>: a connection that is made begins a wire.\<close>

definition connect_turn :: "turn \<Rightarrow> 'r player \<Rightarrow> bool \<times> 'r player" where
  "connect_turn e s =
     (let (ok, t, _) = net_connect (n_fd e) (n_resolved e) (n_con e) (client s)
      in (ok, s\<lparr>client := t,
               wires := (if f_connected t \<and> \<not> f_connected (client s) then [] # wires s
                         else wires s)\<rparr>))"

definition clear_connection_counter :: "tclient \<Rightarrow> tclient" where
  "clear_connection_counter t = t\<lparr>connection_counter := 0\<rparr>"

text \<open>
  The start of a turn of the outer loop. \<open>strdup\<close> of the null pointer that
  \<open>get_current_file\<close> gives at the end of the list crashes.
\<close>

definition select_step ::
  "tplayer_config \<Rightarrow> 'r fmt \<Rightarrow> 'r player \<Rightarrow> (phase \<times> 'r player) option" where
  "select_step c F s =
     (if play_list s = [] then Some (Stopped, s)
      else if length (play_list s) \<le> it_playlist s then Some (Crashed, s)
      else
        let filename = play_list s ! it_playlist s in
        case save_idx c (it_playlist s) (disk s) of
          None \<Rightarrow> Some (Crashed, s)
        | Some D \<Rightarrow>
            case fmt_GetFileInfo F filename (info s) (reader s) of
              None \<Rightarrow> None
            | Some (res, fi, r) \<Rightarrow>
                let s1 = s\<lparr>frames_sent := 0, disk := D, info := fi, reader := r\<rparr> in
                if res = - 1 then Some (Select, erase_idx s1)
                else
                  let (ok, r') = fmt_start_play F r; s2 = s1\<lparr>reader := r'\<rparr> in
                  if \<not> ok then Some (Select, erase_idx s2)
                  else if fi_icecast_sample_rate fi = - 1
                       then Some (Feed filename 0, set_rate (fi_simple_frequency fi) s2)
                  else if fi_icecast_sample_rate fi \<noteq> fi_simple_frequency fi
                       then Some (Select, erase_idx s2)
                  else Some (Feed filename 0, s2))"

text \<open>
  The header, when it is due: \<open>Some (verdict, s')\<close>, where \<open>Retry\<close> is the \<open>continue\<close> after a
  failed \<open>net_send\<close> and \<open>Refused_200\<close> the \<open>break\<close> after an answer without 200.
\<close>

datatype verdict = Proceed | Retry | Refused_200

definition header_step ::
  "tplayer_config \<Rightarrow> turn \<Rightarrow> 'r player \<Rightarrow> (verdict \<times> 'r player) option" where
  "header_step c e s =
     (if \<not> ev_header s then Some (Proceed, s)
      else
        case header_text c (info s) of
          None \<Rightarrow> None
        | Some v \<Rightarrow>
            case net_send (n_head e) v (hd (wires s)) (client s) of
              None \<Rightarrow> None
            | Some (ok, t, w, _) \<Rightarrow>
                let s1 = (if f_connected (client s) then put_wire w s else s)\<lparr>client := t\<rparr> in
                if \<not> ok then Some (Retry, s1)
                else
                  let (yes, t') = net_recv_match (n_answer e) ''200'' t; s2 = s1\<lparr>client := t'\<rparr> in
                  if yes then Some (Proceed, s2\<lparr>ev_header := False\<rparr>)
                  else Some (Refused_200, playlist_clear s2))"

text \<open>The block for \<open>res == 0\<close>: the metadata of the file, and the position after it.\<close>

definition begin_track :: "tplayer_config \<Rightarrow> string \<Rightarrow> 'r player \<Rightarrow> 'r player" where
  "begin_track c filename s =
     (let s0 = (if f_connected (client s) \<and> c_update_meta_data c
                then s\<lparr>titles := titles s @ [(filename, fi_play_time (info s))]\<rparr> else s);
          (it, s1) = get_next_iterator s0
      in s1\<lparr>it_playlist := it\<rparr>)"

text \<open>The rest of the inner loop's body.\<close>

definition frames_step ::
  "tplayer_config \<Rightarrow> 'r fmt \<Rightarrow> turn \<Rightarrow> string \<Rightarrow> nat \<Rightarrow> 'r player \<Rightarrow> (phase \<times> 'r player) option" where
  "frames_step c F e filename res s =
     (let s1 = (if res = 0 then begin_track c filename s else s);
          (b, r) = fmt_GetFrames F (reader s1);
          s2 = s1\<lparr>reader := r\<rparr>
      in if b = [] then Some (Finished, s2)
         else
           case net_send (n_body e) (chars b) (hd (wires s2)) (client s2) of
             None \<Rightarrow> None
           | Some (ok, t, w, _) \<Rightarrow>
               let s3 = (if f_connected (client s2) then put_wire w s2 else s2)\<lparr>client := t\<rparr> in
               Some (Feed filename (length b),
                     if ok then s3\<lparr>frames_sent := frames_sent s3 + fi_frames_to_read (info s3)\<rparr>
                     else s3))"

definition feed_step ::
  "tplayer_config \<Rightarrow> 'r fmt \<Rightarrow> turn \<Rightarrow> string \<Rightarrow> nat \<Rightarrow> 'r player \<Rightarrow> (phase \<times> 'r player) option" where
  "feed_step c F e filename res s =
     (let s1 = (if f_connected (client s) then s
                else (set_rate (- 1) s)
                       \<lparr>ev_header := True, client := clear_connection_counter (client s)\<rparr>);
          (ok, s2) = connect_turn e s1
      in if \<not> ok then Some (Finished, s2)
         else
           case header_step c e s2 of
             None \<Rightarrow> None
           | Some (Retry, s3) \<Rightarrow> Some (Feed filename res, s3)
           | Some (Refused_200, s3) \<Rightarrow> Some (Finished, s3)
           | Some (Proceed, s3) \<Rightarrow> frames_step c F e filename res s3)"

definition finish_step :: "'r fmt \<Rightarrow> 'r player \<Rightarrow> phase \<times> 'r player" where
  "finish_step F s =
     (let s1 = s\<lparr>reader := fmt_stop_play F (reader s)\<rparr>
      in if \<not> f_connected (client s1) then (Stopped, s1)
         else (Select, if get_new_playlist (params s1) then load_playlist s1 else s1))"

definition step ::
  "tplayer_config \<Rightarrow> 'r fmt \<Rightarrow> turn \<Rightarrow> phase \<times> 'r player \<Rightarrow> (phase \<times> 'r player) option" where
  "step c F e ps =
     (case ps of
        (Select, s) \<Rightarrow> select_step c F s
      | (Feed f n, s) \<Rightarrow> feed_step c F e f n s
      | (Finished, s) \<Rightarrow> Some (finish_step F s)
      | _ \<Rightarrow> None)"

text \<open>
  What comes before the loop: the constructor's \<open>load_playlist\<close>, and in \<open>start\<close> the
  position and the first connection. \<open>fmt_Create\<close> is the reader's initial state.
\<close>

definition TPlaylist_new :: "tclient \<Rightarrow> 'r \<Rightarrow> tparameters \<Rightarrow> files \<Rightarrow> 'r player" where
  "TPlaylist_new t r p D =
     load_playlist
       \<lparr>play_list = [], it_playlist = 0, config_error = False, ev_header = False,
        info = \<lparr>fi_spf = 0, fi_simple_frequency = 0, fi_frames = 0, fi_bitrate = 0,
                fi_channel_configuration = 0, fi_frames_to_read = 0, fi_play_time = 0,
                fi_icecast_sample_rate = 0\<rparr>,
        frames_sent = 0, client = t, reader = r, params = p, disk = D, wires = [], queries = 0,
        titles = []\<rparr>"

definition start_position :: "tplayer_config \<Rightarrow> 'r player \<Rightarrow> 'r player option" where
  "start_position c s =
     (if playfile_exists (params s) then advance_iterator c s else Some (s\<lparr>it_playlist := 0\<rparr>))"

definition start :: "tplayer_config \<Rightarrow> turn \<Rightarrow> 'r player \<Rightarrow> phase \<times> 'r player" where
  "start c e s =
     (if play_list s = [] then (Stopped, s)
      else
        case start_position c s of
          None \<Rightarrow> (Crashed, s)
        | Some s1 \<Rightarrow>
            case save_idx c (it_playlist s1) (disk s1) of
              None \<Rightarrow> (Crashed, s1)
            | Some D \<Rightarrow>
                let (ok, s2) = connect_turn e (s1\<lparr>disk := D\<rparr>)
                in if ok then (Select, (set_rate (- 1) s2)
                       \<lparr>ev_header := True, client := clear_connection_counter (client s2)\<rparr>)
                   else (Stopped, playlist_clear s2))"

end
