(* ===== verification/Player_Run.thy ===== *)
theory Player_Run
  imports Playlist
begin

text \<open>
  What the player does, turn by turn. \<open>run\<close> follows one schedule of network turns;
  \<open>player_step\<close> is the player among the threads that take over new lists, of which invariants
  are shown for every state that can be reached. \<open>good_tracks\<close> is what the player relies on in
  the readers; under it the player refines an endless cyclic reading of its list.
\<close>

section \<open>Runs\<close>

primrec run ::
  "tplayer_config \<Rightarrow> 'r fmt \<Rightarrow> (nat \<Rightarrow> turn) \<Rightarrow> nat \<Rightarrow> phase \<times> 'r player \<Rightarrow> (phase \<times> 'r player) option"
where
  "run c F t 0 ps = Some ps"
| "run c F t (Suc n) ps =
     (case step c F (t 0) ps of None \<Rightarrow> None | Some ps' \<Rightarrow> run c F (\<lambda>i. t (Suc i)) n ps')"

lemma run_append:
  "run c F t m ps = Some ps' \<Longrightarrow> run c F t (m + n) ps = run c F (\<lambda>i. t (m + i)) n ps'"
  by (induction m arbitrary: t ps) (auto split: option.splits)

lemma run_Suc: "step c F (t 0) ps = Some ps' \<Longrightarrow> run c F t (Suc n) ps = run c F (\<lambda>i. t (Suc i)) n ps'"
  by simp

inductive player_step ::
  "tplayer_config \<Rightarrow> 'r fmt \<Rightarrow> phase \<times> 'r player \<Rightarrow> phase \<times> 'r player \<Rightarrow> bool" for c F where
  own: "step c F e ps = Some ps' \<Longrightarrow> player_step c F ps ps'"
| new_list: "set_change_playlist w m (disk s) (params s) = Some (D, p) \<Longrightarrow>
    player_step c F (ph, s) (ph, s\<lparr>disk := D, params := p\<rparr>)"

inductive_cases player_stepE: "player_step c F ps ps'"

definition reachable ::
  "tplayer_config \<Rightarrow> 'r fmt \<Rightarrow> turn \<Rightarrow> 'r player \<Rightarrow> phase \<times> 'r player \<Rightarrow> bool" where
  "reachable c F e s ps \<longleftrightarrow> (player_step c F)\<^sup>*\<^sup>* (start c e s) ps"

text \<open>An invariant of the player's own steps that the other threads cannot touch.\<close>

lemma reachable_invariant:
  assumes "reachable c F e s ps" "I (start c e s)"
    and "\<And>e ps ps'. I ps \<Longrightarrow> step c F e ps = Some ps' \<Longrightarrow> I ps'"
    and "\<And>ph s D p. I (ph, s) \<Longrightarrow> I (ph, s\<lparr>disk := D, params := p\<rparr>)"
  shows "I ps"
  using assms(1) unfolding reachable_def
proof (induction rule: rtranclp_induct)
  case (step ps ps')
  from step.hyps(2) step.IH show ?case by (auto elim!: player_stepE intro: assms(3,4))
qed (rule assms(2))

lemma run_reachable:
  "run c F t n ps = Some ps' \<Longrightarrow> (player_step c F)\<^sup>*\<^sup>* ps ps'"
proof (induction n arbitrary: t ps)
  case (Suc n)
  then obtain q where "step c F (t 0) ps = Some q" "run c F (\<lambda>i. t (Suc i)) n q = Some ps'"
    by (auto split: option.splits)
  then show ?case using Suc.IH by (meson converse_rtranclp_into_rtranclp own)
qed simp

section \<open>The position stays in the list\<close>

definition in_list :: "'r player \<Rightarrow> bool" where
  "in_list s \<longleftrightarrow> play_list s = [] \<or> it_playlist s < length (play_list s)"

definition has_dir :: "tplayer_config \<Rightarrow> bool" where
  "has_dir c \<longleftrightarrow> (\<exists>a. pathname (c_npfile c) = Some a \<and> a \<noteq> [])"

lemma save_idx_dir: "has_dir c \<Longrightarrow> \<exists>D'. save_idx c i D = Some D'"
  by (auto simp: has_dir_def save_idx_def)

lemma in_list_erase: "in_list s \<Longrightarrow> play_list s \<noteq> [] \<Longrightarrow> in_list (erase_idx s)"
  by (auto simp: in_list_def erase_idx_def remove_nth_def Let_def)

lemma in_list_load: "in_list (load_playlist s)"
  by (simp add: in_list_def load_playlist_def split: prod.splits)

lemma begin_track_simps [simp]:
  "play_list (begin_track c f s) = play_list s"
  "it_playlist (begin_track c f s) =
     (if it_playlist s + 1 = length (play_list s) then 0 else it_playlist s + 1)"
  "client (begin_track c f s) = client s" "wires (begin_track c f s) = wires s"
  "ev_header (begin_track c f s) = ev_header s" "info (begin_track c f s) = info s"
  "params (begin_track c f s) = params s" "disk (begin_track c f s) = disk s"
  "reader (begin_track c f s) = reader s"
  by (auto simp: begin_track_def get_next_iterator_def Let_def)

lemma in_list_begin: "in_list s \<Longrightarrow> in_list (begin_track c f s)"
  by (auto simp: in_list_def)

text \<open>The parts of a turn that leave the list and the position alone.\<close>

lemma set_rate_list [simp]:
  "play_list (set_rate r s) = play_list s" "it_playlist (set_rate r s) = it_playlist s"
  "client (set_rate r s) = client s" "wires (set_rate r s) = wires s"
  "ev_header (set_rate r s) = ev_header s"
  "fi_icecast_sample_rate (info (set_rate r s)) = r"
  "fi_simple_frequency (info (set_rate r s)) = fi_simple_frequency (info s)"
  "params (set_rate r s) = params s" "disk (set_rate r s) = disk s"
  "reader (set_rate r s) = reader s"
  by (simp_all add: set_rate_def)

lemma put_wire_simps [simp]:
  "play_list (put_wire w s) = play_list s" "it_playlist (put_wire w s) = it_playlist s"
  "client (put_wire w s) = client s" "wires (put_wire w s) = w # tl (wires s)"
  "ev_header (put_wire w s) = ev_header s" "info (put_wire w s) = info s"
  "params (put_wire w s) = params s" "disk (put_wire w s) = disk s"
  "reader (put_wire w s) = reader s"
  by (simp_all add: put_wire_def)

lemma connect_turn_list:
  "connect_turn e s = (ok, s') \<Longrightarrow>
     play_list s' = play_list s \<and> it_playlist s' = it_playlist s \<and> ev_header s' = ev_header s \<and>
     info s' = info s \<and> params s' = params s \<and> disk s' = disk s \<and> reader s' = reader s"
  by (auto simp: connect_turn_def split: prod.splits)

lemma header_step_list:
  "header_step c e s = Some (v, s') \<Longrightarrow>
     it_playlist s' = it_playlist s \<and>
     play_list s' = (if v = Refused_200 then [] else play_list s)"
  by (auto simp: header_step_def playlist_clear_def Let_def split: if_splits option.splits prod.splits)

lemma frames_step_list:
  assumes "frames_step c F e f res s = Some (ph, s')" "in_list s"
  shows "in_list s' \<and> ph \<noteq> Crashed"
proof -
  define s1 where "s1 = (if res = 0 then begin_track c f s else s)"
  have "in_list s1" using assms(2) by (simp add: s1_def in_list_begin)
  then show ?thesis using assms(1)
    by (auto simp: frames_step_def Let_def in_list_def simp flip: s1_def
        split: if_splits option.splits prod.splits)
qed

lemma feed_step_list:
  assumes "feed_step c F e f res s = Some (ph, s')" "in_list s"
  shows "in_list s' \<and> ph \<noteq> Crashed"
proof -
  define s1 where "s1 = (if f_connected (client s) then s
    else (set_rate (- 1) s)\<lparr>ev_header := True, client := clear_connection_counter (client s)\<rparr>)"
  obtain ok s2 where 2: "connect_turn e s1 = (ok, s2)" by fastforce
  have "in_list s1" using assms(2) by (simp add: s1_def in_list_def)
  then have l2: "in_list s2" using connect_turn_list [OF 2] by (simp add: in_list_def)
  show ?thesis
  proof (cases ok)
    case False
    then show ?thesis using assms(1) 2 l2 by (simp add: feed_step_def flip: s1_def)
  next
    case True
    then obtain v s3 where 3: "header_step c e s2 = Some (v, s3)"
      using assms(1) 2 by (auto simp: feed_step_def simp flip: s1_def split: option.splits)
    from header_step_list [OF 3] l2 have "in_list s3" by (auto simp: in_list_def)
    then show ?thesis using assms(1) 2 3 True frames_step_list [of c F e f res s3 ph s']
      by (auto simp: feed_step_def simp flip: s1_def split: verdict.splits)
  qed
qed

lemma select_step_list:
  assumes "select_step c F s = Some (ph, s')" "in_list s" "has_dir c"
  shows "in_list s' \<and> ph \<noteq> Crashed"
proof (cases "play_list s = []")
  case True
  then show ?thesis using assms by (simp add: select_step_def)
next
  case False
  then have i: "it_playlist s < length (play_list s)" using assms(2) by (simp add: in_list_def)
  obtain D where D: "save_idx c (it_playlist s) (disk s) = Some D"
    using save_idx_dir [OF assms(3)] by blast
  have e: "in_list (erase_idx s1)" if "play_list s1 = play_list s" "it_playlist s1 = it_playlist s"
    for s1 :: "'a player" using that assms(2) False by (intro in_list_erase) (simp_all add: in_list_def)
  have l: "in_list s1" if "play_list s1 = play_list s" "it_playlist s1 = it_playlist s"
    for s1 :: "'a player" using that assms(2) by (simp add: in_list_def)
  show ?thesis using assms(1) False i D
    by (auto simp: select_step_def Let_def e l split: if_splits option.splits prod.splits)
qed

lemma step_list:
  assumes "step c F e (ph, s) = Some (ph', s')" "in_list s" "has_dir c"
  shows "in_list s' \<and> ph' \<noteq> Crashed"
proof (cases ph)
  case Select
  then show ?thesis using assms select_step_list by (simp add: step_def)
next
  case (Feed f n)
  then show ?thesis using assms feed_step_list by (simp add: step_def)
next
  case Finished
  have "in_list (s\<lparr>reader := r\<rparr>)" for r using assms(2) by (simp add: in_list_def)
  then show ?thesis using assms Finished
    by (auto simp: step_def finish_step_def Let_def in_list_load split: if_splits)
qed (use assms in \<open>simp_all add: step_def\<close>)


lemma start_list:
  assumes "start c e s = (ph, s')" "has_dir c" "0 \<le> load_idx c (disk s)"
  shows "in_list s' \<and> ph \<noteq> Crashed"
proof (cases "play_list s = []")
  case True
  then show ?thesis using assms(1) by (simp add: start_def in_list_def)
next
  case False
  have "\<exists>s1. start_position c s = Some s1 \<and> play_list s1 = play_list s \<and>
      it_playlist s1 < length (play_list s)"
    using False assms(3)
    by (cases "playfile_exists (params s)")
      (auto simp: start_position_def advance_iterator_def Let_def)
  then obtain s1 where s1: "start_position c s = Some s1" "play_list s1 = play_list s"
    "it_playlist s1 < length (play_list s)" by blast
  obtain D where D: "save_idx c (it_playlist s1) (disk s1) = Some D"
    using save_idx_dir [OF assms(2)] by blast
  obtain ok s2 where 2: "connect_turn e (s1\<lparr>disk := D\<rparr>) = (ok, s2)" by fastforce
  then have "play_list s2 = play_list s" "it_playlist s2 = it_playlist s1"
    using s1(2) connect_turn_list [OF 2] by simp_all
  then show ?thesis using assms(1) False s1 D 2
    by (auto simp: start_def in_list_def playlist_clear_def split: if_splits)
qed

section \<open>Nothing is sent before the header\<close>

text \<open>What may stand on a connection.\<close>

definition introduced :: "tplayer_config \<Rightarrow> string \<Rightarrow> bool" where
  "introduced c w \<longleftrightarrow>
     w = [] \<or> (\<exists>fi h. header_text c fi = Some h \<and> (prefix w h \<or> prefix h w))"

definition header_first :: "tplayer_config \<Rightarrow> 'r player \<Rightarrow> bool" where
  "header_first c s \<longleftrightarrow>
     (\<forall>w \<in> set (wires s). introduced c w) \<and>
     (f_connected (client s) \<longrightarrow> wires s \<noteq> [] \<and>
        (ev_header s \<and> hd (wires s) = []
         \<or> (\<exists>fi h. header_text c fi = Some h \<and> prefix h (hd (wires s)))))"

lemma header_first_cong:
  "wires s' = wires s \<Longrightarrow> client s' = client s \<Longrightarrow> ev_header s' = ev_header s \<Longrightarrow>
     header_first c s' = header_first c s"
  by (simp add: header_first_def)

lemma header_first_connect:
  assumes "header_first c s" "connect_turn e s = (ok, s')"
    and "f_connected (client s) \<or> ev_header s"
  shows "header_first c s'"
  using assms
  by (auto simp: header_first_def connect_turn_def introduced_def net_connect_def Let_def
      split: if_splits prod.splits)

lemma net_send_wire:
  "net_send cs b w t = Some (ok, t', w', cs') \<Longrightarrow> f_connected t \<Longrightarrow>
     \<exists>p. w' = w @ p \<and> prefix p b \<and> (ok \<longrightarrow> p = b \<and> t' = t) \<and> (\<not> ok \<longrightarrow> \<not> f_connected t')"
  by (auto simp: net_send_def net_close_def strict_prefix_def dest!: send_loop_wire split: if_splits)

lemma net_send_closed: "net_send cs b w t = Some (ok, t', w', cs') \<Longrightarrow> \<not> f_connected t \<Longrightarrow> \<not> ok \<and> t' = t"
  by (simp add: net_send_def)

lemma net_recv_client:
  "net_recv_match r x t = (yes, t') \<Longrightarrow> t' = t \<or> \<not> f_connected t'"
  by (auto simp: net_recv_match_def net_close_def split: recv_result.splits if_splits)

lemma header_first_header:
  assumes "header_first c s" "header_step c e s = Some (v, s')"
  shows "header_first c s'"
proof (cases "ev_header s")
  case False
  then show ?thesis using assms by (simp add: header_step_def)
next
  case True
  obtain h where h: "header_text c (info s) = Some h"
    using assms(2) True by (auto simp: header_step_def split: option.splits)
  obtain ok t w cs where n: "net_send (n_head e) h (hd (wires s)) (client s) = Some (ok, t, w, cs)"
    using assms(2) True h by (auto simp: header_step_def split: option.splits)
  show ?thesis
  proof (cases "f_connected (client s)")
    case False
    then show ?thesis using assms True h n net_send_closed [OF n False]
      by (auto simp: header_step_def header_first_def)
  next
    case con: True
    obtain p where p: "w = hd (wires s) @ p" "prefix p h" "ok \<longrightarrow> p = h \<and> t = client s"
      "\<not> ok \<longrightarrow> \<not> f_connected t"
      using net_send_wire [OF n con] by blast
    have w: "hd (wires s) = [] \<or> (\<exists>fi g. header_text c fi = Some g \<and> prefix g (hd (wires s)))"
      using assms(1) con by (auto simp: header_first_def)
    have i: "introduced c w"
      using w p(1,2) h unfolding introduced_def by (metis append_Nil prefix_prefix)
    have k: "\<exists>fi g. header_text c fi = Some g \<and> prefix g w" if ok
      using w p(1,3) h that by (metis append_Nil prefix_order.refl prefix_prefix)
    have "set (tl (wires s)) \<subseteq> set (wires s)" by (cases "wires s") auto
    then have all: "\<forall>x \<in> set (w # tl (wires s)). introduced c x"
      using i assms(1) by (auto simp: header_first_def)
    show ?thesis
    proof (cases ok)
      case False
      then show ?thesis using assms(2) True h n con p(4) all
        by (auto simp: header_step_def header_first_def)
    next
      case ok: True
      obtain yes t' where r: "net_recv_match (n_answer e) ''200'' t = (yes, t')" by fastforce
      show ?thesis using assms(2) True h n con ok r all k [OF ok]
        by (auto simp: header_step_def header_first_def playlist_clear_def Let_def split: if_splits)
    qed
  qed
qed

lemma header_first_frames:
  assumes "header_first c s" "frames_step c F e f res s = Some (ph, s')"
    and "f_connected (client s) \<longrightarrow> \<not> ev_header s"
  shows "header_first c s'"
proof -
  define s1 where "s1 = (if res = 0 then begin_track c f s else s)"
  have s1: "wires s1 = wires s" "client s1 = client s" "ev_header s1 = ev_header s"
    by (simp_all add: s1_def)
  obtain b r where b: "fmt_GetFrames F (reader s1) = (b, r)" by fastforce
  show ?thesis
  proof (cases "b = []")
    case True
    then have "s' = s1\<lparr>reader := r\<rparr>" using assms(2) b by (simp add: frames_step_def Let_def flip: s1_def)
    then show ?thesis using assms(1) s1 by (simp add: header_first_def)
  next
    case False
    obtain ok t w cs where n:
      "net_send (n_body e) (chars b) (hd (wires s)) (client s) = Some (ok, t, w, cs)"
      using assms(2) b False s1
      by (auto simp: frames_step_def Let_def simp flip: s1_def split: option.splits)
    have s': "wires s' = (if f_connected (client s) then w # tl (wires s) else wires s)"
      "client s' = t" "ev_header s' = ev_header s"
      using assms(2) b False s1 n
      by (cases ok; cases "f_connected (client s)";
          auto simp: frames_step_def Let_def simp flip: s1_def)+
    show ?thesis
    proof (cases "f_connected (client s)")
      case False
      then show ?thesis using assms(1) s' net_send_closed [OF n False] by (simp add: header_first_def)
    next
      case con: True
      obtain p where p: "w = hd (wires s) @ p" "ok \<longrightarrow> t = client s" "\<not> ok \<longrightarrow> \<not> f_connected t"
        using net_send_wire [OF n con] by blast
      have g: "\<exists>fi g. header_text c fi = Some g \<and> prefix g w"
        using assms(1,3) con p(1) by (auto simp: header_first_def intro: prefix_prefix)
      have "set (tl (wires s)) \<subseteq> set (wires s)" by (cases "wires s") auto
      then show ?thesis using assms(1) s' con g by (auto simp: header_first_def introduced_def)
    qed
  qed
qed


lemma header_step_proceeds: "header_step c e s = Some (Proceed, s') \<Longrightarrow> \<not> ev_header s'"
  by (auto simp: header_step_def Let_def split: if_splits option.splits prod.splits)

lemma header_first_feed:
  assumes "header_first c s" "feed_step c F e f res s = Some (ph, s')"
  shows "header_first c s'"
proof -
  define s1 where "s1 = (if f_connected (client s) then s
    else (set_rate (- 1) s)\<lparr>ev_header := True, client := clear_connection_counter (client s)\<rparr>)"
  obtain ok s2 where 2: "connect_turn e s1 = (ok, s2)" by fastforce
  have "header_first c s1" "f_connected (client s1) \<or> ev_header s1"
    using assms(1) by (auto simp: s1_def header_first_def clear_connection_counter_def)
  from header_first_connect [OF this(1) 2 this(2)] have h2: "header_first c s2" .
  show ?thesis
  proof (cases ok)
    case False
    then show ?thesis using assms(2) 2 h2 by (simp add: feed_step_def flip: s1_def)
  next
    case True
    then obtain v s3 where 3: "header_step c e s2 = Some (v, s3)"
      using assms(2) 2 by (auto simp: feed_step_def simp flip: s1_def split: option.splits)
    note h3 = header_first_header [OF h2 3]
    show ?thesis
    proof (cases v)
      case Proceed
      then show ?thesis using assms(2) 2 3 True h3 header_step_proceeds [of c e s2 s3]
        by (auto simp: feed_step_def simp flip: s1_def intro: header_first_frames)
    qed (use assms(2) 2 3 True h3 in \<open>auto simp: feed_step_def simp flip: s1_def\<close>)
  qed
qed

lemma header_first_step:
  assumes "header_first c (snd ps)" "step c F e ps = Some ps'"
  shows "header_first c (snd ps')"
proof -
  obtain ph s where ps: "ps = (ph, s)" by fastforce
  obtain ph' s' where ps': "ps' = (ph', s')" by fastforce
  have h: "header_first c s1" if "wires s1 = wires s" "client s1 = client s" "ev_header s1 = ev_header s"
    for s1 :: "'a player" using assms(1) that ps header_first_cong [OF that] by simp
  have e: "wires (erase_idx s1) = wires s1" "client (erase_idx s1) = client s1"
    "ev_header (erase_idx s1) = ev_header s1" for s1 :: "'a player"
    by (simp_all add: erase_idx_def Let_def)
  have l: "wires (load_playlist s1) = wires s1" "client (load_playlist s1) = client s1"
    "ev_header (load_playlist s1) = ev_header s1" for s1 :: "'a player"
    by (simp_all add: load_playlist_def split: prod.splits)
  have "header_first c s'"
  proof (cases ph)
    case Select
    then have "select_step c F s = Some (ph', s')" using assms(2) ps ps' by (simp add: step_def)
    then show ?thesis
      by (auto simp: select_step_def Let_def e intro!: h split: if_splits option.splits prod.splits)
  next
    case (Feed f n)
    then show ?thesis using assms ps ps' header_first_feed by (fastforce simp: step_def)
  next
    case Finished
    then have "s' = snd (finish_step F s)" using assms(2) ps ps' by (simp add: step_def)
    then show ?thesis
      by (auto simp: finish_step_def Let_def l intro!: h)
  qed (use assms(2) ps in \<open>simp_all add: step_def\<close>)
  then show ?thesis using ps' by simp
qed

lemma header_first_start:
  assumes "wires s = []" "\<not> f_connected (client s)"
  shows "header_first c (snd (start c e s))"
proof -
  have c: "header_first c (s2\<lparr>info := i, ev_header := True, client := clear_connection_counter (client s2)\<rparr>)"
    "\<not> ok \<Longrightarrow> header_first c (playlist_clear s2)"
    if "connect_turn e s1 = (ok, s2)" "wires s1 = []" "\<not> f_connected (client s1)"
    for s1 s2 :: "'a player" and ok i
    using that
    by (auto simp: connect_turn_def header_first_def introduced_def clear_connection_counter_def
        playlist_clear_def net_connect_def Let_def split: if_splits prod.splits)
  have s: "header_first c s" using assms by (simp add: header_first_def)
  show ?thesis
  proof (cases "play_list s = [] \<or> start_position c s = None")
    case True
    then show ?thesis using s by (auto simp: start_def split: option.splits)
  next
    case False
    then obtain s1 where 1: "start_position c s = Some s1" by blast
    then have s1: "header_first c s1" "wires s1 = []" "\<not> f_connected (client s1)"
      using assms
      by (auto simp: start_position_def advance_iterator_def header_first_def Let_def split: if_splits)
    show ?thesis
    proof (cases "save_idx c (it_playlist s1) (disk s1)")
      case None
      then show ?thesis using False 1 s1 by (simp add: start_def)
    next
      case (Some D)
      obtain ok s2 where 2: "connect_turn e (s1\<lparr>disk := D\<rparr>) = (ok, s2)" by fastforce
      then show ?thesis using False 1 s1 Some c [OF 2]
        by (cases ok) (auto simp: start_def set_rate_def)
    qed
  qed
qed


section \<open>A connection that holds\<close>

text \<open>A turn in which the network takes \<open>B\<close> bytes at once, and the server says yes.\<close>

definition smooth :: "nat \<Rightarrow> turn \<Rightarrow> bool" where
  "smooth B e \<longleftrightarrow> B \<le> accepts (n_head e) \<and> Failed \<notin> set (n_head e) \<and>
     B \<le> accepts (n_body e) \<and> Failed \<notin> set (n_body e) \<and>
     (\<exists>a. n_answer e = Got a \<and>
        find_sub ''200'' (takeWhile (\<lambda>c. c \<noteq> CHR 0x00) (take 65535 a)) \<noteq> None)"

lemma net_recv_smooth: "smooth B e \<Longrightarrow> net_recv_match (n_answer e) ''200'' t = (True, t)"
  by (auto simp: smooth_def net_recv_match_def)

lemma connect_turn_connected: "f_connected (client s) \<Longrightarrow> connect_turn e s = (True, s)"
  by (simp add: connect_turn_def net_connect_def)

text \<open>One turn of the inner loop then sends the header if it is due, and a block.\<close>

definition ready :: "'r player \<Rightarrow> bool" where
  "ready s \<longleftrightarrow> f_connected (client s) \<and> wires s \<noteq> []"

lemma header_smooth:
  assumes "ready s" "smooth B e"
    and "ev_header s \<Longrightarrow> header_text c (info s) = Some h \<and> length h \<le> B"
  shows "header_step c e s =
    Some (Proceed, if ev_header s
                   then (put_wire (hd (wires s) @ h) s)\<lparr>ev_header := False\<rparr> else s)"
proof (cases "ev_header s")
  case True
  then have h: "header_text c (info s) = Some h" "length h \<le> accepts (n_head e)"
    "Failed \<notin> set (n_head e)"
    using assms(2,3) by (auto simp: smooth_def)
  obtain cs' where n: "net_send (n_head e) h (hd (wires s)) (client s) =
      Some (True, client s, hd (wires s) @ h, cs')"
    using net_send_smooth [OF h(2,3)] assms(1) by (auto simp: ready_def)
  have "(put_wire w s)\<lparr>client := client s\<rparr> = put_wire w s" for w by (simp add: put_wire_def)
  then show ?thesis using True h(1) n assms(1) net_recv_smooth [OF assms(2)]
    by (simp add: header_step_def ready_def Let_def)
qed (simp add: header_step_def)


text \<open>What does not change while frames are sent.\<close>

definition steady :: "'r player \<Rightarrow> 'r player \<Rightarrow> bool" where
  "steady s s' \<longleftrightarrow> play_list s' = play_list s \<and> it_playlist s' = it_playlist s \<and>
     client s' = client s \<and> ev_header s' = ev_header s \<and> info s' = info s \<and>
     params s' = params s \<and> tl (wires s') = tl (wires s) \<and> wires s' \<noteq> []"

lemma steady_trans: "steady s s1 \<Longrightarrow> steady s1 s2 \<Longrightarrow> steady s s2"
  by (simp add: steady_def)

lemma frames_smooth:
  assumes "ready s" "smooth B e" "fmt_GetFrames F (reader s) = (b, r)" "length b \<le> B"
  shows "\<exists>s'. frames_step c F e f res s =
      Some (if b = [] then Finished else Feed f (length b), s') \<and>
    reader s' = r \<and> hd (wires s') = hd (wires s) @ chars b \<and>
    steady (if res = 0 then begin_track c f s else s) s'"
proof -
  define s1 where "s1 = (if res = 0 then begin_track c f s else s)"
  have s1: "wires s1 = wires s" "client s1 = client s" "reader s1 = reader s"
    by (simp_all add: s1_def)
  show ?thesis
  proof (cases "b = []")
    case True
    then have "frames_step c F e f res s = Some (Finished, s1\<lparr>reader := r\<rparr>)"
      using assms(3) s1 by (simp add: frames_step_def Let_def flip: s1_def)
    moreover have "steady s1 (s1\<lparr>reader := r\<rparr>)" using assms(1) s1 by (simp add: steady_def ready_def)
    ultimately show ?thesis using True s1 by (auto simp: chars_def simp flip: s1_def)
  next
    case False
    have "length (chars b) \<le> accepts (n_body e)" "Failed \<notin> set (n_body e)"
      using assms(2,4) by (auto simp: smooth_def chars_def)
    then obtain cs' where "net_send (n_body e) (chars b) (hd (wires s)) (client s) =
        Some (True, client s, hd (wires s) @ chars b, cs')"
      using net_send_smooth assms(1) by (metis ready_def)
    then have "\<exists>s'. frames_step c F e f res s = Some (Feed f (length b), s') \<and> reader s' = r \<and>
        wires s' = (hd (wires s) @ chars b) # tl (wires s) \<and> steady s1 s'"
      using assms(1,3) False s1
      by (simp add: frames_step_def Let_def steady_def ready_def flip: s1_def)
    then show ?thesis using False by (auto simp flip: s1_def)
  qed
qed

lemma ready_steady: "steady s s' \<Longrightarrow> ready s \<Longrightarrow> ready s'"
  by (simp add: steady_def ready_def)

lemma feed_connected:
  assumes "ready s"
  shows "feed_step c F e f res s =
    (case header_step c e s of
       None \<Rightarrow> None
     | Some (Retry, s3) \<Rightarrow> Some (Feed f res, s3)
     | Some (Refused_200, s3) \<Rightarrow> Some (Finished, s3)
     | Some (Proceed, s3) \<Rightarrow> frames_step c F e f res s3)"
  using assms connect_turn_connected [of s e] by (simp add: feed_step_def ready_def)

text \<open>The turns after the first send the rest of the file.\<close>

lemma feed_rest:
  assumes "feeds (fmt_GetFrames F) B r bs" "r = reader s" "ready s" "\<not> ev_header s"
    and "\<And>i. smooth B (t i)" "res \<noteq> 0"
  shows "\<exists>n s'. run c F t n (Feed f res, s) = Some (Finished, s') \<and>
    hd (wires s') = hd (wires s) @ chars bs \<and> steady s s'"
  using assms
proof (induction arbitrary: s t res rule: feeds.induct)
  case (feeds_end r r')
  have g: "fmt_GetFrames F (reader s) = ([], r')" "length ([] :: byte list) \<le> B"
    using feeds_end by simp_all
  obtain s' where s': "frames_step c F (t 0) f res s = Some (Finished, s')"
    "hd (wires s') = hd (wires s)" "steady s s'"
    using frames_smooth [OF feeds_end.prems(2) feeds_end.prems(4) [of 0] g,
        where c = c and f = f and res = res] feeds_end.prems(5)
    by (auto simp: chars_def)
  have "step c F (t 0) (Feed f res, s) = Some (Finished, s')"
    using s'(1) feeds_end.prems(2,3) by (simp add: step_def feed_connected header_step_def)
  then have "run c F t 1 (Feed f res, s) = Some (Finished, s')" by simp
  then show ?case using s'(2,3) by (intro exI [of _ 1] exI [of _ s']) (simp add: chars_def)
next
  case (feeds_block r b r' bs)
  have g: "fmt_GetFrames F (reader s) = (b, r')" using feeds_block by simp
  obtain s1 where s1: "frames_step c F (t 0) f res s = Some (Feed f (length b), s1)"
    "reader s1 = r'" "hd (wires s1) = hd (wires s) @ chars b" "steady s s1"
    using frames_smooth [OF feeds_block.prems(2) feeds_block.prems(4) [of 0] g feeds_block.hyps(3),
        where c = c and f = f and res = res] feeds_block.prems(5) feeds_block.hyps(2) by auto
  have st: "step c F (t 0) (Feed f res, s) = Some (Feed f (length b), s1)"
    using s1(1) feeds_block.prems(2,3) by (simp add: step_def feed_connected header_step_def)
  have ev: "\<not> ev_header s1" using s1(4) feeds_block.prems(3) by (simp add: steady_def)
  have "length b \<noteq> 0" using feeds_block.hyps(2) by simp
  from feeds_block.IH [OF s1(2) [symmetric] ready_steady [OF s1(4) feeds_block.prems(2)] ev
      feeds_block.prems(4) this]
  obtain n s' where "run c F (\<lambda>i. t (Suc i)) n (Feed f (length b), s1) = Some (Finished, s')"
    "hd (wires s') = hd (wires s1) @ chars bs" "steady s1 s'" by blast
  then show ?case using run_Suc [of c F t, OF st, of n] s1(3) steady_trans [OF s1(4)]
    by (auto simp: chars_def intro!: exI [of _ "Suc n"])
qed


text \<open>A first connection that is made at once.\<close>

definition connects :: "turn \<Rightarrow> tclient \<Rightarrow> bool" where
  "connects e t \<longleftrightarrow> 0 \<le> n_fd e \<and> n_resolved e \<and> 0 < max_conections t \<and> n_con e 0 \<noteq> Refused \<and>
     \<not> f_connected t"

lemma connects_connected:
  assumes "connects e (client s)"
  shows "\<exists>t. connect_turn e s = (True, s\<lparr>client := t, wires := [] # wires s\<rparr>) \<and>
    f_connected t \<and> max_conections t = max_conections (client s)"
proof -
  obtain m where "nat (max_conections (client s)) = Suc m"
    using assms by (cases "nat (max_conections (client s))") (auto simp: connects_def)
  then show ?thesis using assms
    by (auto simp: connects_def connect_turn_def net_connect_def Let_def)
qed

lemma TPlaylist_new_simps:
  "play_list (TPlaylist_new cl r p D) = playlist p" "client (TPlaylist_new cl r p D) = cl"
  "params (TPlaylist_new cl r p D) = p\<lparr>new_playlist := False\<rparr>" "wires (TPlaylist_new cl r p D) = []"
  "disk (TPlaylist_new cl r p D) = D"
  by (simp_all add: TPlaylist_new_def load_playlist_def update_playlist_def set_new_playlist_def)

lemma start_position_simps:
  "start_position c s = Some s0 \<Longrightarrow>
     play_list s0 = play_list s \<and> client s0 = client s \<and> params s0 = params s \<and> wires s0 = wires s \<and>
     (play_list s \<noteq> [] \<longrightarrow> it_playlist s0 < length (play_list s))"
  by (auto simp: start_position_def advance_iterator_def Let_def split: if_splits)

lemma start_connected:
  assumes "start_position c (TPlaylist_new cl r p D) = Some s0" "playlist p \<noteq> []" "has_dir c"
    and "connects e cl"
  shows "\<exists>s. start c e (TPlaylist_new cl r p D) = (Select, s) \<and> f_connected (client s) \<and>
    ev_header s \<and> it_playlist s = it_playlist s0 \<and> play_list s = playlist p \<and> wires s = [[]] \<and>
    in_list s \<and> \<not> new_playlist (params s) \<and> fi_icecast_sample_rate (info s) = - 1 \<and>
    max_conections (client s) = max_conections cl"
proof -
  note s0 = start_position_simps [OF assms(1), unfolded TPlaylist_new_simps]
  obtain D' where D': "save_idx c (it_playlist s0) (disk s0) = Some D'"
    using save_idx_dir [OF assms(3)] by blast
  have "connects e (client (s0\<lparr>disk := D'\<rparr>))" using assms(4) s0 by simp
  from connects_connected [OF this] obtain t where
    "connect_turn e (s0\<lparr>disk := D'\<rparr>) = (True, s0\<lparr>disk := D', client := t, wires := [] # wires s0\<rparr>)"
    "f_connected t" "max_conections t = max_conections cl" using s0 by auto
  then show ?thesis using assms(1,2) D' s0
    by (simp add: start_def TPlaylist_new_simps set_rate_def in_list_def clear_connection_counter_def)
qed

section \<open>The specification: an endless reading of the list\<close>

text \<open>
  What a listener is promised: the position in the list, and the sound heard so far. One track
  is played and the position moves on, from the last track to the first.
\<close>

definition next_track :: "(string \<Rightarrow> byte list) \<Rightarrow> string list \<Rightarrow> nat \<times> string \<Rightarrow> nat \<times> string" where
  "next_track bytes pl ps =
     (case ps of (i, out) \<Rightarrow> ((i + 1) mod length pl, out @ chars (bytes (pl ! i))))"

lemma next_track_pow:
  "i < length pl \<Longrightarrow> (next_track bytes pl ^^ k) (i, out) =
     ((i + k) mod length pl, out @ concat (map (\<lambda>j. chars (bytes (pl ! ((i + j) mod length pl)))) [0..<k]))"
  by (induction k) (auto simp: next_track_def mod_Suc_eq)

definition view :: "'r player \<Rightarrow> nat \<times> string" where
  "view s = (it_playlist s, hd (wires s))"

text \<open>
  What the player relies on: \<open>f\<close> is \<open>playable\<close> if, whatever went before, the reader opens it,
  finds the sample rate \<open>rate\<close> and the data \<open>announced\<close> says, and feeds its bytes.
\<close>

locale good_tracks =
  fixes F :: "'r fmt" and bytes :: "string \<Rightarrow> byte list" and playable :: "string \<Rightarrow> bool"
    and rate :: int and announced :: "tfile_info \<Rightarrow> bool" and B :: nat
  assumes opens: "playable f \<Longrightarrow>
      \<exists>k fi' r1 r2. fmt_GetFileInfo F f fi r = Some (k, fi', r1) \<and> k \<noteq> - 1 \<and>
        fi_simple_frequency fi' = rate \<and> fi_icecast_sample_rate fi' = fi_icecast_sample_rate fi \<and>
        announced fi' \<and> fmt_start_play F r1 = (True, r2) \<and>
        feeds (fmt_GetFrames F) B r2 (bytes f)"
    and announced: "announced (fi\<lparr>fi_icecast_sample_rate := x\<rparr>) = announced fi"
begin

definition on_air :: "tplayer_config \<Rightarrow> 'r player \<Rightarrow> bool" where
  "on_air c s \<longleftrightarrow> ready s \<and> in_list s \<and> play_list s \<noteq> [] \<and> has_dir c \<and>
     (\<forall>f \<in> set (play_list s). playable f) \<and> \<not> new_playlist (params s) \<and>
     fi_icecast_sample_rate (info s) \<in> {- 1, rate}"

lemma select_good:
  assumes "on_air c s" "f = play_list s ! it_playlist s"
  shows "\<exists>s'. select_step c F s = Some (Feed f 0, s') \<and>
    feeds (fmt_GetFrames F) B (reader s') (bytes f) \<and>
    play_list s' = play_list s \<and> it_playlist s' = it_playlist s \<and> client s' = client s \<and>
    ev_header s' = ev_header s \<and> params s' = params s \<and> wires s' = wires s \<and>
    announced (info s') \<and> fi_icecast_sample_rate (info s') = rate"
proof -
  have i: "play_list s \<noteq> []" "it_playlist s < length (play_list s)"
    using assms(1) by (auto simp: on_air_def in_list_def)
  obtain D where D: "save_idx c (it_playlist s) (disk s) = Some D"
    using assms(1) save_idx_dir [of c] unfolding on_air_def by blast
  have "playable f" using assms i by (simp add: on_air_def)
  from opens [OF this, of "info s" "reader s"] obtain k fi' r1 r2 where
    o1: "fmt_GetFileInfo F f (info s) (reader s) = Some (k, fi', r1)" "k \<noteq> - 1"
      "fi_simple_frequency fi' = rate" "fi_icecast_sample_rate fi' = fi_icecast_sample_rate (info s)"
      "announced fi'"
      "fmt_start_play F r1 = (True, r2)" "feeds (fmt_GetFrames F) B r2 (bytes f)"
    by blast
  have "fi_icecast_sample_rate (info s) = - 1 \<or> fi_icecast_sample_rate (info s) = rate"
    using assms(1) by (auto simp: on_air_def)
  then show ?thesis using i D o1 assms(2)
    by (auto simp: select_step_def Let_def announced set_rate_def)
qed

text \<open>The first turn of a track sends the header when it is due.\<close>

definition due :: "tplayer_config \<Rightarrow> 'r player \<Rightarrow> string \<Rightarrow> bool" where
  "due c s h \<longleftrightarrow> (if ev_header s
     then \<exists>fi. announced fi \<and> header_text c fi = Some h else h = [])"

lemma feed_first:
  assumes "feeds (fmt_GetFrames F) B (reader s) bs" "ready s" "\<And>i. smooth B (t i)"
    and "\<And>fi. announced fi \<Longrightarrow> \<exists>h. header_text c fi = Some h \<and> length h \<le> B"
    and "announced (info s)"
  shows "\<exists>n s' h. run c F t n (Feed f 0, s) = Some (Finished, s') \<and> due c s h \<and>
    hd (wires s') = hd (wires s) @ h @ chars bs \<and>
    steady (begin_track c f (s\<lparr>ev_header := False\<rparr>)) s'"
proof -
  obtain h where h: "due c s h" "ev_header s \<Longrightarrow> header_text c (info s) = Some h \<and> length h \<le> B"
    using assms(4) [OF assms(5)] assms(5) by (cases "ev_header s") (auto simp: due_def)
  define s1 where "s1 = (if ev_header s then (put_wire (hd (wires s) @ h) s)\<lparr>ev_header := False\<rparr> else s)"
  have s1: "header_step c (t 0) s = Some (Proceed, s1)"
    using header_smooth [OF assms(2) assms(3) [of 0], of c h] h(2) by (simp add: s1_def)
  have w1: "hd (wires s1) = hd (wires s) @ h" "tl (wires s1) = tl (wires s)" "\<not> ev_header s1"
    "reader s1 = reader s" "ready s1"
    using h(1) assms(2) by (simp_all add: s1_def due_def ready_def)
  have same: "steady (begin_track c f (s\<lparr>ev_header := False\<rparr>)) s'"
    if "steady (begin_track c f s1) s'" for s'
    using that w1(2) by (auto simp: steady_def s1_def)
  have st: "step c F (t 0) (Feed f 0, s) = frames_step c F (t 0) f 0 s1"
    using assms(2) s1 by (simp add: step_def feed_connected)
  from assms(1) show ?thesis
  proof (cases rule: feeds.cases)
    case (feeds_end r')
    from frames_smooth [OF w1(5) assms(3) [of 0], of F "[]" r' c f 0] feeds_end(2) w1(4)
    obtain s' where s': "frames_step c F (t 0) f 0 s1 = Some (Finished, s')"
      "hd (wires s') = hd (wires s1)" "steady (begin_track c f s1) s'"
      by (auto simp: chars_def)
    then have "run c F t 1 (Feed f 0, s) = Some (Finished, s')" using st by simp
    then show ?thesis using h(1) s' w1(1) same feeds_end(1)
      by (intro exI [of _ 1] exI [of _ s'] exI [of _ h]) (simp add: chars_def)
  next
    case (feeds_block b r' bs')
    from frames_smooth [OF w1(5) assms(3) [of 0] _ feeds_block(4), of F r' c f 0] feeds_block(2,3) w1(4)
    obtain s2 where s2: "frames_step c F (t 0) f 0 s1 = Some (Feed f (length b), s2)"
      "reader s2 = r'" "hd (wires s2) = hd (wires s1) @ chars b" "steady (begin_track c f s1) s2"
      by auto
    have r2: "ready s2" "\<not> ev_header s2"
      using s2(4) w1(3,5) by (auto simp: steady_def ready_def)
    have "length b \<noteq> 0" using feeds_block(3) by simp
    from feed_rest [OF feeds_block(5) s2(2) [symmetric] r2 assms(3) this]
    obtain n s' where n: "run c F (\<lambda>i. t (Suc i)) n (Feed f (length b), s2) = Some (Finished, s')"
      "hd (wires s') = hd (wires s2) @ chars bs'" "steady s2 s'" by blast
    have "run c F t (Suc n) (Feed f 0, s) = Some (Finished, s')"
      using run_Suc [of c F t, OF st [unfolded s2(1)], of n] n(1) by simp
    then show ?thesis
      using h(1) s2(3) n(2) w1(1) feeds_block(1) same [OF steady_trans [OF s2(4) n(3)]]
      by (intro exI [of _ "Suc n"] exI [of _ s'] exI [of _ h]) (simp add: chars_def)
  qed
qed

lemma one_track:
  assumes "on_air c s" "\<And>i. smooth B (t i)"
    and "\<And>fi. announced fi \<Longrightarrow> \<exists>h. header_text c fi = Some h \<and> length h \<le> B"
  shows "\<exists>n s' h. run c F t n (Select, s) = Some (Select, s') \<and> due c s h \<and>
    view s' = next_track bytes (play_list s) (it_playlist s, hd (wires s) @ h) \<and>
    on_air c s' \<and> \<not> ev_header s' \<and> play_list s' = play_list s"
proof -
  define f where "f = play_list s ! it_playlist s"
  from select_good [OF assms(1) f_def] obtain s1 where s1: "select_step c F s = Some (Feed f 0, s1)"
    "feeds (fmt_GetFrames F) B (reader s1) (bytes f)" "play_list s1 = play_list s"
    "it_playlist s1 = it_playlist s" "client s1 = client s" "ev_header s1 = ev_header s"
    "params s1 = params s" "wires s1 = wires s" "announced (info s1)"
    "fi_icecast_sample_rate (info s1) = rate"
    by blast
  have r1: "ready s1" using assms(1) s1 by (simp add: on_air_def ready_def)
  have sm: "\<And>i. smooth B (t (Suc i))" by (rule assms(2))
  obtain n s2 h where n: "run c F (\<lambda>i. t (Suc i)) n (Feed f 0, s1) = Some (Finished, s2)"
    "due c s1 h" "hd (wires s2) = hd (wires s1) @ h @ chars (bytes f)"
    "steady (begin_track c f (s1\<lparr>ev_header := False\<rparr>)) s2"
    using feed_first [where t = "\<lambda>i. t (Suc i)" and c = c and f = f, OF s1(2) r1 sm assms(3) s1(9)]
    by blast
  note st = n(4) [unfolded steady_def, simplified]
  have "step c F (t 0) (Select, s) = Some (Feed f 0, s1)" using s1(1) by (simp add: step_def)
  from run_Suc [of c F t, OF this, of n]
  have "run c F t (Suc n) (Select, s) = Some (Finished, s2)" using n(1) by simp
  note run1 = run_append [OF this, of 1]
  define s3 where "s3 = s2\<lparr>reader := fmt_stop_play F (reader s2)\<rparr>"
  have con: "f_connected (client s2)" using r1 st by (simp add: ready_def)
  have "\<not> get_new_playlist (params s2)"
    using assms(1) s1(7) st by (simp add: get_new_playlist_def on_air_def)
  then have "step c F (t (Suc n)) (Finished, s2) = Some (Select, s3)"
    using con by (simp add: step_def finish_step_def Let_def s3_def)
  then have run3: "run c F t (Suc n + 1) (Select, s) = Some (Select, s3)" using run1 by simp
  have i: "it_playlist s < length (play_list s)" "play_list s \<noteq> []"
    using assms(1) by (auto simp: on_air_def in_list_def)
  have "view s3 = next_track bytes (play_list s) (it_playlist s, hd (wires s) @ h)"
    using st s1(3,4,8) n(3) i by (auto simp: view_def next_track_def s3_def f_def)
  moreover have "on_air c s3" using assms(1) r1 st s1(3,4,7,10) i
    by (auto simp: on_air_def ready_def in_list_def s3_def)
  moreover have "due c s h" using n(2) s1(6) by (simp add: due_def)
  moreover have "\<not> ev_header s3" "play_list s3 = play_list s" using st s1(3) by (simp_all add: s3_def)
  ultimately show ?thesis using run3 by blast
qed

text \<open>The player refines the specification, for any number of tracks.\<close>

lemma tracks_in_turn:
  assumes "on_air c s" "\<And>i. smooth B (t i)"
    and "\<And>fi. announced fi \<Longrightarrow> \<exists>h. header_text c fi = Some h \<and> length h \<le> B"
  shows "\<exists>n s' h. run c F t n (Select, s) = Some (Select, s') \<and>
    (if k = 0 then h = [] else due c s h) \<and>
    view s' = (next_track bytes (play_list s) ^^ k) (it_playlist s, hd (wires s) @ h) \<and>
    on_air c s' \<and> (0 < k \<longrightarrow> \<not> ev_header s') \<and> play_list s' = play_list s"
proof (induction k)
  case 0
  have "run c F t 0 (Select, s) = Some (Select, s)" by simp
  then show ?case using assms(1)
    by (intro exI [of _ 0] exI [of _ s] exI [of _ "[]"]) (simp add: view_def)
next
  case (Suc k)
  then obtain n s1 h where n: "run c F t n (Select, s) = Some (Select, s1)"
    "if k = 0 then h = [] else due c s h"
    "view s1 = (next_track bytes (play_list s) ^^ k) (it_playlist s, hd (wires s) @ h)"
    "on_air c s1" "0 < k \<longrightarrow> \<not> ev_header s1" "play_list s1 = play_list s" by blast
  have v: "(it_playlist s1, hd (wires s1)) = view s1" by (simp add: view_def)
  have sm: "\<And>i. smooth B (t (n + i))" by (rule assms(2))
  obtain m s2 h2 where
    m: "run c F (\<lambda>i. t (n + i)) m (Select, s1) = Some (Select, s2)" "due c s1 h2"
      "view s2 = next_track bytes (play_list s1) (it_playlist s1, hd (wires s1) @ h2)"
      "on_air c s2" "\<not> ev_header s2" "play_list s2 = play_list s1"
    using one_track [where t = "\<lambda>i. t (n + i)" and c = c, OF n(4) sm assms(3)] by blast
  have r: "run c F t (n + m) (Select, s) = Some (Select, s2)"
    using run_append [OF n(1), of m] m(1) by simp
  show ?case
  proof (cases "k = 0")
    case True
    then show ?thesis using one_track [where t = t and c = c, OF assms(1-3)] by auto
  next
    case False
    then have "h2 = []" using n(5) m(2) by (simp add: due_def)
    then have "view s2 = (next_track bytes (play_list s) ^^ Suc k) (it_playlist s, hd (wires s) @ h)"
      using m(3) n(3,6) v by simp
    then show ?thesis using False r m(4-6) n(2,6)
      by (intro exI [of _ "n + m"] exI [of _ s2] exI [of _ h]) simp
  qed
qed

text \<open>From the start of the program, over the connection it makes.\<close>

lemma streams_from_start:
  assumes "start_position c (TPlaylist_new cl r p D) = Some s0" "playlist p \<noteq> []"
    and "\<And>f. f \<in> set (playlist p) \<Longrightarrow> playable f" "has_dir c" "connects e cl"
    and "\<And>fi. announced fi \<Longrightarrow> \<exists>h. header_text c fi = Some h \<and> length h \<le> B"
    and "\<And>i. smooth B (t i)" "0 < k"
  shows "\<exists>n s' fi h. run c F t n (start c e (TPlaylist_new cl r p D)) = Some (Select, s') \<and>
    announced fi \<and> header_text c fi = Some h \<and>
    view s' = (next_track bytes (playlist p) ^^ k) (it_playlist s0, h)"
proof -
  obtain s where s: "start c e (TPlaylist_new cl r p D) = (Select, s)" "ev_header s"
    "it_playlist s = it_playlist s0" "play_list s = playlist p" "wires s = [[]]"
    "f_connected (client s)" "in_list s" "\<not> new_playlist (params s)"
    "fi_icecast_sample_rate (info s) = - 1"
    using start_connected [OF assms(1,2,4,5)] by blast
  have air: "on_air c s"
    using s(4-9) assms(2-4) by (simp add: on_air_def ready_def)
  from tracks_in_turn [where t = t and c = c and k = k, OF air assms(7,6)]
  obtain n s' h where n: "run c F t n (Select, s) = Some (Select, s')"
    "if k = 0 then h = [] else due c s h"
    "view s' = (next_track bytes (play_list s) ^^ k) (it_playlist s, hd (wires s) @ h)"
    by blast
  then show ?thesis using s assms(8) by (auto simp: due_def)
qed

end


section \<open>A small setting\<close>

text \<open>A short header, and a network that takes \<open>n\<close> bytes in a turn.\<close>

definition demo_cfg :: tplayer_config where
  "demo_cfg = \<lparr>c_npfile = ''/n/x'', c_header = ''SOURCE %i %i %i'', c_update_meta_data = True,
     c_can_save = True\<rparr>"

definition demo_turn :: "nat \<Rightarrow> turn" where
  "demo_turn n = \<lparr>n_fd = 3, n_resolved = True, n_con = (\<lambda>_. Connected), n_head = [Sent n],
     n_answer = Got ''HTTP 200'', n_body = [Sent n]\<rparr>"

lemma demo_dir: "has_dir demo_cfg"
  unfolding has_dir_def by (rule exI [of _ "''/n/''"]) code_simp

lemma demo_connects: "connects (demo_turn n) (tclient_new 8000 5 0 5)"
  by (simp add: connects_def demo_turn_def tclient_new_def)

lemma demo_start:
  "\<exists>s0. start_position demo_cfg (TPlaylist_new cl r p (\<lambda>_. None)) = Some s0 \<and> it_playlist s0 = 0"
  by (simp add: start_position_def advance_iterator_def TPlaylist_new_simps load_idx_def)

lemma show_int_length: "0 \<le> x \<Longrightarrow> x < 10 ^ Suc k \<Longrightarrow> length (show_int x) \<le> Suc k"
  using show_nat_length [of "nat x" k] by (simp add: show_int_def nat_less_iff)

lemma demo_printed:
  assumes "0 \<le> fi_bitrate fi" "fi_bitrate fi < 10000" "0 \<le> fi_channel_configuration fi"
    "fi_channel_configuration fi < 10" "0 \<le> fi_simple_frequency fi" "fi_simple_frequency fi < 100000"
  shows "\<exists>h. header_text demo_cfg fi = Some h \<and> length h \<le> 19"
proof -
  have "0 \<le> \<lfloor>fi_bitrate fi\<rfloor>" "\<lfloor>fi_bitrate fi\<rfloor> < 10 ^ Suc 3"
    using assms(1,2) by (simp_all add: floor_less_iff)
  from show_int_length [OF this] show ?thesis
    using show_int_length [of "fi_channel_configuration fi" 0]
      show_int_length [of "fi_simple_frequency fi" 4] assms(3-6)
    by (simp add: header_text_def demo_cfg_def)
qed

end
