(* ===== verification/Aac.thy ===== *)
theory Aac
  imports Complex_Main "HOL-Library.Monad_Syntax" Frames
begin

text \<open>
  The ADTS reader of the player (\<open>taac\<close> of \<open>accordion_V10.X/aac.cpp\<close>): header checks,
  the search for the first frame, the scan of a whole file for its length and bit rate, and the
  reading of one second of frames at a time. \<open>float\<close> arithmetic goes through a rounding
  function \<open>rnd\<close>; the frame count is not cut to \<open>int\<close> (it would overflow after thirteen
  hours of sound).
\<close>

unbundle bit_operations_syntax

section \<open>The reader's state\<close>

record taac =
  fs :: "cfile option"
  send_frame_number :: int
  frames_to_read :: int
  total_frames :: int

text \<open>The reference parameters of \<open>aac_GetFileInfo\<close>.\<close>

record file_info =
  br :: rat
  spf :: int
  sr :: int
  frame_count :: int
  ch :: int
  m_frames_to_read :: int
  m_play_time :: int

definition sftable :: "int list" where
  "sftable = [96000, 88200, 64000, 48000, 44100, 32000, 24000, 22050, 16000, 12000, 11025, 8000,
     7350, 0, 0, 0]"

definition c_header_size :: int where "c_header_size = 7"

section \<open>Headers\<close>

definition get_frame_length :: "byte \<Rightarrow> byte \<Rightarrow> byte \<Rightarrow> int" where
  "get_frame_length h3 h4 h5 =
     push_bit 11 (uint h3 AND 0x03) OR push_bit 3 (uint h4) OR drop_bit 5 (uint h5 AND 0xE0)"

definition syncword :: "byte \<Rightarrow> byte \<Rightarrow> int" where
  "syncword h0 h1 = (push_bit 4 (schar h0) AND 0xFF0) OR (drop_bit 4 (schar h1) AND 0x0F)"

definition profile :: "byte \<Rightarrow> int" where
  "profile h2 = drop_bit 6 (schar h2 AND 0xC0)"

definition frequency_index :: "byte \<Rightarrow> int" where
  "frequency_index h2 = drop_bit 2 (schar h2 AND 0x3C) AND 0x0F"

text \<open>
  The check of \<open>aac_GetFileInfo\<close>: verdict, \<open>m_protection_absent\<close>, \<open>m_length\<close>,
  \<open>m_sampling_frequency\<close> and \<open>m_channel_config\<close>. The last is the result of a logical
  \<open>||\<close>, 0 or 1.
\<close>

definition aac_IsValidFrameHeader5 ::
  "byte list \<Rightarrow> int \<Rightarrow> bool \<times> int \<times> int \<times> int \<times> int" where
  "aac_IsValidFrameHeader5 header sf =
     (if syncword (header ! 0) (header ! 1) \<noteq> 0x0FFF then (False, 0, 0, sf, 0)
      else if profile (header ! 2) = 3 then (False, 0, 0, sf, 0)
      else
        let f = frequency_index (header ! 2) in
        if sftable ! nat f = 0 then (False, 0, 0, -1, 0)
        else
          let m_length = get_frame_length (header ! 3) (header ! 4) (header ! 5) in
          if m_length < 0 \<or> m_length > 5000 then (False, 0, m_length, f, 0)
          else (True, schar (header ! 1) AND 1, m_length, f,
                of_bool (push_bit 2 (schar (header ! 2) AND 1) \<noteq> 0
                         \<or> drop_bit 6 (schar (header ! 3) AND 0xC0) \<noteq> 0)))"

text \<open>The check of \<open>aac_GetFrames\<close>: the frame's length, or 0.\<close>

definition aac_IsValidFrameHeader :: "byte list \<Rightarrow> int" where
  "aac_IsValidFrameHeader header =
     (if syncword (header ! 0) (header ! 1) \<noteq> 0x0FFF then 0
      else if profile (header ! 2) = 3 then 0
      else if sftable ! nat (frequency_index (header ! 2)) = 0 then 0
      else
        let m_length = get_frame_length (header ! 3) (header ! 4) (header ! 5) in
        if m_length \<le> c_header_size \<or> m_length > 5000 then 0 else m_length)"

section \<open>The first frame\<close>

text \<open>
  The scan over the first 50000 bytes from \<open>i\<close> on. At the last byte the source looks one
  byte further, at memory it has not filled when the file is longer; the length test then fails,
  whatever is there.
\<close>

function seek_scan :: "byte list \<Rightarrow> nat \<Rightarrow> int" where
  "seek_scan buf i =
     (if i < length buf then
        if i + 10 \<le> length buf \<and> syncword (buf ! i) (buf ! (i + 1)) = 0x0FFF then int i
        else seek_scan buf (i + 1)
      else -1)"
  by pat_completeness auto
termination by (relation "measure (\<lambda>(buf, i). length buf - i)") auto

declare seek_scan.simps [simp del]

text \<open>The file is left at its start, not at the frame found.\<close>

definition aac_SeekTo1Frame :: "taac \<Rightarrow> int \<times> taac" where
  "aac_SeekTo1Frame t =
     (case fs t of
        None \<Rightarrow> (-1, t)
      | Some f \<Rightarrow>
          let (buf, f1) = fread 50000 (seek_to 0 f)
          in (seek_scan buf 0, t\<lparr>fs := Some (seek_to 0 f1)\<rparr>))"

definition close_fs :: "taac \<Rightarrow> taac" where
  "close_fs t = t\<lparr>fs := None\<rparr>"

section \<open>The scan of the file\<close>

text \<open>
  The loop over the headers, on a number of turns: \<open>None\<close> when they were not enough. The
  first result is \<open>ret_value\<close>.
\<close>

fun info_loop :: "nat \<Rightarrow> int \<Rightarrow> cfile \<Rightarrow> int \<Rightarrow> file_info \<Rightarrow> (int \<times> cfile \<times> file_info) option" where
  "info_loop 0 file_size f next_pos io = None"
| "info_loop (Suc n) file_size f next_pos io =
     (let (headers, f1) = fread c_header_size f in
      if int (length headers) < c_header_size then Some (-1, f1, io)
      else
        let (valid, prot, len, freq, chan) = aac_IsValidFrameHeader5 headers (sr io);
            io1 = io\<lparr>sr := freq, ch := chan\<rparr>
        in
        if \<not> valid then Some (-1, f1, io1)
        else
          let io2 = io1\<lparr>frame_count := frame_count io1 + 1\<rparr>; next1 = next_pos + len in
          if next1 < file_size
          then info_loop n file_size (seek_cur (len - c_header_size) f1) next1 io2
          else Some (1, f1, io2))"

text \<open>\<open>round\<close> of a number that is not negative.\<close>

definition c_round :: "rat \<Rightarrow> int" where
  "c_round x = \<lfloor>x + 1 / 2\<rfloor>"

definition play_time :: "(rat \<Rightarrow> rat) \<Rightarrow> int \<Rightarrow> int \<Rightarrow> rat" where
  "play_time rnd frame rate = rnd (rnd (of_int (1024 * frame)) / of_int rate)"

definition bit_rate :: "(rat \<Rightarrow> rat) \<Rightarrow> nat \<Rightarrow> rat \<Rightarrow> rat" where
  "bit_rate rnd file_size play = rnd (rnd (rnd (of_nat file_size / play) * 8) / 1000)"

text \<open>
  \<open>aac_GetFileInfo\<close>. \<open>file\<close> is what \<open>fopen\<close> gives for the name,
  \<open>exists\<close> what \<open>FileExists\<close> says.
\<close>

definition aac_GetFileInfo ::
  "(rat \<Rightarrow> rat) \<Rightarrow> nat \<Rightarrow> bool \<Rightarrow> byte list option \<Rightarrow> taac \<Rightarrow> file_info
    \<Rightarrow> (int \<times> file_info \<times> taac) option" where
  "aac_GetFileInfo rnd n exists file t io0 =
     (let io = io0\<lparr>frame_count := 0\<rparr> in
      if \<not> exists then Some (-1, io, t)
      else case file of
        None \<Rightarrow> Some (-1, io, (close_fs (t\<lparr>fs := None\<rparr>))\<lparr>total_frames := 0\<rparr>)
      | Some bs \<Rightarrow>
          let (index, t1) = aac_SeekTo1Frame (t\<lparr>fs := Some (opened bs)\<rparr>) in
          if index = -1 then Some (-1, io, close_fs t1)
          else do {
            (ret, f, io1) \<leftarrow> info_loop n (int (length bs)) (the (fs t1)) index io;
            let t2 = t1\<lparr>fs := Some f, total_frames := frame_count io1\<rparr>;
            if ret = -1 then Some (-1, io1, close_fs t2)
            else
              let rate = sftable ! nat (sr io1);
                  play = play_time rnd (frame_count io1) rate;
                  per = c_round (of_int rate / 1024);
                  brate = (if play > 0 then bit_rate rnd (length bs) play else br io1);
                  io2 = io1\<lparr>spf := 1024, sr := rate, m_play_time := \<lfloor>play\<rfloor>, br := brate\<rparr>;
                  io3 = (if play > 0 then io2\<lparr>m_frames_to_read := per\<rparr> else io2);
                  t3 = (if play > 0 then t2\<lparr>frames_to_read := per\<rparr> else t2)
              in if play \<le> 0 \<or> brate < 32 \<or> brate > 320
                 then Some (-1, io3, close_fs t3) else Some (1, io3, t3)
          })"

section \<open>Playing\<close>

definition aac_StartPlay :: "taac \<Rightarrow> bool \<times> taac" where
  "aac_StartPlay t =
     (if fs t = None then (False, t)
      else
        let (i, t1) = aac_SeekTo1Frame (t\<lparr>send_frame_number := 0\<rparr>)
        in (i \<noteq> -1, if i = -1 then close_fs t1 else t1))"

text \<open>
  The loop of \<open>aac_GetFrames\<close> with \<open>n\<close> frames to go: how many were read, the bytes that
  count (the first \<open>ret_value\<close> of the buffer), the bytes of a frame cut short that lie behind
  them in the buffer, the file. Without an open file the source would read through a null
  pointer; the player calls \<open>aac_GetFrames\<close> only after \<open>aac_StartPlay\<close> succeeded.
\<close>

fun aac_frames_loop :: "nat \<Rightarrow> cfile \<Rightarrow> nat \<times> byte list \<times> byte list \<times> cfile" where
  "aac_frames_loop 0 f = (0, [], [], f)"
| "aac_frames_loop (Suc n) f =
     (let (headers, f1) = fread c_header_size f in
      if int (length headers) < c_header_size then (0, [], [], f1)
      else
        let buf_length = aac_IsValidFrameHeader headers in
        if buf_length = 0 then (0, [], [], f1)
        else
          let (body, f2) = fread (buf_length - c_header_size) f1 in
          if int (length body) < buf_length - c_header_size then (0, [], headers @ body, f2)
          else
            let (k, sent, part, f3) = aac_frames_loop n f2
            in (k + 1, headers @ body @ sent, part, f3))"

definition aac_GetFrames :: "taac \<Rightarrow> byte list \<times> byte list \<times> taac" where
  "aac_GetFrames t =
     (case fs t of
        None \<Rightarrow> ([], [], t)
      | Some f \<Rightarrow>
          if send_frame_number t \<ge> total_frames t then ([], [], t)
          else
            let (k, sent, part, f') = aac_frames_loop (nat (frames_to_read t)) f
            in (sent, part, t\<lparr>fs := Some f', send_frame_number := send_frame_number t + int k\<rparr>))"

section \<open>Whole frames\<close>

lemma header_length:
  "aac_IsValidFrameHeader h = 0 \<or> 7 < aac_IsValidFrameHeader h \<and> aac_IsValidFrameHeader h \<le> 5000"
  by (auto simp: aac_IsValidFrameHeader_def Let_def c_header_size_def)

interpretation adts_format: frame_format 7 aac_IsValidFrameHeader
  using header_length by unfold_locales force+

text \<open>The loop of \<open>aac_GetFrames\<close> is the generic one.\<close>

lemma aac_frames_read: "aac_frames_loop n f = read_frames 7 aac_IsValidFrameHeader n f"
  by (induction n arbitrary: f) (auto simp: c_header_size_def Let_def split: prod.splits)

abbreviation split_frames :: "byte list \<Rightarrow> byte list list" where
  "split_frames \<equiv> cut_frames 7 aac_IsValidFrameHeader"

abbreviation adts_framed :: "byte list \<Rightarrow> bool" where
  "adts_framed \<equiv> framed 7 aac_IsValidFrameHeader"

abbreviation adts_frame :: "byte list \<Rightarrow> bool" where
  "adts_frame \<equiv> is_frame 7 aac_IsValidFrameHeader"

lemma split_frames_Cons:
  assumes "split_frames bs = fr # frs"
  shows "bs = fr @ drop (length fr) bs" "split_frames (drop (length fr) bs) = frs"
    "int (length fr) = aac_IsValidFrameHeader (take 7 bs)" "7 < length fr" "length fr \<le> 5000"
    "length fr \<le> length bs"
  using adts_format.cut_Cons [OF assms] header_length [of "take 7 bs"] by auto

lemmas frames_loop_sent = adts_format.read_sent [folded aac_frames_read]
lemmas frames_loop_framed = adts_format.read_framed [folded aac_frames_read]

section \<open>The reader meets the contract\<close>

definition aac_left :: "taac \<Rightarrow> byte list list" where
  "aac_left t = (case fs t of None \<Rightarrow> [] | Some f \<Rightarrow> split_frames (rest f))"

definition aac_ready :: "taac \<Rightarrow> bool" where
  "aac_ready t \<longleftrightarrow> 0 < frames_to_read t \<and>
     send_frame_number t + int (length (aac_left t)) = total_frames t \<and>
     (case fs t of None \<Rightarrow> False | Some f \<Rightarrow> adts_framed (rest f))"

definition aac_call :: "taac \<Rightarrow> byte list \<times> taac" where
  "aac_call t = (case aac_GetFrames t of (sent, part, t') \<Rightarrow> (sent, t'))"

interpretation adts: frame_source aac_call aac_left "\<lambda>t. nat (frames_to_read t)" aac_ready
proof unfold_locales
  show "b = concat (take (nat (frames_to_read t)) (aac_left t)) \<and>
      aac_left t' = drop (nat (frames_to_read t)) (aac_left t) \<and>
      nat (frames_to_read t') = nat (frames_to_read t) \<and> aac_ready t'"
    if ok: "aac_ready t" and c: "aac_call t = (b, t')" for t b t'
  proof -
    obtain f where f: "fs t = Some f" "adts_framed (rest f)"
      using ok by (auto simp: aac_ready_def split: option.splits)
    show ?thesis
    proof (cases "send_frame_number t \<ge> total_frames t")
      case True
      moreover have "send_frame_number t + int (length (aac_left t)) = total_frames t"
        using ok by (simp add: aac_ready_def)
      ultimately have "length (aac_left t) = 0" by linarith
      then show ?thesis using True c ok f by (auto simp: aac_call_def aac_GetFrames_def)
    next
      case False
      obtain k sent part f' where l:
        "aac_frames_loop (nat (frames_to_read t)) f = (k, sent, part, f')"
        by (metis prod_cases4)
      from frames_loop_sent [OF l] frames_loop_framed [OF l f(2)] show ?thesis
        using False c ok f l
        by (auto simp: aac_call_def aac_GetFrames_def aac_left_def aac_ready_def)
    qed
  qed
  show "0 < nat (frames_to_read t)" if "aac_ready t" for t
    using that by (simp add: aac_ready_def)
  show "[] \<notin> set (aac_left t)" for t
    using adts_format.cut_nonempty by (simp add: aac_left_def split: option.splits)
qed

section \<open>Scanning a file of frames\<close>

lemma frequency_known:
  "sftable ! nat (frequency_index h) = 0 \<or> 7350 \<le> sftable ! nat (frequency_index h)"
proof -
  have "frequency_index h \<le> 15"
    unfolding frequency_index_def by (rule AND_upper2) simp
  then have "nat (frequency_index h) < length sftable" by (simp add: sftable_def)
  then have "sftable ! nat (frequency_index h) \<in> set sftable" by (rule nth_mem)
  then show ?thesis by (auto simp: sftable_def)
qed

text \<open>What the second check accepts the first accepts too, with the same length.\<close>

lemma valid_both:
  assumes "aac_IsValidFrameHeader h \<noteq> 0"
  obtains p f c where "aac_IsValidFrameHeader5 h sf = (True, p, aac_IsValidFrameHeader h, f, c)"
    "f = frequency_index (h ! 2)" "7350 \<le> sftable ! nat f" "syncword (h ! 0) (h ! 1) = 0x0FFF"
    "c \<in> {0, 1}"
  using assms header_length [of h] frequency_known [of "h ! 2"] that
  by (auto simp: aac_IsValidFrameHeader_def aac_IsValidFrameHeader5_def Let_def c_header_size_def
      split: if_splits)

lemma rest_seek:
  "pos f = p + 7 \<Longrightarrow> 7 \<le> n \<Longrightarrow> rest (seek_cur (int n - 7) f) = drop n (drop p (content f)) \<and>
     content (seek_cur (int n - 7) f) = content f \<and> pos (seek_cur (int n - 7) f) = p + n"
  by (simp add: seek_cur_def seek_to_def rest_def nat_diff_distrib' add.commute nat_add_distrib)

lemma info_loop_framed:
  assumes "adts_framed (rest f)" "rest f \<noteq> []" "length (split_frames (rest f)) \<le> n"
  shows "\<exists>f' io'. info_loop n (int (length (content f))) f (int (pos f)) io = Some (1, f', io') \<and>
    content f' = content f \<and> 7350 \<le> sftable ! nat (sr io') \<and>
    sr io' \<in> (\<lambda>fr. frequency_index (fr ! 2)) ` set (split_frames (rest f)) \<and>
    frame_count io' = frame_count io + int (length (split_frames (rest f))) \<and> ch io' \<in> {0, 1}"
  using assms
proof (induction n arbitrary: f io)
  case 0 then show ?case by (auto simp: framed_def)
next
  case (Suc n)
  obtain fr frs where s: "split_frames (rest f) = fr # frs"
    using Suc.prems(1,2) adts_format.framed_Nil by (cases "split_frames (rest f)") blast+
  note fr = split_frames_Cons [OF s]
  let ?h = "take 7 (rest f)"
  have "rest f = ?h @ drop 7 (rest f)" by simp
  moreover have h7: "length ?h = 7" using fr(4,6) by simp
  ultimately obtain f1 where f1: "fread 7 f = (?h, f1)" "content f1 = content f"
    "pos f1 = pos f + 7"
    using fread_exact [of f ?h "drop 7 (rest f)"] by auto
  have "aac_IsValidFrameHeader ?h \<noteq> 0" using fr(3,4) by simp
  then obtain p g c where v: "aac_IsValidFrameHeader5 ?h (sr io) = (True, p, int (length fr), g, c)"
    "7350 \<le> sftable ! nat g" "g = frequency_index (?h ! 2)" "c \<in> {0, 1}"
    using valid_both [of ?h "sr io"] fr(3) by metis
  have g: "g = frequency_index (fr ! 2)"
    using v(3) fr(1,4) nth_append [of fr "drop (length fr) (rest f)" 2] by simp
  let ?io = "io\<lparr>sr := g, ch := c, frame_count := frame_count io + 1\<rparr>"
  let ?f = "seek_cur (int (length fr) - 7) f1"
  have step: "info_loop (Suc n) (int (length (content f))) f (int (pos f)) io =
      (if int (pos f) + int (length fr) < int (length (content f))
       then info_loop n (int (length (content f))) ?f (int (pos f) + int (length fr)) ?io
       else Some (1, f1, ?io))"
    using f1(1) h7 v(1) by (simp add: c_header_size_def Let_def)
  have pos: "pos f \<le> length (content f)" "length (rest f) = length (content f) - pos f"
    using Suc.prems(2) by (auto simp: rest_def)
  have rest': "rest ?f = drop (length fr) (rest f)" "content ?f = content f"
    "pos ?f = pos f + length fr"
    using rest_seek [OF f1(3), of "length fr"] fr(4) f1(2) by (simp_all add: rest_def add.commute)
  show ?case
  proof (cases "pos f + length fr < length (content f)")
    case True
    have "adts_framed (rest ?f)" using adts_format.framed_Cons [OF s Suc.prems(1)] rest' by simp
    moreover have "rest ?f \<noteq> []" using True rest' pos by (simp add: rest_def)
    moreover have "length (split_frames (rest ?f)) \<le> n" using Suc.prems(3) s fr(2) rest' by simp
    ultimately obtain f' io' where
      "info_loop n (int (length (content f))) ?f (int (pos f) + int (length fr)) ?io = Some (1, f', io')"
      "content f' = content f" "7350 \<le> sftable ! nat (sr io')"
      "sr io' \<in> (\<lambda>fr. frequency_index (fr ! 2)) ` set frs"
      "frame_count io' = frame_count io + 1 + int (length frs)" "ch io' \<in> {0, 1}"
      using Suc.IH [of ?f ?io] rest' fr(2) by auto
    then show ?thesis using step True s by auto
  next
    case False
    then have "drop (length fr) (rest f) = []" using pos by simp
    then have "frs = []" using fr(2) by (subst (asm) cut_frames.simps) simp
    then show ?thesis using step False f1(2) v(2,4) g s by auto
  qed
qed

lemma seek_framed:
  assumes "split_frames bs = fr # frs" "10 \<le> length bs" "fs t = Some f" "content f = bs"
  shows "\<exists>f'. aac_SeekTo1Frame t = (0, t\<lparr>fs := Some f'\<rparr>) \<and> content f' = bs \<and> pos f' = 0"
proof -
  obtain buf f1 where b: "fread 50000 (seek_to 0 f) = (buf, f1)" by fastforce
  then have buf: "buf = take 50000 bs" "content f1 = bs"
    using assms(4) by (auto simp: fread_def seek_to_def Let_def)
  note fr = split_frames_Cons [OF assms(1)]
  have "aac_IsValidFrameHeader (take 7 bs) \<noteq> 0" using fr(3,4) by simp
  then have "syncword (bs ! 0) (bs ! 1) = 0x0FFF"
    using valid_both [of "take 7 bs" 0] by force
  then have "seek_scan buf 0 = 0" using buf(1) assms(2)
    by (subst seek_scan.simps) (auto simp: min_def)
  then show ?thesis using b buf(2) assms(3)
    by (auto simp: aac_SeekTo1Frame_def seek_to_def)
qed

section \<open>Properties\<close>

lemma round_rate: "7350 \<le> r \<Longrightarrow> 0 < c_round (of_int r / 1024)"
  by (simp add: c_round_def zero_less_floor)

text \<open>What \<open>aac_GetFileInfo\<close> does with a file of frames.\<close>

lemma info_framed:
  assumes "adts_framed bs" "10 \<le> length bs" "length (split_frames bs) \<le> n"
  obtains ret io t1 where "aac_GetFileInfo rnd n True (Some bs) t io0 = Some (ret, io, t1)"
    "frame_count io = int (length (split_frames bs))"
    "ret = -1 \<or> ret = 1 \<and> (\<exists>f. fs t1 = Some f \<and> content f = bs) \<and> 0 < frames_to_read t1 \<and>
       total_frames t1 = int (length (split_frames bs))"
    "\<exists>fr \<in> set (split_frames bs). let rate = sftable ! nat (frequency_index (fr ! 2));
       play = play_time rnd (int (length (split_frames bs))) rate in
       (ret = 1 \<longleftrightarrow> 0 < play \<and> 32 \<le> bit_rate rnd (length bs) play \<and>
          bit_rate rnd (length bs) play \<le> 320) \<and>
       (ret = 1 \<longrightarrow> frames_to_read t1 = c_round (of_int rate / 1024) \<and> sr io = rate \<and>
          32 \<le> br io \<and> br io \<le> 320 \<and> ch io \<in> {0, 1})"
proof -
  have "bs \<noteq> []" using assms(2) by auto
  then obtain fr frs where s: "split_frames bs = fr # frs"
    using adts_format.framed_Nil assms(1) by (cases "split_frames bs") blast+
  obtain f where f: "aac_SeekTo1Frame (t\<lparr>fs := Some (opened bs)\<rparr>) = (0, t\<lparr>fs := Some f\<rparr>)"
    "content f = bs" "pos f = 0"
    using seek_framed [OF s assms(2), of "t\<lparr>fs := Some (opened bs)\<rparr>" "opened bs"]
    by (auto simp: opened_def)
  have r: "rest f = bs" using f by (simp add: rest_def)
  obtain f' io where l: "info_loop n (int (length bs)) f 0 (io0\<lparr>frame_count := 0\<rparr>) = Some (1, f', io)"
    "content f' = bs" "7350 \<le> sftable ! nat (sr io)"
    "sr io \<in> (\<lambda>fr. frequency_index (fr ! 2)) ` set (split_frames bs)"
    "frame_count io = int (length (split_frames bs))" "ch io \<in> {0, 1}"
    using info_loop_framed [of f n "io0\<lparr>frame_count := 0\<rparr>"] assms \<open>bs \<noteq> []\<close> f r by auto
  let ?rate = "sftable ! nat (sr io)"
  let ?play = "play_time rnd (frame_count io) ?rate"
  let ?br = "if ?play > 0 then bit_rate rnd (length bs) ?play else br io"
  let ?io2 = "io\<lparr>spf := 1024, sr := ?rate, m_play_time := \<lfloor>?play\<rfloor>, br := ?br\<rparr>"
  let ?per = "c_round (of_int ?rate / 1024)"
  let ?io3 = "if ?play > 0 then ?io2\<lparr>m_frames_to_read := ?per\<rparr> else ?io2"
  let ?t2 = "t\<lparr>fs := Some f', total_frames := frame_count io\<rparr>"
  let ?t3 = "if ?play > 0 then ?t2\<lparr>frames_to_read := ?per\<rparr> else ?t2"
  have e: "aac_GetFileInfo rnd n True (Some bs) t io0 =
      (if ?play \<le> 0 \<or> ?br < 32 \<or> ?br > 320 then Some (-1, ?io3, close_fs ?t3)
       else Some (1, ?io3, ?t3))"
    using f(1) l(1) by (simp add: aac_GetFileInfo_def Let_def)
  obtain fr where fr: "fr \<in> set (split_frames bs)" "sr io = frequency_index (fr ! 2)"
    using l(4) by blast
  show thesis
  proof (cases "?play \<le> 0 \<or> ?br < 32 \<or> ?br > 320")
    case True
    have x: "aac_GetFileInfo rnd n True (Some bs) t io0 = Some (-1, ?io3, close_fs ?t3)"
      using e True by argo
    have y: "\<not> (0 < ?play \<and> 32 \<le> bit_rate rnd (length bs) ?play \<and>
       bit_rate rnd (length bs) ?play \<le> 320)" using True by auto
    show thesis
      by (rule that [OF x])
        (use l(5) y fr in \<open>auto simp: Let_def intro!: bexI [of _ fr]\<close>)
  next
    case False
    then have p: "?play > 0" and y: "32 \<le> bit_rate rnd (length bs) ?play"
       "bit_rate rnd (length bs) ?play \<le> 320" by auto
    have x: "aac_GetFileInfo rnd n True (Some bs) t io0 = Some (1, ?io3, ?t3)" using e False by argo
    show thesis
      by (rule that [OF x])
        (use p y l(2,5,6) round_rate [OF l(3)] fr in \<open>auto simp: Let_def intro!: bexI [of _ fr]\<close>)
  qed
qed

text \<open>A file that was accepted starts at its first frame.\<close>

lemma accepted_starts:
  assumes "fs t1 = Some f" "content f = bs" "0 < frames_to_read t1"
    and "total_frames t1 = int (length (split_frames bs))" "adts_framed bs" "10 \<le> length bs"
  shows "\<exists>t2. aac_StartPlay t1 = (True, t2) \<and> aac_ready t2 \<and> aac_left t2 = split_frames bs \<and>
    frames_to_read t2 = frames_to_read t1"
proof -
  have "bs \<noteq> []" using assms(6) by auto
  then obtain a as where s: "split_frames bs = a # as"
    using adts_format.framed_Nil assms(5) by (cases "split_frames bs") blast+
  obtain f' where k: "aac_SeekTo1Frame (t1\<lparr>send_frame_number := 0\<rparr>) =
      (0, t1\<lparr>send_frame_number := 0, fs := Some f'\<rparr>)" "content f' = bs" "pos f' = 0"
    using seek_framed [OF s assms(6), of "t1\<lparr>send_frame_number := 0\<rparr>" f] assms(1,2) by auto
  let ?t2 = "t1\<lparr>send_frame_number := 0, fs := Some f'\<rparr>"
  have r: "rest f' = bs" using k by (simp add: rest_def)
  then have "aac_left ?t2 = split_frames bs" by (simp add: aac_left_def)
  moreover from this r have "aac_ready ?t2" using assms(3-5) by (simp add: aac_ready_def)
  moreover have "aac_StartPlay t1 = (True, ?t2)" using k(1) assms(1) by (simp add: aac_StartPlay_def)
  ultimately show ?thesis by simp
qed


definition demo_header :: "byte list" where
  "demo_header = [0xFF, 0xF1, 0x40, 0x80, 0x06, 0x5F, 0xFC]"

definition demo_frame :: "byte list" where
  "demo_frame = demo_header @ replicate 43 7"

abbreviation "no_aac \<equiv>
  \<lparr>fs = None, send_frame_number = 0, frames_to_read = 0, total_frames = 0\<rparr>"

abbreviation "no_info \<equiv> \<lparr>br = 0, spf = 0, sr = 0, frame_count = 0, ch = 0,
  m_frames_to_read = 0, m_play_time = 0\<rparr>"

lemma demo_accepted:
  "case aac_GetFileInfo id 2 True (Some (demo_frame @ demo_frame)) no_aac no_info of
     None \<Rightarrow> False
   | Some (ret, io, t) \<Rightarrow> ret = 1 \<and> frame_count io = 2 \<and> sr io = 96000 \<and> m_frames_to_read io = 94"
  by code_simp


text \<open>
  A header that gives its frame the length 0 makes \<open>aac_GetFileInfo\<close> loop for ever: the
  scan accepts the length (\<open>aac_GetFrames\<close> would not), steps back to the header it has just
  read, and its only end test, the position, never moves.
\<close>

theorem aac_zero_length_hangs:
  assumes "10 \<le> length bs" and "\<And>sf. \<exists>p f c. aac_IsValidFrameHeader5 (take 7 bs) sf = (True, p, 0, f, c)"
  shows "aac_GetFileInfo rnd n True (Some bs) t io0 = None"
proof -
  have sync: "syncword (bs ! 0) (bs ! 1) = 0x0FFF"
    using assms(2) [of 0] by (auto simp: aac_IsValidFrameHeader5_def split: if_splits)
  obtain buf f1 where b: "fread 50000 (seek_to 0 (opened bs)) = (buf, f1)" by fastforce
  then have buf: "buf = take 50000 bs" "content f1 = bs"
    by (auto simp: fread_def seek_to_def opened_def Let_def)
  have "seek_scan buf 0 = 0" using buf(1) assms(1) sync
    by (subst seek_scan.simps) (auto simp: min_def)
  then have seek: "aac_SeekTo1Frame (t\<lparr>fs := Some (opened bs)\<rparr>) = (0, t\<lparr>fs := Some (seek_to 0 f1)\<rparr>)"
    using b by (simp add: aac_SeekTo1Frame_def)
  have "content f = bs \<Longrightarrow> pos f = 0 \<Longrightarrow> info_loop m (int (length bs)) f 0 io = None" for m f io
  proof (induction m arbitrary: f io)
    case (Suc m)
    obtain f1 where f1: "fread 7 f = (take 7 bs, f1)" "content f1 = bs" "pos f1 = 7"
      using fread_exact [of f "take 7 bs" "drop 7 bs"] Suc.prems assms(1)
      by (auto simp: rest_def)
    obtain p g c where v: "aac_IsValidFrameHeader5 (take 7 bs) (sr io) = (True, p, 0, g, c)"
      using assms(2) by blast
    have "content (seek_cur (- 7) f1) = bs" "pos (seek_cur (- 7) f1) = 0"
      using f1 by (simp_all add: seek_cur_def seek_to_def)
    moreover have "bs \<noteq> []" using assms(1) by auto
    ultimately show ?case using Suc.IH f1(1) v assms(1) by (simp add: c_header_size_def Let_def)
  qed simp
  then show ?thesis
    using seek buf(2) by (simp add: aac_GetFileInfo_def seek_to_def Let_def)
qed

definition zero_frame :: "byte list" where
  "zero_frame = [0xFF, 0xF1, 0x50, 0x80, 0, 0x1F, 0xFC, 0, 0, 0]"

lemma zero_header: "aac_IsValidFrameHeader5 (take 7 zero_frame) sf = (True, 1, 0, 4, 1)"
  by code_simp

theorem aac_zero_length_hangs_witness:
  "\<forall>n. aac_GetFileInfo id n True (Some zero_frame) no_aac no_info = None"
proof
  fix n
  have "10 \<le> length zero_frame" by (simp add: zero_frame_def)
  moreover have "\<exists>p f c. aac_IsValidFrameHeader5 (take 7 zero_frame) sf = (True, p, 0, f, c)" for sf
    using zero_header by blast
  ultimately show "aac_GetFileInfo id n True (Some zero_frame) no_aac no_info = None"
    by (rule aac_zero_length_hangs)
qed

text \<open>
  A file that does not begin with its first frame is refused: \<open>aac_SeekTo1Frame\<close> finds the
  frame but leaves the file at its start, and the scan reads its first header there.
\<close>

theorem aac_needs_frame_at_start:
  assumes "syncword (bs ! 0) (bs ! 1) \<noteq> 0x0FFF" and "0 < n"
  shows "\<exists>io t'. aac_GetFileInfo rnd n True (Some bs) t io0 = Some (-1, io, t') \<and> fs t' = None"
proof -
  obtain i f where seek: "aac_SeekTo1Frame (t\<lparr>fs := Some (opened bs)\<rparr>) = (i, t\<lparr>fs := Some f\<rparr>)"
    "content f = bs" "pos f = 0"
    by (auto simp: aac_SeekTo1Frame_def opened_def fread_def seek_to_def Let_def)
  obtain m where m: "n = Suc m" using assms(2) by (cases n) auto
  obtain h f1 where h: "fread 7 f = (h, f1)" by fastforce
  then have "h = take 7 bs" using seek by (auto simp: fread_def Let_def)
  then have "length h < 7 \<or> aac_IsValidFrameHeader5 h sf = (False, 0, 0, sf, 0)" for sf
    using assms(1) by (auto simp: aac_IsValidFrameHeader5_def)
  then have "\<exists>f' io'. info_loop n sz f i (io0\<lparr>frame_count := 0\<rparr>) = Some (-1, f', io')" for sz
    using h m by (cases "length h < 7") (auto simp: c_header_size_def Let_def)
  then obtain f' io' where
    l: "info_loop n (int (length bs)) f i (io0\<lparr>frame_count := 0\<rparr>) = Some (-1, f', io')"
    by blast
  show ?thesis
    using seek l by (cases "i = -1") (simp_all add: aac_GetFileInfo_def close_fs_def)
qed

theorem aac_needs_frame_at_start_witness:
  "aac_SeekTo1Frame (no_aac\<lparr>fs := Some (opened (0 # demo_frame))\<rparr>)
     = (1, no_aac\<lparr>fs := Some (opened (0 # demo_frame))\<rparr>) \<and>
   (\<exists>io t'. aac_GetFileInfo id 9 True (Some (0 # demo_frame)) no_aac no_info = Some (-1, io, t'))"
proof
  show "aac_SeekTo1Frame (no_aac\<lparr>fs := Some (opened (0 # demo_frame))\<rparr>)
     = (1, no_aac\<lparr>fs := Some (opened (0 # demo_frame))\<rparr>)"
    by code_simp
  have "syncword ((0 # demo_frame) ! 0) ((0 # demo_frame) ! 1) \<noteq> 0x0FFF" by code_simp
  from aac_needs_frame_at_start [OF this, of 9 id no_aac no_info]
  show "\<exists>io t'. aac_GetFileInfo id 9 True (Some (0 # demo_frame)) no_aac no_info = Some (-1, io, t')"
    by auto
qed

text \<open>Forty-three frames of 5000 bytes, one second of sound, in front of a thousand small ones.\<close>

definition big_frame :: "byte list" where
  "big_frame = [0xFF, 0xF1, 0x50, 0x82, 0x71, 0x1F, 0xFC] @ replicate 4993 0"

definition small_frame :: "byte list" where
  "small_frame = [0xFF, 0xF1, 0x50, 0x80, 0x01, 0x1F, 0xFC, 0]"

definition loud_file :: "byte list" where
  "loud_file = concat (replicate 43 big_frame @ replicate 1000 small_frame)"

lemma loud_frames: "adts_frame big_frame" "adts_frame small_frame"
proof -
  have "aac_IsValidFrameHeader [0xFF, 0xF1, 0x50, 0x82, 0x71, 0x1F, 0xFC] = 5000" by code_simp
  then show "adts_frame big_frame" by (simp add: is_frame_def big_frame_def)
  show "adts_frame small_frame" by code_simp
qed

lemma loud_rate:
  "sftable ! nat (frequency_index (big_frame ! 2)) = 44100"
  "sftable ! nat (frequency_index (small_frame ! 2)) = 44100"
proof -
  have "sftable ! nat (frequency_index 0x50) = 44100" by code_simp
  then show "sftable ! nat (frequency_index (big_frame ! 2)) = 44100"
    "sftable ! nat (frequency_index (small_frame ! 2)) = 44100"
    by (simp_all add: big_frame_def small_frame_def)
qed

text \<open>
  The player's buffer can be overrun: it has 100000 bytes (\<open>Buf_size\<close> in
  \<open>playlist.cpp\<close>), \<open>aac_GetFrames\<close> writes a second's worth of frames of up to 5000 bytes
  into it, and the check of the average bit rate accepts a file whose first call writes 215000.
\<close>

theorem aac_overruns_buffer:
  "\<exists>io t1 t2 b t3. aac_GetFileInfo id 1043 True (Some loud_file) no_aac no_info = Some (1, io, t1) \<and>
     aac_StartPlay t1 = (True, t2) \<and> aac_call t2 = (b, t3) \<and> length b = 215000"
proof -
  let ?frs = "replicate 43 big_frame @ replicate 1000 small_frame"
  have frs: "\<forall>fr \<in> set ?frs. adts_frame fr" using loud_frames by auto
  have sp: "split_frames loud_file = ?frs" and fr: "adts_framed loud_file"
    unfolding loud_file_def using adts_format.cut_concat [OF frs] adts_format.framed_concat [OF frs] by simp_all
  have lens: "length big_frame = 5000" "length small_frame = 8"
    by (simp_all add: big_frame_def small_frame_def)
  have sum: "length (concat (replicate k (x :: byte list))) = k * length x" for k x
    by (induction k) simp_all
  have len: "length loud_file = 223000" using lens by (simp add: loud_file_def sum)
  obtain ret io t1 where i:
    "aac_GetFileInfo id 1043 True (Some loud_file) no_aac no_info = Some (ret, io, t1)"
    "ret = -1 \<or> ret = 1 \<and> (\<exists>f. fs t1 = Some f \<and> content f = loud_file) \<and> 0 < frames_to_read t1 \<and>
       total_frames t1 = int (length (split_frames loud_file))"
    "\<exists>fr \<in> set ?frs. let rate = sftable ! nat (frequency_index (fr ! 2));
       play = play_time id (int (length ?frs)) rate in
       (ret = 1 \<longleftrightarrow> 0 < play \<and> 32 \<le> bit_rate id (length loud_file) play \<and>
          bit_rate id (length loud_file) play \<le> 320) \<and>
       (ret = 1 \<longrightarrow> frames_to_read t1 = c_round (of_int rate / 1024) \<and> sr io = rate \<and>
          32 \<le> br io \<and> br io \<le> 320 \<and> ch io \<in> {0, 1})"
    by (rule info_framed [OF fr, of 1043 id no_aac no_info]) (use len in \<open>auto simp: sp\<close>)
  have per: "ret = 1 \<and> frames_to_read t1 = 43"
    using i(3) loud_rate len
    by (auto simp: Let_def play_time_def bit_rate_def c_round_def floor_eq_iff split: if_splits)
  obtain f where f: "fs t1 = Some f" "content f = loud_file" "total_frames t1 = 1043"
    using i(2) per sp by auto
  obtain a as where s: "split_frames loud_file = a # as" using sp by (cases ?frs) auto
  obtain f' where k: "aac_SeekTo1Frame (t1\<lparr>send_frame_number := 0\<rparr>) =
      (0, t1\<lparr>send_frame_number := 0, fs := Some f'\<rparr>)" "content f' = loud_file" "pos f' = 0"
    using seek_framed [OF s, of "t1\<lparr>send_frame_number := 0\<rparr>" f] f(1,2) len by auto
  let ?t2 = "t1\<lparr>send_frame_number := 0, fs := Some f'\<rparr>"
  have start: "aac_StartPlay t1 = (True, ?t2)" using k(1) f(1) by (simp add: aac_StartPlay_def)
  have left: "aac_left ?t2 = ?frs" using sp k by (simp add: aac_left_def rest_def)
  have ready: "aac_ready ?t2" using f fr k left per by (simp add: aac_ready_def rest_def)
  obtain b t3 where c: "aac_call ?t2 = (b, t3)" by fastforce
  then have "b = concat (take 43 ?frs)" using adts.call [OF ready c] left per by simp
  then have "length b = 215000" using lens by (simp add: sum)
  then show ?thesis using i(1) per start c by blast
qed

end
