(* ===== verification/Player_Aac.thy ===== *)
theory Player_Aac
  imports Player_Run Aac
begin

text \<open>
  The AAC stream: the reader functions the constructor of \<open>TPlaylist\<close> puts into its table
  (\<open>playlist.cpp\<close> 71-80, with the free functions of \<open>aac.cpp\<close>), that they give the player
  what it relies on, and what follows for the stream. \<open>audio f\<close> is what \<open>fopen\<close> finds under
  the name \<open>f\<close>.
\<close>

definition aac_info :: "tfile_info \<Rightarrow> Aac.file_info" where
  "aac_info fi =
     Aac.file_info.make (fi_bitrate fi) (fi_spf fi) (fi_simple_frequency fi) (fi_frames fi)
       (fi_channel_configuration fi) (fi_frames_to_read fi) (fi_play_time fi)"

definition from_aac :: "tfile_info \<Rightarrow> Aac.file_info \<Rightarrow> tfile_info" where
  "from_aac fi io =
     fi\<lparr>fi_bitrate := Aac.br io, fi_spf := Aac.spf io, fi_simple_frequency := Aac.sr io,
        fi_frames := Aac.frame_count io, fi_channel_configuration := Aac.ch io,
        fi_frames_to_read := Aac.m_frames_to_read io, fi_play_time := Aac.m_play_time io\<rparr>"

definition aac_fmt :: "(rat \<Rightarrow> rat) \<Rightarrow> nat \<Rightarrow> (string \<Rightarrow> byte list option) \<Rightarrow> taac fmt" where
  "aac_fmt rnd n audio =
     \<lparr>fmt_GetFileInfo = (\<lambda>f fi t.
        map_option (\<lambda>(k, io, t'). (k, from_aac fi io, t'))
          (aac_GetFileInfo rnd n (audio f \<noteq> None) (audio f) t (aac_info fi))),
      fmt_start_play = aac_StartPlay, fmt_GetFrames = aac_call, fmt_stop_play = Aac.close_fs\<rparr>"

text \<open>The files the AAC reader plays whole at the given sample rate.\<close>

definition aac_plays :: "(rat \<Rightarrow> rat) \<Rightarrow> nat \<Rightarrow> int \<Rightarrow> byte list \<Rightarrow> bool" where
  "aac_plays rnd n rate bs \<longleftrightarrow>
     adts_framed bs \<and> 10 \<le> length bs \<and> length (split_frames bs) \<le> n \<and>
     (\<forall>fr \<in> set (split_frames bs). sftable ! nat (frequency_index (fr ! 2)) = rate) \<and>
     (let play = play_time rnd (int (length (split_frames bs))) rate
      in 0 < play \<and> 32 \<le> bit_rate rnd (length bs) play \<and> bit_rate rnd (length bs) play \<le> 320)"

definition aac_block :: "int \<Rightarrow> nat" where
  "aac_block rate = nat (c_round (of_int rate / 1024)) * 5000"


definition aac_announced :: "int \<Rightarrow> tfile_info \<Rightarrow> bool" where
  "aac_announced rate fi \<longleftrightarrow> fi_simple_frequency fi = rate \<and>
     32 \<le> fi_bitrate fi \<and> fi_bitrate fi \<le> 320 \<and> fi_channel_configuration fi \<in> {0, 1}"

interpretation aac_tracks: good_tracks "aac_fmt rnd n audio" "\<lambda>f. the (audio f)"
  "\<lambda>f. \<exists>bs. audio f = Some bs \<and> aac_plays rnd n rate bs" rate "aac_announced rate" "aac_block rate"
proof unfold_locales
  fix f fi r
  assume "\<exists>bs. audio f = Some bs \<and> aac_plays rnd n rate bs"
  then obtain bs where a: "audio f = Some bs" and pl: "aac_plays rnd n rate bs" by blast
  note p = pl [unfolded aac_plays_def Let_def]
  obtain ret io t1 where i: "aac_GetFileInfo rnd n True (Some bs) r (aac_info fi) = Some (ret, io, t1)"
    "ret = -1 \<or> ret = 1 \<and> (\<exists>f. fs t1 = Some f \<and> content f = bs) \<and> 0 < frames_to_read t1 \<and>
       total_frames t1 = int (length (split_frames bs))"
    "\<exists>fr \<in> set (split_frames bs). let rate = sftable ! nat (frequency_index (fr ! 2));
       play = play_time rnd (int (length (split_frames bs))) rate in
       (ret = 1 \<longleftrightarrow> 0 < play \<and> 32 \<le> bit_rate rnd (length bs) play \<and>
          bit_rate rnd (length bs) play \<le> 320) \<and>
       (ret = 1 \<longrightarrow> frames_to_read t1 = c_round (of_int rate / 1024) \<and> sr io = rate \<and>
          32 \<le> br io \<and> br io \<le> 320 \<and> ch io \<in> {0, 1})"
    using info_framed [of bs n rnd r "aac_info fi"] p by metis
  have ok: "ret = 1" "frames_to_read t1 = c_round (of_int rate / 1024)" "sr io = rate"
    "32 \<le> br io" "br io \<le> 320" "ch io \<in> {0, 1}"
    using i(3) p by (auto simp: Let_def)
  then obtain g where g: "fs t1 = Some g" "content g = bs" "0 < frames_to_read t1"
    "total_frames t1 = int (length (split_frames bs))" using i(2) by auto
  obtain t2 where t2: "aac_StartPlay t1 = (True, t2)" "aac_ready t2" "aac_left t2 = split_frames bs"
    "frames_to_read t2 = frames_to_read t1"
    using accepted_starts [OF g] p by blast
  have "nat (frames_to_read t2) * 5000 \<le> aac_block rate" using t2(4) ok(2) by (simp add: aac_block_def)
  from adts.feeds_left [OF t2(2) _ this] have "feeds aac_call (aac_block rate) t2 (concat (split_frames bs))"
    using t2(3) adts_format.cut_are_frames by simp
  moreover have "concat (split_frames bs) = bs" using p by (simp add: framed_def)
  ultimately show "\<exists>k fi' r1 r2. fmt_GetFileInfo (aac_fmt rnd n audio) f fi r = Some (k, fi', r1) \<and>
      k \<noteq> - 1 \<and> fi_simple_frequency fi' = rate \<and>
      fi_icecast_sample_rate fi' = fi_icecast_sample_rate fi \<and> aac_announced rate fi' \<and>
      fmt_start_play (aac_fmt rnd n audio) r1 = (True, r2) \<and>
      feeds (fmt_GetFrames (aac_fmt rnd n audio)) (aac_block rate) r2 (the (audio f))"
    using a i(1) ok t2(1) by (simp add: aac_fmt_def from_aac_def aac_announced_def)
qed (simp add: aac_announced_def)


text \<open>Two small files.\<close>

definition demo_audio :: "string \<Rightarrow> byte list option" where
  "demo_audio = [''a'' \<mapsto> demo_frame @ demo_frame, ''b'' \<mapsto> demo_frame @ demo_frame @ demo_frame]"

definition demo_player :: "taac player" where
  "demo_player = TPlaylist_new (tclient_new 8000 5 0 5) no_aac (demo_par\<lparr>playlist := [''a'', ''b'']\<rparr>) (\<lambda>_. None)"

lemma aac_demo_plays:
  "aac_plays id 3 96000 (demo_frame @ demo_frame)"
  "aac_plays id 3 96000 (demo_frame @ demo_frame @ demo_frame)"
  by code_simp+

lemma demo_block: "aac_block 96000 = 470000"
proof -
  have "c_round (of_int 96000 / 1024) = 94" unfolding c_round_def by (rule floor_unique) simp_all
  then show ?thesis by (simp add: aac_block_def)
qed

lemma demo_smooth: "smooth (aac_block 96000) (demo_turn 470000)"
  by (simp add: smooth_def demo_turn_def demo_block)

lemma aac_demo_header:
  assumes "aac_announced 96000 fi"
  shows "\<exists>h. header_text demo_cfg fi = Some h \<and> length h \<le> aac_block 96000"
  using demo_printed [of fi] assms by (fastforce simp: aac_announced_def demo_block)

section \<open>Properties\<close>




end
