(* ===== verification/Mpx.thy ===== *)
theory Mpx
  imports Complex_Main "HOL-Library.Monad_Syntax" Frames
begin

text \<open>
  The MPEG audio reader of the player (\<open>tmpx\<close> of \<open>accordion_V10.X/mpx.cpp\<close>): tags in
  front of the sound, the search for the first frame, frame sizes, the scan of the file and the
  reading of one second of frames at a time. Messages to the log and to the console are left out.
\<close>

unbundle bit_operations_syntax

section \<open>The reader's state\<close>

text \<open>
  \<open>pInfo\<close> is the structure \<open>TInfo\<close> as its ten bytes: three of \<open>ID\<close>, \<open>Version\<close>,
  \<open>Revision\<close>, \<open>Flags\<close>, four of \<open>Size\<close>.
\<close>

record tmpx =
  fs :: "cfile option"
  send_frame_number :: int
  frames_to_read :: int
  total_frames :: int
  pInfo :: "byte list"

record file_info =
  br :: rat
  spf :: int
  sr :: int
  frame_count :: int
  ch :: int
  m_frames_to_read :: int
  m_play_time :: int

definition brtable :: "int list" where
  "brtable =
     [0, 32, 64, 96, 128, 160, 192, 224, 256, 288, 320, 352, 384, 416, 448, 0,
      0, 32, 48, 56, 64, 80, 96, 112, 128, 160, 192, 224, 256, 320, 384, 0,
      0, 32, 40, 48, 56, 64, 80, 96, 112, 128, 160, 192, 224, 256, 320, 0,
      0, 32, 48, 56, 64, 80, 96, 112, 128, 144, 160, 176, 192, 224, 256, 0,
      0, 8, 16, 24, 32, 40, 48, 56, 64, 80, 96, 112, 128, 144, 160, 0]"

definition srtable :: "int list" where
  "srtable = [44100, 48000, 32000, 0, 22050, 24000, 16000, 0, 11025, 12000, 8000, 0]"

definition c_header_size :: int where "c_header_size = 4"
definition sizeof_TInfo :: int where "sizeof_TInfo = 10"

section \<open>Headers\<close>

text \<open>
  The source compares the first byte, a \<open>char\<close> with a sign, with 255: the comparison can
  only say \<open>different\<close>.
\<close>

definition bad_sync :: "byte list \<Rightarrow> bool" where
  "bad_sync h \<longleftrightarrow> schar (h ! 0) \<noteq> 0xFF \<and> (schar (h ! 1) AND 0xE0) \<noteq> 0xE0"

definition mpegver :: "byte list \<Rightarrow> int" where
  "mpegver h = drop_bit 3 (schar (h ! 1) AND 0x18)"

definition layer :: "byte list \<Rightarrow> int" where
  "layer h = drop_bit 1 (schar (h ! 1) AND 0x06)"

definition brindex :: "byte list \<Rightarrow> int" where
  "brindex h = drop_bit 4 (schar (h ! 2) AND 0xF0)"

definition srindex :: "byte list \<Rightarrow> int" where
  "srindex h = drop_bit 2 (schar (h ! 2) AND 0x0C)"

definition padding :: "byte list \<Rightarrow> int" where
  "padding h = drop_bit 1 (schar (h ! 2) AND 0x02)"

definition mpx_IsValidFrameHeader :: "byte list \<Rightarrow> bool" where
  "mpx_IsValidFrameHeader h \<longleftrightarrow>
     \<not> bad_sync h \<and> \<not> (mpegver h = 1 \<or> mpegver h > 3) \<and> \<not> layer h > 3 \<and>
     \<not> brindex h > 0x0E \<and> \<not> srindex h \<ge> 3"

definition mpx_bitrate :: "byte list \<Rightarrow> int" where
  "mpx_bitrate h =
     1000 * (if mpegver h = 3 \<and> layer h = 3 then brtable ! nat (brindex h)
             else if mpegver h = 3 \<and> layer h = 2 then brtable ! nat (brindex h + 16)
             else if mpegver h = 3 \<and> layer h = 1 then brtable ! nat (brindex h + 32)
             else if layer h = 3 then brtable ! nat (brindex h + 48)
             else brtable ! nat (brindex h + 64))"

text \<open>All operands are positive, so that the source's integer division is \<open>div\<close>.\<close>

definition mpx_GetFrameSize :: "byte list \<Rightarrow> int" where
  "mpx_GetFrameSize h =
     (let v = mpegver h; l = layer h in
      if bad_sync h \<or> v = 1 \<or> v > 3 \<or> l = 0 \<or> l > 3 \<or> srindex h \<ge> 3 then 0
      else
        let bitrate = mpx_bitrate h;
            rate = srtable ! nat (srindex h + (if v = 0 then 8 else if v = 2 then 4 else 0))
        in if l = 3 then 12 * bitrate div rate * 4 + padding h * 4
           else if v = 3 \<or> l = 2 then 144 * bitrate div rate + padding h
           else 72 * bitrate div rate + padding h)"

section \<open>Tags in front of the sound\<close>

text \<open>\<open>fread\<close> over the ten bytes of \<open>pInfo\<close>; a short read leaves the rest as it was.\<close>

definition read_info :: "cfile \<Rightarrow> byte list \<Rightarrow> byte list \<times> cfile" where
  "read_info f old =
     (let (got, f1) = fread sizeof_TInfo f in (got @ drop (length got) old, f1))"

definition ID3 :: "byte list" where "ID3 = [0x49, 0x44, 0x33]"
definition TAG :: "byte list" where "TAG = [0x54, 0x41, 0x47]"

definition GetStartPos :: "cfile \<Rightarrow> int \<times> byte list \<times> cfile" where
  "GetStartPos f0 =
     (let (info, f1) = read_info (seek_to 0 f0) (replicate 10 0) in
      if take 3 info = ID3 then
        (uint (info ! 9) OR push_bit 7 (uint (info ! 8)) OR push_bit 14 (uint (info ! 7))
           OR push_bit 21 (uint (info ! 6)),
         info, seek_to 0 f1)
      else
        let (info2, f2) = read_info (seek_end (-128) f1) info
        in (0, if take 3 info2 = TAG then info2[3 := 1] else info2, seek_to 0 f2))"

section \<open>The first frame\<close>

text \<open>
  The scan over the (at most 50000) bytes read, from \<open>pos\<close> on. The byte behind the last is
  looked at only when nothing can be found any more.
\<close>

function seek_scan :: "byte list \<Rightarrow> nat \<Rightarrow> int" where
  "seek_scan buf p =
     (if p < length buf then
        if buf ! p = 0xFF \<and> p + 1 < length buf \<and> uint (buf ! (p + 1)) AND 0xE0 = 0xE0 then
          if int (length buf) - int p < 10 then -1
          else
            let h = take 4 (drop p buf) in
            if mpx_IsValidFrameHeader h \<and> mpx_GetFrameSize h \<noteq> 0 then
              let q = int p + mpx_GetFrameSize h in
              if q + 4 > int (length buf) then -1
              else if mpx_IsValidFrameHeader (take 4 (drop (nat q) buf)) then int p
              else seek_scan buf (p + 1)
            else seek_scan buf (p + 1)
        else seek_scan buf (p + 1)
      else -1)"
  by pat_completeness auto
termination by (relation "measure (\<lambda>(buf, p). length buf - p)") auto

declare seek_scan.simps [simp del]

definition mpx_SeekTo1Frame :: "tmpx \<Rightarrow> int \<times> tmpx" where
  "mpx_SeekTo1Frame t =
     (case fs t of
        None \<Rightarrow> (-1, t)
      | Some f \<Rightarrow>
          let (m_start_pos, info, f1) = GetStartPos f;
              (buf, f2) = fread 50000 (seek_to m_start_pos f1);
              p = seek_scan buf 0;
              ret = (if p = -1 then -1 else p + m_start_pos)
          in (ret, t\<lparr>pInfo := info, fs := Some (seek_to ret f2)\<rparr>))"

definition close_fs :: "tmpx \<Rightarrow> tmpx" where
  "close_fs t = t\<lparr>fs := None\<rparr>"

section \<open>The scan of the file\<close>

text \<open>
  The loop over the frames: the header at hand, the count. The end flag is never set at its
  head, since every read that sets it leaves the loop.
\<close>

lemma fread_shrinks:
  "fread n f = (h, f') \<Longrightarrow> length (rest f') + length h = length (rest f)"
  by (auto simp: fread_def rest_def Let_def split: if_splits)

lemma seek_cur_shrinks: "0 \<le> d \<Longrightarrow> length (rest (seek_cur d f)) \<le> length (rest f)"
  by (simp add: seek_cur_def seek_to_def rest_def)

function info_loop :: "cfile \<Rightarrow> byte list \<Rightarrow> int \<Rightarrow> int \<times> cfile" where
  "info_loop f h m_frame =
     (if eof f then (m_frame, f)
      else
        let frame_length = mpx_GetFrameSize h in
        if frame_length = 0 \<or> frame_length > 50000 then (m_frame, f)
        else if frame_length > c_header_size then
          case fread c_header_size (seek_cur (frame_length - c_header_size) f) of
            (h', f2) \<Rightarrow> if int (length h') < c_header_size then (m_frame + 1, f2)
                        else info_loop f2 h' (m_frame + 1)
        else (m_frame + 1, f))"
  by pat_completeness auto
termination
proof (relation "measure (\<lambda>(f, h, m). length (rest f))", goal_cases)
  case (2 f h m x h' f2)
  have "length (rest (seek_cur (x - c_header_size) f)) \<le> length (rest f)"
    using 2 by (intro seek_cur_shrinks) simp
  moreover have "length (rest f2) + length h' = length (rest (seek_cur (x - c_header_size) f))"
    using 2(5) by (metis fread_shrinks)
  ultimately show ?case using 2 by (simp add: c_header_size_def)
qed simp

declare info_loop.simps [simp del]

text \<open>
  \<open>mpx_GetFileInfo\<close>. \<open>None\<close> is the division by a playing time of no whole second, which
  ends the program. \<open>m_play_time\<close> is never set.
\<close>

definition samples_per_frame :: "int \<Rightarrow> int \<Rightarrow> int" where
  "samples_per_frame v l =
     (if v = 3 then (if l = 3 then 384 else 1152)
      else if l = 3 then 384 else if l = 2 then 1152 else 576)"

definition mpx_GetFileInfo ::
  "(rat \<Rightarrow> rat) \<Rightarrow> bool \<Rightarrow> byte list option \<Rightarrow> tmpx \<Rightarrow> file_info \<Rightarrow> (int \<times> file_info \<times> tmpx) option"
where
  "mpx_GetFileInfo rnd exists file t io0 =
     (let io = io0\<lparr>frame_count := 0\<rparr> in
      if \<not> exists then Some (-1, io, t)
      else case file of
        None \<Rightarrow> Some (-1, io, t\<lparr>fs := None\<rparr>)
      | Some bs \<Rightarrow>
          let (p, t1) = mpx_SeekTo1Frame (t\<lparr>fs := Some (opened bs)\<rparr>) in
          if p = -1 then Some (-1, io, close_fs t1)
          else
            let (h, f1) = fread c_header_size (the (fs t1)); t2 = t1\<lparr>fs := Some f1\<rparr>;
                v = mpegver h; l = layer h in
            if int (length h) < c_header_size \<or> bad_sync h \<or> v = 1 \<or> v > 3 \<or> l < 1 \<or> l > 3
               \<or> brindex h < 0x01 \<or> brindex h > 0x0E \<or> srindex h \<ge> 0x03
            then Some (-1, io, close_fs t2)
            else
              let rate = srtable ! nat (srindex h + (if v = 3 then 0 else if v = 2 then 4 else 8));
                  chan = drop_bit 6 (schar (h ! 3) AND 0xC0);
                  (m_frame, f2) = info_loop f1 h 0;
                  s = samples_per_frame v l;
                  playtime = s * m_frame div rate in
              if playtime = 0 then None
              else
                let kbps = rnd (rnd (rnd (of_int (int (length bs) div playtime)) * 8) / 1000);
                    per = rate div s
                in Some (0, io\<lparr>frame_count := m_frame, sr := rate, spf := s, br := kbps,
                               ch := (if chan \<le> 2 then 2 else 1), m_frames_to_read := per\<rparr>,
                         t2\<lparr>fs := Some (seek_to p f2), frames_to_read := per,
                            total_frames := m_frame\<rparr>))"

section \<open>Playing\<close>

definition mpx_StartPlay :: "tmpx \<Rightarrow> bool \<times> tmpx" where
  "mpx_StartPlay t =
     (if fs t = None then (False, t)
      else
        let (i, t1) = mpx_SeekTo1Frame (t\<lparr>send_frame_number := 0\<rparr>)
        in (i \<noteq> -1, if i = -1 then close_fs t1 else t1))"

text \<open>
  The loop of \<open>mpx_GetFrames\<close> with \<open>n\<close> frames to go. A frame shorter than its own header
  makes \<open>bytes_to_read\<close> negative, and \<open>fread\<close> then takes everything up to the end of the
  file.
\<close>

fun mpx_frames_loop :: "nat \<Rightarrow> cfile \<Rightarrow> nat \<times> byte list \<times> byte list \<times> cfile" where
  "mpx_frames_loop 0 f = (0, [], [], f)"
| "mpx_frames_loop (Suc n) f =
     (let (h, f1) = fread c_header_size f in
      if int (length h) < c_header_size then (0, [], [], f1)
      else if \<not> mpx_IsValidFrameHeader h then (0, [], [], f1)
      else
        let buf_length = mpx_GetFrameSize h in
        if buf_length = 0 \<or> buf_length > 5000 then (0, [], [], f1)
        else
          let (body, f2) = fread (buf_length - c_header_size) f1 in
          if int (length body) < buf_length - c_header_size then (0, [], h @ body, f2)
          else
            let (k, sent, part, f3) = mpx_frames_loop n f2 in (k + 1, h @ body @ sent, part, f3))"

definition mpx_GetFrames :: "tmpx \<Rightarrow> byte list \<times> byte list \<times> tmpx" where
  "mpx_GetFrames t =
     (case fs t of
        None \<Rightarrow> ([], [], t)
      | Some f \<Rightarrow>
          if send_frame_number t \<ge> total_frames t then ([], [], t)
          else
            let (k, sent, part, f') = mpx_frames_loop (nat (frames_to_read t)) f
            in (sent, part, t\<lparr>fs := Some f', send_frame_number := send_frame_number t + int k\<rparr>))"

section \<open>Whole frames\<close>

text \<open>The length a header gives its frame, when the reader takes the frame whole.\<close>

definition mpx_length :: "byte list \<Rightarrow> int" where
  "mpx_length h =
     (if mpx_IsValidFrameHeader h \<and> 4 < mpx_GetFrameSize h \<and> mpx_GetFrameSize h \<le> 5000
      then mpx_GetFrameSize h else 0)"

interpretation mpeg_format: frame_format 4 mpx_length
  by unfold_locales (auto simp: mpx_length_def)

abbreviation mpeg_frame :: "byte list \<Rightarrow> bool" where
  "mpeg_frame \<equiv> is_frame 4 mpx_length"

abbreviation mpeg_framed :: "byte list \<Rightarrow> bool" where
  "mpeg_framed \<equiv> framed 4 mpx_length"

abbreviation mpeg_frames :: "byte list \<Rightarrow> byte list list" where
  "mpeg_frames \<equiv> cut_frames 4 mpx_length"

text \<open>On such a file the loop of \<open>mpx_GetFrames\<close> is the generic one.\<close>

lemma mpx_frames_read:
  "mpeg_framed (rest f) \<Longrightarrow> mpx_frames_loop n f = read_frames 4 mpx_length n f"
proof (induction n arbitrary: f)
  case (Suc n)
  show ?case
  proof (cases "mpeg_frames (rest f)")
    case Nil
    then have "rest f = []" using Suc.prems mpeg_format.framed_Nil by blast
    then have "fst (fread 4 f) = []" by (simp add: fread_def rest_def Let_def)
    then show ?thesis by (auto simp: c_header_size_def split: prod.splits)
  next
    case (Cons fr frs)
    note fr = mpeg_format.cut_Cons [OF Cons]
    obtain h f1 where h: "fread 4 f = (h, f1)" by fastforce
    then have ht: "h = take 4 (rest f)" by (auto simp: fread_def rest_def Let_def)
    then have len: "mpx_length h = int (length fr)" using fr(3) by simp
    then have ok: "mpx_IsValidFrameHeader h" "mpx_GetFrameSize h = int (length fr)"
      "0 < mpx_GetFrameSize h" "mpx_GetFrameSize h \<le> 5000"
      using fr(7) by (auto simp: mpx_length_def split: if_splits)
    have "length h = 4" using ht fr(4,6) by simp
    obtain f2 where f2: "rest f2 = drop (length fr) (rest f)"
      "read_frames 4 mpx_length (Suc n) f =
         (let (k, sent, part, f3) = read_frames 4 mpx_length n f2 in (k + 1, fr @ sent, part, f3))"
      by (rule mpeg_format.read_frame [OF Cons, of n]) blast
    have "mpx_frames_loop (Suc n) f =
        (let (body, f2) = fread (mpx_length h - 4) f1 in
          if int (length body) < mpx_length h - 4 then (0, [], h @ body, f2)
          else let (k, sent, part, f3) = mpx_frames_loop n f2
               in (k + 1, h @ body @ sent, part, f3))"
      using h ok len \<open>length h = 4\<close> by (simp add: c_header_size_def Let_def)
    moreover obtain b f2 where b: "fread (mpx_length h - 4) f1 = (b, f2)" by fastforce
    moreover have "rest f1 = drop 4 fr @ drop (length fr) (rest f)"
    proof -
      have "rest f = take 4 fr @ (drop 4 fr @ drop (length fr) (rest f))"
        using fr(1) by (metis append.assoc append_take_drop_id)
      from fread_exact [OF this] show ?thesis using h fr(4) by (auto simp: min_absorb2)
    qed
    moreover from this b len have "b = drop 4 fr" "rest f2 = drop (length fr) (rest f)"
      using fread_exact [of f1 "drop 4 fr" "drop (length fr) (rest f)"] fr(4)
      by (auto simp: of_nat_diff)
    ultimately have "mpx_frames_loop (Suc n) f = read_frames 4 mpx_length (Suc n) f"
      using h ok len \<open>length h = 4\<close> Suc.IH [of f2] mpeg_format.framed_Cons [OF Cons Suc.prems]
      by (simp add: Let_def)
    then show ?thesis .
  qed
qed simp

section \<open>The reader meets the contract\<close>

definition mpx_left :: "tmpx \<Rightarrow> byte list list" where
  "mpx_left t = (case fs t of None \<Rightarrow> [] | Some f \<Rightarrow> mpeg_frames (rest f))"

definition mpx_ready :: "tmpx \<Rightarrow> bool" where
  "mpx_ready t \<longleftrightarrow> 0 < frames_to_read t \<and>
     send_frame_number t + int (length (mpx_left t)) = total_frames t \<and>
     (case fs t of None \<Rightarrow> False | Some f \<Rightarrow> mpeg_framed (rest f))"

definition mpx_call :: "tmpx \<Rightarrow> byte list \<times> tmpx" where
  "mpx_call t = (case mpx_GetFrames t of (sent, part, t') \<Rightarrow> (sent, t'))"

interpretation mpeg: frame_source mpx_call mpx_left "\<lambda>t. nat (frames_to_read t)" mpx_ready
proof unfold_locales
  show "b = concat (take (nat (frames_to_read t)) (mpx_left t)) \<and>
      mpx_left t' = drop (nat (frames_to_read t)) (mpx_left t) \<and>
      nat (frames_to_read t') = nat (frames_to_read t) \<and> mpx_ready t'"
    if ok: "mpx_ready t" and c: "mpx_call t = (b, t')" for t b t'
  proof -
    obtain f where f: "fs t = Some f" "mpeg_framed (rest f)"
      using ok by (auto simp: mpx_ready_def split: option.splits)
    have total: "send_frame_number t + int (length (mpx_left t)) = total_frames t"
      using ok by (simp add: mpx_ready_def)
    show ?thesis
    proof (cases "send_frame_number t \<ge> total_frames t")
      case True
      then have "length (mpx_left t) = 0" using total by linarith
      then show ?thesis using True c ok f by (auto simp: mpx_call_def mpx_GetFrames_def)
    next
      case False
      obtain k sent part f' where l:
        "mpx_frames_loop (nat (frames_to_read t)) f = (k, sent, part, f')"
        by (metis prod_cases4)
      note l' = l [unfolded mpx_frames_read [OF f(2)]]
      from mpeg_format.read_sent [OF l'] mpeg_format.read_framed [OF l' f(2)] show ?thesis
        using False c ok f l
        by (auto simp: mpx_call_def mpx_GetFrames_def mpx_left_def mpx_ready_def)
    qed
  qed
  show "0 < nat (frames_to_read t)" if "mpx_ready t" for t
    using that by (simp add: mpx_ready_def)
  show "[] \<notin> set (mpx_left t)" for t
    using mpeg_format.cut_nonempty by (simp add: mpx_left_def split: option.splits)
qed

section \<open>Scanning a file of frames\<close>

lemma mpeg_count:
  assumes "\<not> eof f" "mpeg_frame fr" "h = take 4 fr"
    "rest f = drop 4 fr @ concat frs" "\<forall>x \<in> set frs. mpeg_frame x"
  shows "\<exists>f'. info_loop f h m = (m + 1 + int (length frs), f') \<and> content f' = content f"
  using assms
proof (induction frs arbitrary: f fr h m)
  case (Nil f fr h m)
  have s: "mpx_GetFrameSize h = int (length fr)" "4 < length fr" "length fr \<le> 5000"
    using Nil(2,3) by (auto simp: is_frame_def mpx_length_def split: if_splits)
  let ?g = "seek_cur (int (length (drop 4 fr))) f"
  obtain h' f2 where r: "fread 4 ?g = (h', f2)" by fastforce
  note g = seek_cur_exact [OF Nil(4)]
  have "h' = []" "content f2 = content f"
    using fread_empty [OF _ r] fread_content [OF r] g by simp_all
  moreover have "fr \<noteq> []" using s(2) by auto
  ultimately show ?case using s Nil(1) r
    by (subst info_loop.simps) (simp add: c_header_size_def Let_def of_nat_diff)
next
  case (Cons a frs f fr h m)
  have s: "mpx_GetFrameSize h = int (length fr)" "4 < length fr" "length fr \<le> 5000"
    using Cons.prems(2,3) by (auto simp: is_frame_def mpx_length_def split: if_splits)
  have a: "mpeg_frame a" "4 \<le> length a" using Cons.prems(5) by (simp_all add: is_frame_def)
  let ?g = "seek_cur (int (length (drop 4 fr))) f"
  note g = seek_cur_exact [OF Cons.prems(4)]
  have "rest ?g = take 4 a @ (drop 4 a @ concat frs)"
    using g by (simp flip: append_assoc)
  from fread_exact [OF this] a(2) obtain f2 where r: "fread 4 ?g = (take 4 a, f2)"
    "rest f2 = drop 4 a @ concat frs" "content f2 = content f"
    using g by (auto simp: min_absorb2)
  have "\<not> eof f2" using fread_full_eof [OF _ r(1)] g a(2) by simp
  then obtain f' where f': "info_loop f2 (take 4 a) (m + 1) = (m + 1 + 1 + int (length frs), f')"
    "content f' = content f2"
    using Cons.IH [of f2 a "take 4 a" "m + 1"] a(1) r(2) Cons.prems(5) by auto
  have "fr \<noteq> []" using s(2) by auto
  then have "info_loop f h m = info_loop f2 (take 4 a) (m + 1)"
    using s Cons.prems(1) r(1) a(2)
    by (subst info_loop.simps) (simp add: c_header_size_def Let_def of_nat_diff)
  then show ?case using f' r(3) by simp
qed

text \<open>The search depends on the file's contents alone.\<close>

definition seek_file :: "byte list \<Rightarrow> int \<times> byte list \<times> cfile" where
  "seek_file bs =
     (let (m, info, f1) = GetStartPos (opened bs); (buf, f2) = fread 50000 (seek_to m f1);
          p = seek_scan buf 0; ret = (if p = -1 then -1 else p + m)
      in (ret, info, seek_to ret f2))"

lemma seek_eq:
  "fs t = Some f \<Longrightarrow> content f = bs \<Longrightarrow> seek_file bs = (p, info, f') \<Longrightarrow>
     mpx_SeekTo1Frame t = (p, t\<lparr>pInfo := info, fs := Some f'\<rparr>)"
proof -
  assume a: "fs t = Some f" "content f = bs" "seek_file bs = (p, info, f')"
  have "seek_to 0 f = seek_to 0 (opened bs)" using a(2) by (simp add: seek_to_def opened_def)
  then have "GetStartPos f = GetStartPos (opened bs)" by (simp add: GetStartPos_def)
  then show ?thesis using a(1,3)
    by (auto simp: mpx_SeekTo1Frame_def seek_file_def Let_def split: prod.splits)
qed

lemma seek_scan_range: "seek_scan buf p = -1 \<or> 0 \<le> seek_scan buf p"
proof (induction buf p rule: seek_scan.induct)
  case (1 buf p)
  show ?case by (subst (1 2) seek_scan.simps) (use 1 in \<open>auto simp: Let_def\<close>)
qed

lemma read_info_content: "read_info f old = (i, f') \<Longrightarrow> content f' = content f"
  using fread_content by (fastforce simp: read_info_def split: prod.splits)

lemma GetStartPos_content:
  "GetStartPos f = (m, i, f') \<Longrightarrow> content f' = content f \<and> 0 \<le> m"
proof -
  assume a: "GetStartPos f = (m, i, f')"
  obtain i1 f1 where 1: "read_info (seek_to 0 f) (replicate 10 0) = (i1, f1)" by fastforce
  obtain i2 f2 where 2: "read_info (seek_end (-128) f1) i1 = (i2, f2)" by fastforce
  show ?thesis using a 1 2 read_info_content [OF 1] read_info_content [OF 2]
    by (auto simp: GetStartPos_def seek_to_def seek_end_def split: if_splits)
qed

lemma seek_file_found:
  assumes "seek_file bs = (p, info, f)" "p \<noteq> -1"
  shows "content f = bs" "pos f = nat p" "\<not> eof f" "0 \<le> p" "rest f = drop (nat p) bs"
proof -
  obtain m i f1 where 1: "GetStartPos (opened bs) = (m, i, f1)" by (metis prod_cases3)
  obtain buf f2 where 2: "fread 50000 (seek_to m f1) = (buf, f2)" by fastforce
  note m = GetStartPos_content [OF 1]
  have c: "content f2 = bs"
    using fread_content [OF 2] m by (simp add: seek_to_def opened_def)
  have q: "seek_scan buf 0 \<noteq> -1" "p = seek_scan buf 0 + m" "f = seek_to p f2"
    using assms 1 2 by (auto simp: seek_file_def Let_def split: if_splits)
  then have p: "0 \<le> p" using m seek_scan_range [of buf 0] by auto
  with q c show "content f = bs" "pos f = nat p" "\<not> eof f" "0 \<le> p" "rest f = drop (nat p) bs"
    by (auto simp: seek_to_def rest_def)
qed

section \<open>Properties\<close>

definition header_rate :: "byte list \<Rightarrow> int" where
  "header_rate h = srtable ! nat (srindex h + (if mpegver h = 3 then 0
     else if mpegver h = 2 then 4 else 8))"

definition header_samples :: "byte list \<Rightarrow> int" where
  "header_samples h = samples_per_frame (mpegver h) (layer h)"

text \<open>The headers \<open>mpx_GetFileInfo\<close> goes on with after the search.\<close>

definition first_header_ok :: "byte list \<Rightarrow> bool" where
  "first_header_ok h \<longleftrightarrow> mpx_GetFrameSize h \<noteq> 0 \<and> 1 \<le> brindex h \<and> brindex h \<le> 0x0E"

text \<open>The bit rate it computes for a file of \<open>playtime\<close> seconds.\<close>

definition mean_rate :: "(rat \<Rightarrow> rat) \<Rightarrow> byte list \<Rightarrow> int \<Rightarrow> rat" where
  "mean_rate rnd bs playtime = rnd (rnd (rnd (of_int (int (length bs) div playtime)) * 8) / 1000)"

lemma mpeg_info:
  assumes s: "seek_file bs = (p, info, f)" "p \<noteq> -1" and b: "drop (nat p) bs = concat (fr # frs)"
    and fr: "\<forall>x \<in> set (fr # frs). mpeg_frame x" and h: "first_header_ok (take 4 fr)"
    and t: "header_samples (take 4 fr) = k" "header_rate (take 4 fr) = rate"
  shows "\<exists>io t1. mpx_GetFileInfo rnd True (Some bs) t io0 =
      (if k * (1 + int (length frs)) div rate = 0 then None else Some (0, io, t1)) \<and>
    frame_count io = 1 + int (length frs) \<and> total_frames t1 = 1 + int (length frs) \<and>
    frames_to_read t1 = rate div k \<and> sr io = rate \<and> ch io \<in> {1, 2} \<and>
    br io = mean_rate rnd bs (k * (1 + int (length frs)) div rate) \<and>
    (\<exists>g. fs t1 = Some g \<and> content g = bs)"
proof -
  note found = seek_file_found [OF s]
  let ?h = "take 4 fr"
  have l4: "4 \<le> length fr" using fr by (simp add: is_frame_def)
  have "rest f = ?h @ (drop 4 fr @ concat frs)" using found(5) b by (simp flip: append_assoc)
  from fread_exact [OF this] l4 obtain f1 where f1: "fread 4 f = (?h, f1)"
    "rest f1 = drop 4 fr @ concat frs" "content f1 = bs"
    using found(1) by (auto simp: min_absorb2)
  have "\<not> eof f1" using fread_full_eof [OF found(3) f1(1)] l4 by simp
  then obtain f2 where f2: "info_loop f1 ?h 0 = (1 + int (length frs), f2)" "content f2 = bs"
    using mpeg_count [OF _ _ refl f1(2), of 0] fr f1(3) by auto
  have sk: "mpx_SeekTo1Frame (t\<lparr>fs := Some (opened bs)\<rparr>) = (p, t\<lparr>fs := Some f, pInfo := info\<rparr>)"
    using seek_eq [OF _ _ s(1), of "t\<lparr>fs := Some (opened bs)\<rparr>" "opened bs"]
    by (simp add: opened_def)
  have ok: "\<not> bad_sync ?h" "mpegver ?h \<noteq> 1" "\<not> mpegver ?h > 3" "layer ?h \<noteq> 0" "\<not> layer ?h > 3"
    "\<not> srindex ?h \<ge> 3" "\<not> brindex ?h < 1" "\<not> brindex ?h > 14"
    using h by (auto simp: first_header_ok_def mpx_GetFrameSize_def Let_def split: if_splits)
  have "0 \<le> layer ?h" by (simp add: layer_def)
  then have "\<not> layer ?h < 1" using ok(4) by simp
  let ?m = "1 + int (length frs)"
  let ?io = "io0\<lparr>frame_count := ?m, sr := rate, spf := k,
      br := rnd (rnd (rnd (of_int (int (length bs) div (k * ?m div rate))) * 8) / 1000),
      ch := (if drop_bit 6 (schar (?h ! 3) AND 0xC0) \<le> 2 then 2 else 1),
      m_frames_to_read := rate div k\<rparr>"
  let ?t = "t\<lparr>fs := Some (seek_to p f2), pInfo := info, frames_to_read := rate div k,
      total_frames := ?m\<rparr>"
  have "mpx_GetFileInfo rnd True (Some bs) t io0 =
      (if k * ?m div rate = 0 then None else Some (0, ?io, ?t))"
    using sk s(2) f1(1) f2(1) l4 ok \<open>\<not> layer ?h < 1\<close> t [unfolded header_rate_def header_samples_def]
    by (simp add: mpx_GetFileInfo_def c_header_size_def Let_def min_absorb2)
  moreover have "content (seek_to p f2) = bs" using f2(2) by (simp add: seek_to_def)
  ultimately show ?thesis by (intro exI [of _ ?io] exI [of _ ?t]) (simp add: mean_rate_def)
qed

lemma rate_bounds:
  assumes "first_header_ok h"
  shows "8000 \<le> header_rate h" "0 < header_samples h" "header_samples h \<le> 1152"
proof -
  have "\<not> srindex h \<ge> 3"
    using assms by (auto simp: first_header_ok_def mpx_GetFrameSize_def Let_def split: if_splits)
  moreover have "0 \<le> srindex h" by (simp add: srindex_def)
  ultimately consider "srindex h = 0" | "srindex h = 1" | "srindex h = 2" by linarith
  then show "8000 \<le> header_rate h" by cases (simp_all add: header_rate_def srtable_def)
  show "0 < header_samples h" "header_samples h \<le> 1152"
    by (simp_all add: header_samples_def samples_per_frame_def)
qed

text \<open>A file of a second or more is accepted, and starts at the frame found.\<close>

lemma accepted_starts_mpx:
  assumes s: "seek_file bs = (p, info, f)" "p \<noteq> -1" and b: "drop (nat p) bs = concat (fr # frs)"
    and fr: "\<forall>x \<in> set (fr # frs). mpeg_frame x" and h: "first_header_ok (take 4 fr)"
    and t: "header_samples (take 4 fr) = k" "header_rate (take 4 fr) = rate"
      "rate \<le> k * (1 + int (length frs))"
  shows "\<exists>io t1 t2. mpx_GetFileInfo rnd True (Some bs) t io0 = Some (0, io, t1) \<and>
    frame_count io = 1 + int (length frs) \<and> sr io = rate \<and> ch io \<in> {1, 2} \<and>
    br io = mean_rate rnd bs (k * (1 + int (length frs)) div rate) \<and>
    mpx_StartPlay t1 = (True, t2) \<and> mpx_ready t2 \<and> mpx_left t2 = fr # frs \<and> frames_to_read t2 = rate div k"
proof -
  note found = seek_file_found [OF s]
  note bnd = rate_bounds [OF h, unfolded t]
  have d: "\<not> (k * (1 + int (length frs)) div rate = 0)"
  proof -
    have "0 < k * (1 + int (length frs)) div rate"
      using t(3) bnd(1) by (subst pos_imp_zdiv_pos_iff) linarith+
    then show ?thesis by simp
  qed
  obtain io t1 g where i: "mpx_GetFileInfo rnd True (Some bs) t io0 = Some (0, io, t1)"
    "frame_count io = 1 + int (length frs)" "total_frames t1 = 1 + int (length frs)"
    "frames_to_read t1 = rate div k" "sr io = rate" "fs t1 = Some g" "content g = bs"
    "ch io \<in> {1, 2}" "br io = mean_rate rnd bs (k * (1 + int (length frs)) div rate)"
    using mpeg_info [OF s b fr h t(1,2), of rnd t io0] d by auto
  have per: "0 < frames_to_read t1"
    unfolding i(4) using bnd by (subst pos_imp_zdiv_pos_iff) linarith+
  let ?t2 = "t1\<lparr>send_frame_number := 0, pInfo := info, fs := Some f\<rparr>"
  have start: "mpx_StartPlay t1 = (True, ?t2)"
    using seek_eq [OF _ i(7) s(1), of "t1\<lparr>send_frame_number := 0\<rparr>"] i(6) s(2)
    by (simp add: mpx_StartPlay_def)
  have "rest f = concat (fr # frs)" using found(5) b by simp
  moreover from this have left: "mpx_left ?t2 = fr # frs"
    using mpeg_format.cut_concat [OF fr] by (simp add: mpx_left_def)
  ultimately have "mpx_ready ?t2"
    using per i(3) mpeg_format.framed_concat [OF fr] by (simp add: mpx_ready_def)
  then show ?thesis using i start left by auto
qed


text \<open>Twenty-one frames of 48 bytes: a second of 12 kHz sound.\<close>

definition demo_frame :: "byte list" where
  "demo_frame = [0xFF, 0xE3, 0x14, 0] @ replicate 44 7"

definition demo_file :: "byte list" where
  "demo_file = concat (replicate 21 demo_frame)"

abbreviation "no_mpx \<equiv> \<lparr>fs = None, send_frame_number = 0, frames_to_read = 0, total_frames = 0,
  pInfo = replicate 10 0\<rparr>"

abbreviation "no_info \<equiv> \<lparr>br = 0, spf = 0, sr = 0, frame_count = 0, ch = 0,
  m_frames_to_read = 0, m_play_time = 0\<rparr>"

lemma demo_header: "mpeg_frame demo_frame" "first_header_ok (take 4 demo_frame)"
  "header_rate (take 4 demo_frame) = 12000" "header_samples (take 4 demo_frame) = 576"
  by code_simp+

lemma demo_tag: "take 3 (demo_frame @ x) \<noteq> ID3"
proof
  assume "take 3 (demo_frame @ x) = ID3"
  then have "hd (take 3 (demo_frame @ x)) = hd ID3" by simp
  then show False by (simp add: demo_frame_def ID3_def)
qed

text \<open>A file that begins with two frames and no tag is found to begin there.\<close>

lemma seek_at_start:
  assumes "mpeg_frame fr" "mpeg_frame fr2" "bs = fr @ fr2 @ tail" "fs t = Some f" "content f = bs"
    and "fr ! 0 = 0xFF" "uint (fr ! 1) AND 0xE0 = 0xE0" "take 3 bs \<noteq> ID3"
  shows "fst (mpx_SeekTo1Frame t) = 0"
proof -
  have fr: "mpx_IsValidFrameHeader (take 4 fr)" "mpx_GetFrameSize (take 4 fr) = int (length fr)"
    "4 < length fr" "length fr \<le> 5000"
    using assms(1) by (auto simp: is_frame_def mpx_length_def split: if_splits)
  have fr2: "mpx_IsValidFrameHeader (take 4 fr2)" "4 < length fr2"
    using assms(2) by (auto simp: is_frame_def mpx_length_def split: if_splits)
  have len: "10 \<le> length bs" using assms(3) fr fr2 by simp
  obtain m i f1 where 1: "GetStartPos (opened bs) = (m, i, f1)" by (metis prod_cases3)
  have "take 3 (take 10 bs) = take 3 bs" by (simp add: min_def)
  then have m: "m = 0" using 1 assms(8) len
    by (auto simp: GetStartPos_def read_info_def fread_def seek_to_def opened_def sizeof_TInfo_def
        Let_def split: if_splits prod.splits)
  obtain buf f2 where b: "fread 50000 (seek_to 0 f1) = (buf, f2)" by fastforce
  then have buf: "buf = take 50000 bs" using GetStartPos_content [OF 1]
    by (auto simp: fread_def seek_to_def opened_def Let_def)
  have nth: "buf ! 0 = 0xFF" "uint (buf ! 1) AND 0xE0 = 0xE0"
    using assms(3,6,7) fr(3) by (auto simp: buf nth_append)
  have h: "take 4 buf = take 4 fr" using assms(3) fr(3) by (simp add: buf)
  have long: "length fr + 4 \<le> length buf" "10 \<le> length buf"
    using assms(3) fr fr2 len by (simp_all add: buf)
  have "buf = fr @ take (50000 - length fr) (fr2 @ tail)"
    using assms(3) fr(4) by (simp add: buf)
  then have h2: "take 4 (drop (length fr) buf) = take 4 fr2"
    using fr(4) fr2(2) by simp
  have "buf \<noteq> []" "fr \<noteq> []" using long fr(3) by auto
  then have "seek_scan buf 0 = 0"
    using nth h long h2 fr fr2(1) by (subst seek_scan.simps) (simp add: Let_def)
  then have "fst (seek_file bs) = 0" using 1 m b by (simp add: seek_file_def)
  then show ?thesis using seek_eq [OF assms(4,5)] by (cases "seek_file bs") auto
qed


text \<open>
  A file of less than a second ends the player: \<open>playtime\<close> is a whole number of seconds,
  and \<open>mpx_GetFileInfo\<close> divides by it without a test.
\<close>

theorem mpx_short_file_crashes:
  assumes "fst (mpx_SeekTo1Frame (t\<lparr>fs := Some (opened bs)\<rparr>)) = p" "p \<noteq> -1"
    and "drop (nat p) bs = concat (fr # frs)" "\<forall>x \<in> set (fr # frs). mpeg_frame x"
    and "first_header_ok (take 4 fr)"
    and "header_samples (take 4 fr) * (1 + int (length frs)) < header_rate (take 4 fr)"
  shows "mpx_GetFileInfo rnd True (Some bs) t io0 = None"
proof -
  obtain q info f where sf: "seek_file bs = (q, info, f)" by (metis prod_cases3)
  then have s: "seek_file bs = (p, info, f)" using assms(1)
    seek_eq [OF _ _ sf, of "t\<lparr>fs := Some (opened bs)\<rparr>" "opened bs"] by (simp add: opened_def)
  have "header_samples (take 4 fr) * (1 + int (length frs)) div header_rate (take 4 fr) = 0"
    using assms(6) rate_bounds [OF assms(5)] by (intro div_pos_pos_trivial) auto
  then show ?thesis
    using mpeg_info [OF s assms(2-5) refl refl, of rnd t io0] by auto
qed

theorem mpx_short_file_crashes_witness:
  "mpx_GetFileInfo id True (Some (demo_frame @ demo_frame)) no_mpx no_info = None"
proof (rule mpx_short_file_crashes)
  show "fst (mpx_SeekTo1Frame (no_mpx\<lparr>fs := Some (opened (demo_frame @ demo_frame))\<rparr>)) = 0"
    by (rule seek_at_start [OF demo_header(1,1), where f = "opened (demo_frame @ demo_frame)"
          and tail = "[]"])
      (simp_all add: opened_def demo_tag, simp_all add: demo_frame_def ID3_def)
  show "drop (nat 0) (demo_frame @ demo_frame) = concat (demo_frame # [demo_frame])" by simp
  show "\<forall>x \<in> set (demo_frame # [demo_frame]). mpeg_frame x" using demo_header(1) by simp
  show "first_header_ok (take 4 demo_frame)" by (rule demo_header(2))
  show "header_samples (take 4 demo_frame) * (1 + int (length [demo_frame]))
      < header_rate (take 4 demo_frame)"
    using demo_header(3,4) by simp
qed simp

text \<open>
  The first byte of the syncword does not count: the check compares a \<open>char\<close> with a sign
  with 255, so that headers that differ in it alone are taken alike, in the search as in playing.
\<close>

theorem mpx_first_byte_ignored:
  "mpx_IsValidFrameHeader (a # h) = mpx_IsValidFrameHeader (b # h) \<and>
   mpx_GetFrameSize (a # h) = mpx_GetFrameSize (b # h)"
proof -
  have "schar x \<noteq> 0xFF" for x :: byte
    using sint_lt [of x] by simp
  then have "bad_sync (a # h) = bad_sync (b # h)" by (simp add: bad_sync_def)
  moreover have "mpegver (a # h) = mpegver (b # h)" by (simp add: mpegver_def)
  moreover have "layer (a # h) = layer (b # h)" by (simp add: layer_def)
  moreover have "brindex (a # h) = brindex (b # h)" by (simp add: brindex_def)
  moreover have "srindex (a # h) = srindex (b # h)" by (simp add: srindex_def)
  moreover have "padding (a # h) = padding (b # h)" by (simp add: padding_def)
  ultimately show ?thesis
    by (simp add: mpx_IsValidFrameHeader_def mpx_GetFrameSize_def mpx_bitrate_def Let_def)
qed

text \<open>
  A frame shorter than its own header makes the player read the whole rest of the file into
  its buffer: the bit rate index 0 gives a size of 0 or, with padding, 1, which is less than the
  four bytes already read, and the negative count reaches \<open>fread\<close> as a huge one.
\<close>

theorem mpx_short_frame_reads_rest:
  assumes "rest f = h @ body" "length h = 4" "mpx_IsValidFrameHeader h"
    and "0 < mpx_GetFrameSize h" "mpx_GetFrameSize h < 4"
  shows "\<exists>f'. mpx_frames_loop (Suc n) f = (1, rest f, [], f')"
proof -
  obtain f1 where f1: "fread 4 f = (h, f1)" "rest f1 = body"
    using fread_exact [OF assms(1)] assms(2) by auto
  obtain b f2 where b: "fread (mpx_GetFrameSize h - 4) f1 = (b, f2)" by fastforce
  then have b': "b = body" "rest f2 = []"
    using assms(5) f1(2) by (auto simp: fread_def rest_def Let_def)
  have "\<exists>f'. mpx_frames_loop n f2 = (0, [], [], f')"
  proof (cases n)
    case (Suc m)
    obtain x f3 where x: "fread 4 f2 = (x, f3)" by fastforce
    then have "x = []" using fread_empty [OF b'(2)] by simp
    then show ?thesis using Suc x by (simp add: c_header_size_def Let_def)
  qed simp
  then show ?thesis
    using f1 b b'(1) assms by (auto simp: c_header_size_def Let_def)
qed

theorem mpx_short_frame_reads_rest_witness:
  "\<exists>f'. mpx_frames_loop 1 (opened ([0xFF, 0xFB, 0x02, 0] @ replicate 200000 9))
     = (1, [0xFF, 0xFB, 0x02, 0] @ replicate 200000 9, [], f')"
proof -
  let ?f = "opened ([0xFF, 0xFB, 0x02, 0] @ replicate 200000 9)"
  have r: "rest ?f = [0xFF, 0xFB, 0x02, 0] @ replicate 200000 9"
    by (simp add: rest_def opened_def)
  have h: "mpx_IsValidFrameHeader [0xFF, 0xFB, 0x02, 0]" "0 < mpx_GetFrameSize [0xFF, 0xFB, 0x02, 0]"
    "mpx_GetFrameSize [0xFF, 0xFB, 0x02, 0] < 4"
    by code_simp+
  have "length [0xFF, 0xFB, 0x02, 0 :: byte] = 4" by simp
  from mpx_short_frame_reads_rest [OF r this h, of 0] show ?thesis unfolding r by simp
qed

end
