(* ===== verification/Player_Mpx.thy ===== *)
theory Player_Mpx
  imports Player_Run Mpx
begin

text \<open>
  The MPEG stream: the reader functions the constructor of \<open>TPlaylist\<close> puts into its table
  (\<open>playlist.cpp\<close> 81-91, with the free functions of \<open>mpx.cpp\<close>), that they give the player
  what it relies on, and what follows for the stream.
\<close>

definition mpx_info :: "tfile_info \<Rightarrow> Mpx.file_info" where
  "mpx_info fi =
     Mpx.file_info.make (fi_bitrate fi) (fi_spf fi) (fi_simple_frequency fi) (fi_frames fi)
       (fi_channel_configuration fi) (fi_frames_to_read fi) (fi_play_time fi)"

definition from_mpx :: "tfile_info \<Rightarrow> Mpx.file_info \<Rightarrow> tfile_info" where
  "from_mpx fi io =
     fi\<lparr>fi_bitrate := Mpx.br io, fi_spf := Mpx.spf io, fi_simple_frequency := Mpx.sr io,
        fi_frames := Mpx.frame_count io, fi_channel_configuration := Mpx.ch io,
        fi_frames_to_read := Mpx.m_frames_to_read io, fi_play_time := Mpx.m_play_time io\<rparr>"

definition mpx_fmt :: "(rat \<Rightarrow> rat) \<Rightarrow> (string \<Rightarrow> byte list option) \<Rightarrow> tmpx fmt" where
  "mpx_fmt rnd audio =
     \<lparr>fmt_GetFileInfo = (\<lambda>f fi t.
        map_option (\<lambda>(k, io, t'). (k, from_mpx fi io, t'))
          (mpx_GetFileInfo rnd (audio f \<noteq> None) (audio f) t (mpx_info fi))),
      fmt_start_play = mpx_StartPlay, fmt_GetFrames = mpx_call, fmt_stop_play = Mpx.close_fs\<rparr>"


text \<open>
  The files the MPEG reader plays at the given sample rate: a second or more of whole frames
  from the first one the search finds on; and the part of the file that is played.
\<close>

definition mpx_sound :: "byte list \<Rightarrow> byte list" where
  "mpx_sound bs = drop (nat (fst (seek_file bs))) bs"

definition mpx_plays :: "(rat \<Rightarrow> rat) \<Rightarrow> int \<Rightarrow> byte list \<Rightarrow> bool" where
  "mpx_plays rnd rate bs \<longleftrightarrow>
     (let frs = mpeg_frames (mpx_sound bs); h = take 4 (hd frs);
          secs = header_samples h * int (length frs) div rate
      in fst (seek_file bs) \<noteq> - 1 \<and> frs \<noteq> [] \<and> mpeg_framed (mpx_sound bs) \<and>
         first_header_ok h \<and> header_rate h = rate \<and> rate \<le> header_samples h * int (length frs) \<and>
         0 \<le> mean_rate rnd bs secs \<and> mean_rate rnd bs secs < 10000)"

definition mpx_announced :: "int \<Rightarrow> tfile_info \<Rightarrow> bool" where
  "mpx_announced rate fi \<longleftrightarrow> fi_simple_frequency fi = rate \<and>
     0 \<le> fi_bitrate fi \<and> fi_bitrate fi < 10000 \<and> fi_channel_configuration fi \<in> {1, 2}"

definition mpx_block :: "int \<Rightarrow> nat" where
  "mpx_block rate = nat rate * 5000"

interpretation mpx_tracks: good_tracks "mpx_fmt rnd audio" "\<lambda>f. mpx_sound (the (audio f))"
  "\<lambda>f. \<exists>bs. audio f = Some bs \<and> mpx_plays rnd rate bs" rate "mpx_announced rate" "mpx_block rate"
proof unfold_locales
  fix f fi r
  assume "\<exists>bs. audio f = Some bs \<and> mpx_plays rnd rate bs"
  then obtain bs where a: "audio f = Some bs" and pl: "mpx_plays rnd rate bs" by blast
  obtain p info g where s: "seek_file bs = (p, info, g)" by (metis prod_cases3)
  obtain fr frs where frs: "mpeg_frames (mpx_sound bs) = fr # frs"
    using pl by (cases "mpeg_frames (mpx_sound bs)") (auto simp: mpx_plays_def Let_def)
  note p = pl [unfolded mpx_plays_def Let_def frs s list.sel fst_conv]
  have snd: "drop (nat p) bs = concat (fr # frs)"
    using p frs s by (auto simp: framed_def mpx_sound_def)
  have ok: "\<forall>x \<in> set (fr # frs). mpeg_frame x" using mpeg_format.cut_are_frames [of _ "mpx_sound bs"] frs by metis
  obtain io t1 t2 where i: "mpx_GetFileInfo rnd True (Some bs) r (mpx_info fi) = Some (0, io, t1)"
    "sr io = rate" "ch io \<in> {1, 2}"
    "br io = mean_rate rnd bs (header_samples (take 4 fr) * (1 + int (length frs)) div rate)"
    "mpx_StartPlay t1 = (True, t2)" "mpx_ready t2" "mpx_left t2 = fr # frs"
    "frames_to_read t2 = rate div header_samples (take 4 fr)"
    using accepted_starts_mpx [OF s _ snd ok _ refl, of rate rnd r "mpx_info fi"] p by auto
  have "rate div header_samples (take 4 fr) \<le> rate"
    using rate_bounds [of "take 4 fr"] p zdiv_mono2 [of rate 1 "header_samples (take 4 fr)"] by simp
  then have "nat (frames_to_read t2) * 5000 \<le> mpx_block rate"
    unfolding i(8) mpx_block_def by (intro mult_le_mono1) (simp add: nat_mono)
  from mpeg.feeds_left [OF i(6) _ this] have "feeds mpx_call (mpx_block rate) t2 (concat (fr # frs))"
    using i(7) mpeg_format.cut_are_frames [of _ "mpx_sound bs"] frs by metis
  then have "feeds mpx_call (mpx_block rate) t2 (mpx_sound bs)"
    using snd s by (simp add: mpx_sound_def)
  moreover have "mpx_announced rate (from_mpx fi io)"
    using i(2-4) p by (simp add: mpx_announced_def from_mpx_def)
  ultimately show "\<exists>k fi' r1 r2. fmt_GetFileInfo (mpx_fmt rnd audio) f fi r = Some (k, fi', r1) \<and>
      k \<noteq> - 1 \<and> fi_simple_frequency fi' = rate \<and>
      fi_icecast_sample_rate fi' = fi_icecast_sample_rate fi \<and> mpx_announced rate fi' \<and>
      fmt_start_play (mpx_fmt rnd audio) r1 = (True, r2) \<and>
      feeds (fmt_GetFrames (mpx_fmt rnd audio)) (mpx_block rate) r2 (mpx_sound (the (audio f)))"
    using a i(1,2,5) by (simp add: mpx_fmt_def from_mpx_def)
qed (simp add: mpx_announced_def)


text \<open>One file of a second.\<close>

lemma demo_seek: "fst (seek_file demo_file) = 0"
proof -
  have whole: "demo_file = demo_frame @ demo_frame @ concat (replicate 19 demo_frame)"
    by (simp add: demo_file_def numeral_eq_Suc)
  have s: "fst (mpx_SeekTo1Frame (no_mpx\<lparr>fs := Some (opened demo_file)\<rparr>)) = 0"
    by (rule seek_at_start [OF Mpx.demo_header(1,1) whole, where f = "opened demo_file"])
      (simp_all add: opened_def demo_frame_def whole ID3_def)
  obtain p info f where "seek_file demo_file = (p, info, f)" by (metis prod_cases3)
  with s show ?thesis
    using seek_eq [of "no_mpx\<lparr>fs := Some (opened demo_file)\<rparr>" "opened demo_file" demo_file]
    by (simp add: opened_def)
qed

lemma demo_sound: "mpx_sound demo_file = demo_file"
  using demo_seek by (simp add: mpx_sound_def)

lemma mpx_demo_plays: "mpx_plays id 12000 demo_file"
proof -
  have f: "\<forall>x \<in> set (replicate 21 demo_frame). mpeg_frame x" using Mpx.demo_header(1) by simp
  have 1: "mpeg_frames demo_file = replicate 21 demo_frame" "mpeg_framed demo_file"
    using mpeg_format.cut_concat [OF f] mpeg_format.framed_concat [OF f]
    by (simp_all add: demo_file_def)
  have "length demo_file = 21 * length demo_frame"
    by (simp add: demo_file_def length_concat map_replicate sum_list_replicate)
  moreover have "length demo_frame = 48" by code_simp
  ultimately have l: "length demo_file = 1008" by simp
  show ?thesis
    using Mpx.demo_header demo_seek
    by (simp add: mpx_plays_def demo_sound 1 mean_rate_def l Let_def)
qed

section \<open>Properties\<close>




end
