(* ===== verification/Player_Safety.thy ===== *)
theory Player_Safety
  imports Player_Run
begin

text \<open>
  What holds of the player whatever the network, the readers and the other threads do: it never
  follows an iterator past the end of its list, it introduces itself before it sends sound, and
  it finds its place again after a restart. And what does not hold: that one connection carries
  one sample rate.
\<close>

section \<open>A small player\<close>

text \<open>
  Two files of two blocks and one, of different sample rates. The reader's state is what is left
  of the file.
\<close>

definition two_info :: "string \<Rightarrow> tfile_info \<Rightarrow> byte list list \<Rightarrow> (int \<times> tfile_info \<times> byte list list) option" where
  "two_info f fi r =
     (if f = ''a'' then Some (1, fi\<lparr>fi_simple_frequency := 44100, fi_bitrate := 128,
                                     fi_channel_configuration := 2\<rparr>, [[65], [66]])
      else if f = ''b'' then Some (1, fi\<lparr>fi_simple_frequency := 22050, fi_bitrate := 128,
                                          fi_channel_configuration := 2\<rparr>, [[67]])
      else Some (- 1, fi, r))"

definition two_fmt :: "byte list list fmt" where
  "two_fmt = \<lparr>fmt_GetFileInfo = two_info, fmt_start_play = (\<lambda>r. (True, r)),
     fmt_GetFrames = (\<lambda>r. case r of [] \<Rightarrow> ([], []) | b # bs \<Rightarrow> (b, bs)),
     fmt_stop_play = (\<lambda>_. [])\<rparr>"

definition two_cfg :: tplayer_config where
  "two_cfg = \<lparr>c_npfile = ''/n/x'', c_header = ''(%i/%i/%i)'', c_update_meta_data = False,
     c_can_save = True\<rparr>"

definition two_client :: tclient where "two_client = tclient_new 8000 5 0 5"

definition two_player :: "byte list list player" where
  "two_player = TPlaylist_new two_client [] (demo_par\<lparr>playlist := [''a'', ''x'', ''b'']\<rparr>) (\<lambda>_. None)"

text \<open>A turn whose sound is sent or not.\<close>

definition two_turn :: "bool \<Rightarrow> turn" where
  "two_turn fine = \<lparr>n_fd = 3, n_resolved = True, n_con = (\<lambda>_. Connected), n_head = [Sent 100],
     n_answer = Got ''200'', n_body = [if fine then Sent 100 else Failed]\<rparr>"

lemma two_dir: "has_dir two_cfg" "0 \<le> load_idx two_cfg (\<lambda>_. None)"
proof -
  have "pathname (c_npfile two_cfg) = Some ''/n/''" by code_simp
  then show "has_dir two_cfg" by (simp add: has_dir_def)
qed (simp add: load_idx_def)

text \<open>What the parts of a turn do in this world.\<close>

definition two_head :: "int \<Rightarrow> string" where
  "two_head r = CHR ''('' # show_int 128 @ CHR ''/'' # show_int 2 @ CHR ''/'' # show_int r @ '')''"

lemma two_simps:
  "net_recv_match (n_answer (two_turn b)) ''200'' t = (True, t)"
  "n_body (two_turn True) = [Sent 100]" "n_body (two_turn False) = [Failed]"
  "n_head (two_turn b) = [Sent 100]"
  "fmt_GetFileInfo two_fmt = two_info" "fmt_start_play two_fmt r = (True, r)"
  "fmt_GetFrames two_fmt [] = ([], [])" "fmt_GetFrames two_fmt (x # xs) = (x, xs)"
  "fmt_stop_play two_fmt r = []" "c_update_meta_data two_cfg = False"
  by (simp_all add: two_turn_def two_fmt_def two_cfg_def net_recv_match_def)

lemma two_header:
  "fi_bitrate fi = 128 \<Longrightarrow> fi_channel_configuration fi = 2 \<Longrightarrow>
     header_text two_cfg fi = Some (two_head (fi_simple_frequency fi))"
  by (simp add: header_text_def two_cfg_def two_head_def)

lemma two_save: "save_idx two_cfg i D = Some (D(''/n/x'' \<mapsto> show_nat i))"
proof -
  have "pathname (c_npfile two_cfg) = Some ''/n/''" by code_simp
  then show ?thesis by (simp add: save_idx_def two_cfg_def)
qed

lemma two_sent:
  "f_connected t \<Longrightarrow> net_send [Sent 100] (two_head 44100) w t = Some (True, t, w @ two_head 44100, [])"
  "f_connected t \<Longrightarrow> net_send [Sent 100] [b] w t = Some (True, t, w @ [b], [])"
  "f_connected t \<Longrightarrow> net_send [Failed] [b] w t = Some (False, net_close t, w, [])"
proof -
  have "nat 44100 < 10 ^ Suc 4" "nat 128 < 10 ^ Suc 2" "nat 2 < 10 ^ Suc 2" by simp_all
  then have "length (two_head 44100) \<le> 100" "two_head 44100 \<noteq> []"
    using show_nat_length [of "nat 44100" 4] show_nat_length [of "nat 128" 2]
      show_nat_length [of "nat 2" 2] by (simp_all add: two_head_def show_int_def)
  then show "f_connected t \<Longrightarrow>
      net_send [Sent 100] (two_head 44100) w t = Some (True, t, w @ two_head 44100, [])"
    by (cases "two_head 44100") (simp_all add: net_send_def)
qed (simp_all add: net_send_def)

lemma two_connect:
  assumes "0 < max_conections (client s)" "\<not> f_connected (client s)"
  shows "connect_turn (two_turn b) s = (True, s\<lparr>client := (client s)\<lparr>sock := 3,
     connection_counter := 0, f_connected := True\<rparr>, wires := [] # wires s\<rparr>)"
proof -
  obtain m where "nat (max_conections (client s)) = Suc m"
    using assms by (cases "nat (max_conections (client s))") auto
  then show ?thesis using assms
    by (auto simp: two_turn_def connect_turn_def net_connect_def Let_def)
qed

lemma run_numeral:
  "run c F t (numeral k) ps =
     (case step c F (t 0) ps of None \<Rightarrow> None
      | Some ps' \<Rightarrow> run c F (\<lambda>i. t (Suc i)) (pred_numeral k) ps')"
  by (simp add: numeral_eq_Suc)

lemmas two_eval = two_simps two_header two_save two_sent two_connect two_info_def run_numeral
  step_def select_step_def feed_step_def frames_step_def header_step_def finish_step_def
  erase_idx_def remove_nth_def set_rate_def put_wire_def begin_track_def get_next_iterator_def
  connect_turn_connected net_close_def chars_def clear_connection_counter_def get_new_playlist_def

lemma two_bytes: "char_of (65 :: nat) = CHR ''A''" "char_of (66 :: nat) = CHR ''B''"
  "char_of (67 :: nat) = CHR ''C''"
  by code_simp+

lemma two_start:
  "\<exists>s. start two_cfg (two_turn True) two_player = (Select, s) \<and> f_connected (client s) \<and>
    ev_header s \<and> it_playlist s = 0 \<and> play_list s = [''a'', ''x'', ''b''] \<and> wires s = [[]] \<and>
    \<not> new_playlist (params s) \<and> fi_icecast_sample_rate (info s) = - 1 \<and>
    max_conections (client s) = 5"
proof -
  obtain s0 where "start_position two_cfg two_player = Some s0" "it_playlist s0 = 0"
    by (auto simp: start_position_def advance_iterator_def two_player_def TPlaylist_new_simps
        load_idx_def)
  moreover have "connects (two_turn True) two_client"
    by (simp add: connects_def two_turn_def two_client_def tclient_new_def)
  ultimately show ?thesis
    using start_connected [of two_cfg two_client "[]" "demo_par\<lparr>playlist := [''a'', ''x'', ''b'']\<rparr>"
      "\<lambda>_. None" s0 "two_turn True"] two_dir(1)
    by (auto simp: two_player_def two_client_def tclient_new_def)
qed

text \<open>The state after the first file is over, and the two others erased.\<close>

lemma two_reach:
  "\<exists>s. reachable two_cfg two_fmt (two_turn True) two_player (Select, s) \<and> play_list s = [''a''] \<and>
    wires s = [two_head 44100 @ ''AB''] \<and> f_connected (client s) \<and> \<not> ev_header s"
proof -
  obtain s where s: "start two_cfg (two_turn True) two_player = (Select, s)" "f_connected (client s)"
    "ev_header s" "it_playlist s = 0" "play_list s = [''a'', ''x'', ''b'']" "wires s = [[]]"
    "\<not> new_playlist (params s)" "fi_icecast_sample_rate (info s) = - 1" "max_conections (client s) = 5"
    using two_start by blast
  have "\<exists>s'. run two_cfg two_fmt (\<lambda>_. two_turn True) 7 (Select, s) = Some (Select, s') \<and>
      play_list s' = [''a''] \<and> wires s' = [two_head 44100 @ ''AB''] \<and> f_connected (client s') \<and>
      \<not> ev_header s'"
    by (simp add: s two_eval two_bytes Let_def)
  then show ?thesis using run_reachable s(1) unfolding reachable_def by fastforce
qed

lemma reachable_in_list:
  assumes "reachable c F e (TPlaylist_new cl r p D) (ph, s)" "has_dir c" "0 \<le> load_idx c D"
  shows "ph \<noteq> Crashed \<and> (play_list s = [] \<or> it_playlist s < length (play_list s))"
proof -
  let ?I = "\<lambda>ps. fst ps \<noteq> Crashed \<and> in_list (snd ps :: 'a player)"
  have "?I (ph, s)"
  proof (rule reachable_invariant [OF assms(1)])
    show "?I (start c e (TPlaylist_new cl r p D))"
      using start_list [of c e "TPlaylist_new cl r p D"] assms(2,3)
      by (cases "start c e (TPlaylist_new cl r p D)") (simp add: TPlaylist_new_simps)
    show "?I ps'" if "?I ps" "step c F e' ps = Some ps'" for e' ps ps'
      using that step_list [of c F e' "fst ps" "snd ps" "fst ps'" "snd ps'"] assms(2) by simp
    show "?I (ph', t\<lparr>disk := D', params := p'\<rparr>)" if "?I (ph', t)" for ph' t D' p'
      using that by (simp add: in_list_def)
  qed
  then show ?thesis by (simp add: in_list_def)
qed

section \<open>Properties\<close>

text \<open>
  C8. The player never crashes: in every state it can reach, with lists replaced by other threads at
  any moment and files erased when they cannot be played, the iterator is in the list whenever
  the list is not empty, so that \<open>get_current_file\<close> never gives the null pointer that
  \<open>strdup\<close> would follow.
\<close>

theorem player_never_crashes:
  assumes "reachable c F e (TPlaylist_new cl r p D) (ph, s)" "has_dir c" "0 \<le> load_idx c D"
  shows "ph \<noteq> Crashed \<and> (play_list s = [] \<or> it_playlist s < length (play_list s))"
  using assms by (rule reachable_in_list)

theorem player_never_crashes_witness:
  "\<exists>s. reachable two_cfg two_fmt (two_turn True) two_player (Select, s) \<and>
     play_list s = [''a''] \<and> it_playlist s < 1"
proof -
  obtain s where s: "reachable two_cfg two_fmt (two_turn True) two_player (Select, s)"
    "play_list s = [''a'']" using two_reach by blast
  from player_never_crashes [OF s(1) [unfolded two_player_def] two_dir] s show ?thesis by auto
qed

text \<open>
  C9. Nothing is sent before the header: whatever stands on a connection is part of a header, or
  begins with a whole one; and sound goes out only on a connection whose header was sent whole.
\<close>

theorem header_precedes_sound:
  assumes "reachable c F e (TPlaylist_new cl r p D) (ph, s)" "\<not> f_connected cl"
  shows "(\<forall>w \<in> set (wires s). introduced c w) \<and>
    (f_connected (client s) \<and> \<not> ev_header s \<longrightarrow>
      (\<exists>fi h. header_text c fi = Some h \<and> prefix h (hd (wires s))))"
proof -
  have "header_first c (snd (ph, s))"
  proof (rule reachable_invariant [OF assms(1)])
    show "header_first c (snd (start c e (TPlaylist_new cl r p D)))"
      using assms(2) by (intro header_first_start) (simp_all add: TPlaylist_new_simps)
    show "header_first c (snd ps')" if "header_first c (snd ps)" "step c F e' ps = Some ps'"
      for e' ps ps' using that by (rule header_first_step)
    show "header_first c (snd (ph', t\<lparr>disk := D', params := p'\<rparr>))" if "header_first c (snd (ph', t))"
      for ph' t D' p' using that by (simp add: header_first_def)
  qed
  then show ?thesis by (auto simp: header_first_def)
qed

theorem header_precedes_sound_witness:
  "\<exists>s fi h. reachable two_cfg two_fmt (two_turn True) two_player (Select, s) \<and>
     wires s = [two_head 44100 @ ''AB''] \<and> header_text two_cfg fi = Some h \<and>
     prefix h (two_head 44100 @ ''AB'')"
proof -
  obtain s where s: "reachable two_cfg two_fmt (two_turn True) two_player (Select, s)"
    "wires s = [two_head 44100 @ ''AB'']" "f_connected (client s)" "\<not> ev_header s"
    using two_reach by blast
  have "\<not> f_connected two_client" by (simp add: two_client_def tclient_new_def)
  from header_precedes_sound [OF s(1) [unfolded two_player_def] this] s show ?thesis by auto
qed

text \<open>
  After a restart with the stored list the player goes on with the track after the one whose
  position was saved last, and from the top after the last track. Position 0 reads like no
  position: the first track is played again.
\<close>

theorem restart_resumes:
  assumes "save_idx c k D = Some D'" "c_can_save c" "playfile_exists p" "k < length (playlist p)"
    and "k < 2 ^ 31"
  shows "\<exists>s0. start_position c (TPlaylist_new cl r p D') = Some s0 \<and>
    it_playlist s0 = (if k = 0 then 0 else (k + 1) mod length (playlist p))"
proof -
  have D': "D' (c_npfile c) = Some (show_nat k)"
    using assms(1,2) by (auto simp: save_idx_def split: option.splits if_splits)
  have "k < 10 ^ Suc 9" using assms(5) by simp
  from show_nat_length [OF this] have l: "length (show_nat k) < 255" by simp
  have "(CHR 0x0A :: char) \<notin> set (show_nat k)" using show_nat_plain [of nl k] by (auto simp: nl_def)
  then have "fst (fgets 255 (show_nat k)) = show_nat k" using fgets_short l by fastforce
  then have i: "load_idx c D' = int k" using D' assms(5) by (simp add: load_idx_def atoi_show_nat)
  have "(k + 1) mod length (playlist p) = (if k + 1 < length (playlist p) then k + 1 else 0)"
    using assms(4) by (auto simp: not_less_eq mod_if)
  then show ?thesis using assms(3) i
    by (auto simp: start_position_def advance_iterator_def TPlaylist_new_simps Let_def)
qed


theorem restart_resumes_witness:
  "\<exists>s0. start_position two_cfg
       (TPlaylist_new two_client ([] :: byte list list)
          (demo_par\<lparr>playlist := [''a'', ''x'', ''b'']\<rparr>) [''/n/x'' \<mapsto> show_nat 1]) = Some s0 \<and>
     it_playlist s0 = Suc (Suc 0)"
  using restart_resumes [where r = "[] :: byte list list" and cl = two_client
      and p = "demo_par\<lparr>playlist := [''a'', ''x'', ''b'']\<rparr>",
      OF two_save [of 1 "\<lambda>_. None"]]
  by (simp add: two_cfg_def demo_par_def)

text \<open>
  A broken connection makes the player forget the sample rate it announced. Left alone, it
  skips a file of another rate than the first (\<open>b\<close> is erased). If the connection is lost in the
  middle of the first file, the header is sent anew with the rate of that file, but the rate to
  compare with is taken from the next: \<open>b\<close> goes out on the same connection, under the wrong
  header.
\<close>

theorem reconnect_mixes_rates:
  "map_option (\<lambda>(ph, s). (ph, play_list s, wires s))
     (run two_cfg two_fmt (\<lambda>_. two_turn True) 7 (start two_cfg (two_turn True) two_player))
   = Some (Select, [''a''], [two_head 44100 @ ''AB''])
   \<and> map_option (\<lambda>(ph, s). (ph, play_list s, wires s))
     (run two_cfg two_fmt (\<lambda>i. two_turn (i \<noteq> 1)) 8 (start two_cfg (two_turn True) two_player))
   = Some (Feed ''b'' 1, [''a'', ''b''], [two_head 44100 @ ''BC'', two_head 44100])"
proof -
  obtain s where s: "start two_cfg (two_turn True) two_player = (Select, s)" "f_connected (client s)"
    "ev_header s" "it_playlist s = 0" "play_list s = [''a'', ''x'', ''b'']" "wires s = [[]]"
    "\<not> new_playlist (params s)" "fi_icecast_sample_rate (info s) = - 1" "max_conections (client s) = 5"
    using two_start by blast
  show ?thesis by (simp add: s two_eval two_bytes Let_def)
qed

end
