(* ===== verification/Pacing.thy ===== *)
theory Pacing
  imports Playlist
begin

text \<open>
  \<open>TPlaylist::timing\<close> and \<open>track_timeout\<close>: how long the player waits after a block. Times are
  milliseconds in 32-bit unsigned words, which wrap; sound is measured with \<open>float\<close>s, whose
  rounding is the argument \<open>rnd\<close>.
\<close>

section \<open>The waiting time\<close>

record tplay_time =
  time_begin :: "32 word"
  time_sent :: "32 word"
  send_begin :: "32 word"
  time_elapsed :: "32 word"
  send_lag :: "32 word"
  time_pause :: "32 word"
  pt_frames_sent :: int
  buffer_sent :: int

definition round_ms :: "(rat \<Rightarrow> rat) \<Rightarrow> int \<Rightarrow> tfile_info \<Rightarrow> int" where
  "round_ms rnd frames fi =
     (let secs = rnd (rnd (rnd (of_int frames) * of_int (fi_spf fi)) / of_int (fi_simple_frequency fi))
      in \<lfloor>secs * 1000 + 1 / 2\<rfloor>)"

text \<open>The wanted period, by the sound the server has in store.\<close>

definition period :: "int \<Rightarrow> int \<Rightarrow> 32 word" where
  "period buffer_size buffer =
     (if buffer < buffer_size - 100 then 900 else if buffer > buffer_size then 1100 else 975)"

text \<open>
  \<open>timing\<close> after a block (\<open>sent\<close>) and after the last: the new times, and the time waited (0
  for a time that is not positive). \<open>m_time\<close> and \<open>now\<close> are what \<open>mtime\<close> gives at the start
  and in the \<open>else\<close> branch.
\<close>

definition time_between :: "(rat \<Rightarrow> rat) \<Rightarrow> bool \<Rightarrow> int \<Rightarrow> 32 word \<Rightarrow> 32 word \<Rightarrow> tfile_info \<Rightarrow>
    tplay_time \<Rightarrow> tplay_time \<times> int" where
  "time_between rnd sent buffer_size m_time now fi pt =
     (if sent then
        let elapsed = m_time - time_begin pt;
            ms = of_int (round_ms rnd (pt_frames_sent pt) fi) :: 32 word;
            buffer = (if elapsed > ms then 0 else sint (ms - elapsed));
            lag = m_time - send_begin pt;
            pause = period buffer_size buffer - lag
        in (pt\<lparr>time_elapsed := elapsed, time_sent := ms, buffer_sent := buffer,
               send_lag := lag, time_pause := pause\<rparr>, sint pause)
      else (pt, round_ms rnd (fi_frames fi) fi - uint (now - time_begin pt)))"

definition timing :: "(rat \<Rightarrow> rat) \<Rightarrow> bool \<Rightarrow> int \<Rightarrow> 32 word \<Rightarrow> 32 word \<Rightarrow> tfile_info \<Rightarrow>
    tplay_time \<Rightarrow> tplay_time \<times> int" where
  "timing rnd sent buffer_size m_time now fi pt =
     (let (pt', t) = time_between rnd sent buffer_size m_time now fi pt;
          t' = (if t > 3000 then 2000 else t)
      in (pt', if t' > 0 then t' else 0))"

text \<open>\<open>track_timeout\<close>: the timer's seconds and microseconds.\<close>

definition track_timeout :: "int \<Rightarrow> int \<times> int" where
  "track_timeout v = (c_div v 1000, c_mod v 1000 * 1000)"

section \<open>A file in time\<close>

text \<open>
  The turns of one file: turn \<open>i\<close> takes \<open>lag i\<close> milliseconds to read and send a block of
  \<open>fi_frames_to_read\<close> frames, and then waits.
\<close>

definition exact :: "rat \<Rightarrow> rat" where "exact x = x"

primrec pace :: "int \<Rightarrow> tfile_info \<Rightarrow> (nat \<Rightarrow> nat) \<Rightarrow> 32 word \<Rightarrow> nat \<Rightarrow> tplay_time \<times> 32 word" where
  "pace B fi lag t0 0 =
     (\<lparr>time_begin = t0, time_sent = 0, send_begin = 0, time_elapsed = 0, send_lag = 0,
       time_pause = 0, pt_frames_sent = 0, buffer_sent = 0\<rparr>, t0)"
| "pace B fi lag t0 (Suc n) =
     (let (pt, now) = pace B fi lag t0 n;
          m_time = now + of_nat (lag n);
          (pt', wait) = timing exact True B m_time m_time fi
             (pt\<lparr>send_begin := now, pt_frames_sent := pt_frames_sent pt + fi_frames_to_read fi\<rparr>)
      in (pt', m_time + of_int wait))"

lemma uint_small: "0 \<le> x \<Longrightarrow> x < 2 ^ 32 \<Longrightarrow> uint (of_int x :: 32 word) = x"
  by (simp add: uint_word_of_int take_bit_int_eq_self)

lemma sint_small: "- (2 ^ 31) \<le> x \<Longrightarrow> x < 2 ^ 31 \<Longrightarrow> sint (of_int x :: 32 word) = x"
  by (simp add: sint_sbintrunc' signed_take_bit_int_eq_self)

definition block_ms :: "tfile_info \<Rightarrow> rat" where
  "block_ms fi = of_int (fi_frames_to_read fi * fi_spf fi) * 1000 / of_int (fi_simple_frequency fi)"

lemma round_ms_block:
  "round_ms exact (int n * fi_frames_to_read fi) fi = \<lfloor>of_nat n * block_ms fi + 1 / 2\<rfloor>"
  by (simp add: round_ms_def block_ms_def exact_def Let_def algebra_simps)

lemma round_ms_step:
  assumes "0 \<le> block_ms fi" "block_ms fi \<le> 1099"
  shows "0 \<le> round_ms exact (int n * fi_frames_to_read fi) fi"
    and "round_ms exact (int (Suc n) * fi_frames_to_read fi) fi \<le>
      round_ms exact (int n * fi_frames_to_read fi) fi + 1100"
proof -
  have "0 \<le> of_nat n * block_ms fi" using assms(1) by simp
  then show "0 \<le> round_ms exact (int n * fi_frames_to_read fi) fi"
    unfolding round_ms_block by (simp add: le_floor_iff)
  have "of_nat (Suc n) * block_ms fi + 1 / 2 \<le> (of_nat n * block_ms fi + 1 / 2) + of_int 1099"
    using assms(2) by (simp add: algebra_simps)
  then have "\<lfloor>of_nat (Suc n) * block_ms fi + 1 / 2\<rfloor> \<le> \<lfloor>of_nat n * block_ms fi + 1 / 2\<rfloor> + 1099"
    by (metis floor_add_int floor_mono)
  then show "round_ms exact (int (Suc n) * fi_frames_to_read fi) fi \<le>
      round_ms exact (int n * fi_frames_to_read fi) fi + 1100"
    unfolding round_ms_block by simp
qed

text \<open>One turn, in whole numbers: \<open>e\<close> is the time since the file began.\<close>

lemma timing_turn:
  fixes b :: "32 word"
  assumes "time_begin pt = b" "send_begin pt = b + of_int e" "0 \<le> e" "0 \<le> l" "l \<le> 900"
    and "S = round_ms exact (pt_frames_sent pt) fi" "0 \<le> S" "S < 2 ^ 31" "e + l < 2 ^ 31"
  defines "buf \<equiv> max 0 (S - (e + l))"
  shows "\<exists>pt' P. timing exact True B (b + of_int (e + l)) now fi pt = (pt', P - l) \<and>
    buffer_sent pt' = buf \<and> time_begin pt' = b \<and> pt_frames_sent pt' = pt_frames_sent pt \<and>
    P = (if buf < B - 100 then 900 else if buf > B then 1100 else 975)"
proof -
  let ?m = "b + of_int (e + l)"
  have el: "?m - time_begin pt = of_int (e + l)" using assms(1) by simp
  have lag: "?m - send_begin pt = of_int l" using assms(2) by simp
  have cmp: "(of_int (e + l) :: 32 word) > of_int S \<longleftrightarrow> e + l > S"
    unfolding word_less_def using assms uint_small [of S] uint_small [of "e + l"] by simp
  have buf: "(if (of_int (e + l) :: 32 word) > of_int S then 0
      else sint ((of_int S :: 32 word) - of_int (e + l))) = buf"
    unfolding cmp using sint_small [of "S - (e + l)"] assms(3,4,7,8) by (auto simp: buf_def)
  define P where "P = (if buf < B - 100 then 900 else if buf > B then 1100 else 975 :: int)"
  have per: "period B buf = of_int P" by (simp add: period_def P_def)
  have w: "sint (period B buf - of_int l) = P - l"
    unfolding per using sint_small [of "P - l"] assms(4,5) by (simp add: P_def)
  have tb: "time_between exact True B ?m now fi pt =
      (pt\<lparr>time_elapsed := of_int (e + l), time_sent := of_int S, buffer_sent := buf,
         send_lag := of_int l, time_pause := period B buf - of_int l\<rparr>, P - l)"
    by (simp only: time_between_def Let_def if_True el lag assms(6) [symmetric] buf w)
  have "\<not> P - l > 3000" "0 \<le> P - l" using assms(4,5) by (auto simp: P_def)
  then show ?thesis unfolding timing_def tb using assms(1) by (auto simp: P_def)
qed

text \<open>The invariant: how far the sound sent is ahead of the clock when a turn begins.\<close>

lemma pace_ahead:
  assumes "0 \<le> block_ms fi" "block_ms fi \<le> 1099" "\<And>i. lag i \<le> 900" "0 \<le> B"
  shows "1100 * (int n + 1) < 2 ^ 31 \<Longrightarrow>
    \<exists>e pt. pace B fi lag t0 n = (pt, t0 + of_int e) \<and> 0 \<le> e \<and> e \<le> 1100 * int n \<and>
      time_begin pt = t0 \<and> pt_frames_sent pt = int n * fi_frames_to_read fi \<and>
      round_ms exact (int n * fi_frames_to_read fi) fi \<le> 1100 * int n \<and>
      round_ms exact (int n * fi_frames_to_read fi) fi - e \<le> B \<and>
      0 \<le> buffer_sent pt \<and> buffer_sent pt \<le> B + 1100"
proof (induction n)
  case 0
  have "\<lfloor>1 / 2 :: rat\<rfloor> = 0" by (rule floor_unique) simp_all
  then have "round_ms exact 0 fi = 0" by (simp add: round_ms_def exact_def)
  then show ?case using assms(4) by (intro exI [of _ 0]) simp
next
  case (Suc n)
  then obtain e pt where IH: "pace B fi lag t0 n = (pt, t0 + of_int e)" "0 \<le> e"
    "e \<le> 1100 * int n" "time_begin pt = t0" "pt_frames_sent pt = int n * fi_frames_to_read fi"
    "round_ms exact (int n * fi_frames_to_read fi) fi \<le> 1100 * int n"
    "round_ms exact (int n * fi_frames_to_read fi) fi - e \<le> B" by auto
  let ?now = "t0 + of_int e" and ?l = "int (lag n)"
  let ?pt = "pt\<lparr>send_begin := ?now, pt_frames_sent := pt_frames_sent pt + fi_frames_to_read fi\<rparr>"
  define S where "S = round_ms exact (int (Suc n) * fi_frames_to_read fi) fi"
  define m where "m = int (Suc n)"
  have mn: "int n = m - 1" by (simp add: m_def)
  have f: "pt_frames_sent ?pt = int (Suc n) * fi_frames_to_read fi"
    using IH(5) by (simp add: algebra_simps)
  have l: "0 \<le> ?l" "?l \<le> 900" using assms(3) [of n] by simp_all
  have S: "0 \<le> S" "S \<le> 1100 * int (Suc n)" "S - e \<le> B + 1100"
  proof -
    have "S \<le> round_ms exact (int n * fi_frames_to_read fi) fi + 1100"
      unfolding S_def by (rule round_ms_step(2) [OF assms(1,2)])
    then show "S \<le> 1100 * int (Suc n)" "S - e \<le> B + 1100" using IH(6,7) by simp_all
  qed (use round_ms_step(1) [OF assms(1,2), of "Suc n"] in \<open>simp add: S_def\<close>)
  have "1100 * (m + 1) < 2147483648" using Suc.prems unfolding m_def by simp
  then have small: "S < 2 ^ 31" "e + ?l < 2 ^ 31"
    using S(2) IH(3) l unfolding mn m_def [symmetric] by simp_all
  define buf where "buf = max 0 (S - (e + ?l))"
  define P where "P = (if buf < B - 100 then 900 else if buf > B then 1100 else 975 :: int)"
  have now: "?now + of_nat (lag n) = t0 + of_int (e + ?l)" by simp
  obtain pt' where t: "timing exact True B (t0 + of_int (e + ?l)) (t0 + of_int (e + ?l)) fi ?pt =
      (pt', P - ?l)" "buffer_sent pt' = buf" "time_begin pt' = t0"
      "pt_frames_sent pt' = int (Suc n) * fi_frames_to_read fi"
    using timing_turn [of ?pt t0 e ?l S fi B "t0 + of_int (e + ?l)", folded buf_def, folded P_def]
      IH(2,4) f l S(1) small by (auto simp: S_def)
  have "pace B fi lag t0 (Suc n) = (pt', t0 + of_int (e + ?l) + of_int (P - ?l))"
    unfolding pace.simps IH(1) Let_def prod.case now t(1) by simp
  moreover have "t0 + of_int (e + ?l) + of_int (P - ?l) = t0 + of_int (e + P)" by simp
  moreover have "S - (e + P) \<le> B" using S(3) IH(7) l assms(4) by (auto simp: P_def buf_def)
  moreover have "0 \<le> P" "P \<le> 1100" by (simp_all add: P_def)
  moreover have "0 \<le> buf" "buf \<le> B + 1100" using S(3) l assms(4) by (auto simp: buf_def)
  ultimately show ?case using IH(2,3) t S(2) unfolding S_def
    by (intro exI [of _ "e + P"] exI [of _ pt']) simp
qed

section \<open>Properties\<close>



end
