(* ===== verification/Ini.thy ===== *)
theory Ini
  imports Text
begin

text \<open>
  \<open>ini.c\<close> and \<open>INIReader.cpp\<close> (the same files in \<open>accordion_V10.X\<close> and \<open>logger\<close>): the
  configuration files. The lines of a file become calls of \<open>ValueHandler\<close>, which fills a map from
  \<open>section=name\<close>, in small letters, to the value.
\<close>

section \<open>Lines\<close>

definition rstrip :: "string \<Rightarrow> string" where
  "rstrip s = rev (dropWhile c_isspace (rev s))"

definition lskip :: "string \<Rightarrow> string" where
  "lskip s = dropWhile c_isspace s"

text \<open>
  \<open>find_chars_or_comment\<close>: the text before the first of \<open>chars\<close>, or before a semicolon after
  white space, and the text from there on.
\<close>

fun find_chars :: "string \<Rightarrow> bool \<Rightarrow> string \<Rightarrow> string \<times> string" where
  "find_chars chars was_space [] = ([], [])"
| "find_chars chars was_space (c # s) =
     (if c \<in> set chars \<or> was_space \<and> c = CHR '';'' then ([], c # s)
      else let (a, b) = find_chars chars (c_isspace c) s in (c # a, b))"

definition find_chars_or_comment :: "string \<Rightarrow> string \<Rightarrow> string \<times> string" where
  "find_chars_or_comment s chars = find_chars chars False s"

text \<open>
  The state of the loop; \<open>values\<close> is \<open>_values\<close>. A section and a remembered name have at most
  49 characters.
\<close>

record ini =
  ini_section :: string
  prev_name :: string
  lineno :: int
  ini_error :: int
  ini_values :: "(string, string) smap"

definition MakeKey :: "string \<Rightarrow> string \<Rightarrow> string" where
  "MakeKey sec name = map c_tolower (sec @ ''='' @ name)"

definition ValueHandler :: "string \<Rightarrow> string \<Rightarrow> string \<Rightarrow> ini \<Rightarrow> ini" where
  "ValueHandler sec name value st =
     (let key = MakeKey sec name;
          old = (case map_of (ini_values st) key of None \<Rightarrow> [] | Some v \<Rightarrow> v);
          new = (if old \<noteq> [] then old @ [CHR 0x0A] else old) @ value
      in st\<lparr>ini_values := smap_put key new (ini_values st)\<rparr>)"

definition set_error :: "ini \<Rightarrow> ini" where
  "set_error st = (if ini_error st = 0 then st\<lparr>ini_error := lineno st\<rparr> else st)"

definition BOM :: string where "BOM = [CHR 0xEF, CHR 0xBB, CHR 0xBF]"

text \<open>One line, as \<open>fgets\<close> gives it. The handler always returns 1.\<close>

definition ini_line :: "ini \<Rightarrow> string \<Rightarrow> ini" where
  "ini_line st0 line =
     (let st = st0\<lparr>lineno := lineno st0 + 1\<rparr>;
          bom = lineno st = 1 \<and> take 3 line = BOM;
          body = rstrip (if bom then drop 3 line else line);
          start = lskip body;
          moved = bom \<or> length start < length body
      in if start \<noteq> [] \<and> (hd start = CHR '';'' \<or> hd start = CHR ''#'') then st
         else if prev_name st \<noteq> [] \<and> start \<noteq> [] \<and> moved
              then ValueHandler (ini_section st) (prev_name st) start st
         else if start \<noteq> [] \<and> hd start = CHR ''['' then
           (let (a, b) = find_chars_or_comment (tl start) '']'' in
            if b \<noteq> [] \<and> hd b = CHR '']'' then st\<lparr>ini_section := take 49 a, prev_name := []\<rparr>
            else set_error st)
         else if start \<noteq> [] then
           (let (a, b) = find_chars_or_comment start ''=:'' in
            if b \<noteq> [] \<and> (hd b = CHR ''='' \<or> hd b = CHR '':'') then
              let name = rstrip a;
                  value = rstrip (fst (find_chars_or_comment (lskip (tl b)) []))
              in ValueHandler (ini_section st) name value (st\<lparr>prev_name := take 49 name\<rparr>)
            else set_error st)
         else st)"

text \<open>\<open>INI_MAX_LINE\<close> is 200: longer lines are read in pieces.\<close>

definition ini_start :: ini where
  "ini_start = \<lparr>ini_section = [], prev_name = [], lineno = 0, ini_error = 0, ini_values = []\<rparr>"

definition ini_parse :: "string option \<Rightarrow> int \<times> (string, string) smap" where
  "ini_parse f =
     (case f of None \<Rightarrow> (- 1, [])
      | Some c \<Rightarrow> let st = foldl ini_line ini_start (fgets_all 198 c) in (ini_error st, ini_values st))"

section \<open>INIReader\<close>

type_synonym ini_map = "(string, string) smap"

definition Get :: "ini_map \<Rightarrow> string \<Rightarrow> string \<Rightarrow> string \<Rightarrow> string" where
  "Get m sec name default_value =
     (case map_of m (MakeKey sec name) of None \<Rightarrow> default_value | Some v \<Rightarrow> v)"

text \<open>\<open>strtol\<close> with base 0; \<open>None\<close> when there is no number.\<close>

definition digit_value :: "char \<Rightarrow> nat" where
  "digit_value c = (if c_isdigit c then code c - 48
     else if c_islower c then code c - 87 else if c_isupper c then code c - 55 else 99)"

fun base_digits :: "nat \<Rightarrow> int \<Rightarrow> string \<Rightarrow> int" where
  "base_digits b a [] = a"
| "base_digits b a (c # cs) =
     (if digit_value c < b then base_digits b (int b * a + int (digit_value c)) cs else a)"

definition unsigned_value :: "string \<Rightarrow> int option" where
  "unsigned_value t =
     (case t of
        [] \<Rightarrow> None
      | c # cs \<Rightarrow>
          if c = CHR ''0'' then
            (case cs of
               x # d # _ \<Rightarrow>
                 if (x = CHR ''x'' \<or> x = CHR ''X'') \<and> digit_value d < 16
                 then Some (base_digits 16 0 (tl cs)) else Some (base_digits 8 0 cs)
             | _ \<Rightarrow> Some (base_digits 8 0 cs))
          else if c_isdigit c then Some (base_digits 10 0 t) else None)"

definition c_strtol0 :: "string \<Rightarrow> int option" where
  "c_strtol0 s =
     (let t = lskip s;
          v = (case t of
                 [] \<Rightarrow> None
               | c # cs \<Rightarrow> if c = CHR ''-'' then map_option uminus (unsigned_value cs)
                           else if c = CHR ''+'' then unsigned_value cs else unsigned_value t)
      in map_option (\<lambda>x. max (- (2 ^ 63)) (min (2 ^ 63 - 1) x)) v)"

definition GetInteger :: "ini_map \<Rightarrow> string \<Rightarrow> string \<Rightarrow> int \<Rightarrow> int" where
  "GetInteger m sec name default_value =
     (case c_strtol0 (Get m sec name []) of None \<Rightarrow> default_value | Some n \<Rightarrow> n)"

definition GetBoolean :: "ini_map \<Rightarrow> string \<Rightarrow> string \<Rightarrow> bool \<Rightarrow> bool" where
  "GetBoolean m sec name default_value =
     (let v = map c_tolower (Get m sec name []) in
      if v \<in> {''true'', ''yes'', ''on'', ''1''} then True
      else if v \<in> {''false'', ''no'', ''off'', ''0''} then False
      else default_value)"

text \<open>\<open>SectionExists\<close> (logger): some key begins with the name of the section.\<close>

definition SectionExists :: "ini_map \<Rightarrow> string \<Rightarrow> bool" where
  "SectionExists m sec \<longleftrightarrow> (\<exists>k \<in> set (map fst m). prefix (map c_tolower sec) k)"


section \<open>Writing and reading\<close>

text \<open>A file with plain lines: sections, and names with values without white space at the ends.\<close>

definition trimmed :: "string \<Rightarrow> bool" where
  "trimmed s \<longleftrightarrow> s \<noteq> [] \<and> \<not> c_isspace (hd s) \<and> \<not> c_isspace (last s)"

definition plain_name :: "string \<Rightarrow> bool" where
  "plain_name n \<longleftrightarrow> trimmed n \<and> set n \<inter> set ''=:;#[]'' = {} \<and> CHR 0x0A \<notin> set n \<and> length n \<le> 49
     \<and> CHR 0xEF \<notin> set n"

definition plain_value :: "string \<Rightarrow> bool" where
  "plain_value v \<longleftrightarrow> trimmed v \<and> CHR '';'' \<notin> set v \<and> CHR 0x0A \<notin> set v"

definition pair_line :: "string \<times> string \<Rightarrow> string" where
  "pair_line nv = fst nv @ ''='' @ snd nv @ [CHR 0x0A]"

definition section_line :: "string \<Rightarrow> string" where
  "section_line sec = ''['' @ sec @ '']'' @ [CHR 0x0A]"

definition print_section :: "string \<times> (string \<times> string) list \<Rightarrow> string list" where
  "print_section s = section_line (fst s) # map pair_line (snd s)"

lemma not_space [simp]: "\<not> c_isspace CHR ''=''" "\<not> c_isspace CHR ''[''" "\<not> c_isspace CHR '']''"
  "c_isspace CHR 0x0A"
  by (simp_all add: c_isspace_def code_def)

lemma rstrip_newline: "s \<noteq> [] \<Longrightarrow> \<not> c_isspace (last s) \<Longrightarrow> rstrip (s @ [CHR 0x0A]) = s"
  by (cases s rule: rev_cases) (simp_all add: rstrip_def)

lemma rstrip_same: "s \<noteq> [] \<Longrightarrow> \<not> c_isspace (last s) \<Longrightarrow> rstrip s = s"
  by (cases s rule: rev_cases) (simp_all add: rstrip_def)

lemma lskip_same: "s \<noteq> [] \<Longrightarrow> \<not> c_isspace (hd s) \<Longrightarrow> lskip s = s"
  by (cases s) (simp_all add: lskip_def)

lemma find_chars_skip:
  "set a \<inter> set cs = {} \<Longrightarrow> CHR '';'' \<notin> set a \<Longrightarrow> c \<in> set cs \<Longrightarrow> find_chars cs w (a @ c # t) = (a, c # t)"
  by (induction a arbitrary: w) auto

lemma find_chars_none: "CHR '';'' \<notin> set a \<Longrightarrow> find_chars [] w a = (a, [])"
  by (induction a arbitrary: w) auto

lemma line_section:
  assumes "set sec \<inter> set '';]'' = {}" "length sec \<le> 49"
  shows "ini_line st (section_line sec) =
    st\<lparr>lineno := lineno st + 1, ini_section := sec, prev_name := []\<rparr>"
proof -
  have r: "rstrip (section_line sec) = ''['' @ sec @ '']''"
    using rstrip_newline [of "''['' @ sec @ '']''"] by (simp add: section_line_def)
  have b: "take 3 (section_line sec) \<noteq> BOM" by (simp add: section_line_def BOM_def)
  have f: "find_chars_or_comment (sec @ '']'') '']'' = (sec, '']'')"
    using assms by (auto simp: find_chars_or_comment_def intro: find_chars_skip)
  show ?thesis using b r f assms(2)
    by (simp add: ini_line_def Let_def lskip_def)
qed

lemma line_pair:
  assumes "plain_name n" "plain_value v"
  shows "ini_line st (pair_line (n, v)) =
    ValueHandler (ini_section st) n v (st\<lparr>lineno := lineno st + 1, prev_name := n\<rparr>)"
proof -
  note n = assms(1) [unfolded plain_name_def trimmed_def]
  note v = assms(2) [unfolded plain_value_def trimmed_def]
  have r: "rstrip (pair_line (n, v)) = n @ CHR ''='' # v"
    using rstrip_newline [of "n @ CHR ''='' # v"] v by (simp add: pair_line_def)
  have l: "lskip (n @ CHR ''='' # v) = n @ CHR ''='' # v"
    using n by (intro lskip_same) (auto simp: hd_append)
  obtain c cs where c: "n = c # cs" using n by (cases n) auto
  have b: "take 3 (pair_line (n, v)) \<noteq> BOM"
    using n c by (auto simp: pair_line_def BOM_def)
  have f: "find_chars_or_comment (n @ CHR ''='' # v) ''=:'' = (n, CHR ''='' # v)"
    unfolding find_chars_or_comment_def using n by (intro find_chars_skip) auto
  have g: "find_chars_or_comment v [] = (v, [])"
    unfolding find_chars_or_comment_def using v by (intro find_chars_none) auto
  have h: "hd (n @ CHR ''='' # v) \<noteq> CHR '';''" "hd (n @ CHR ''='' # v) \<noteq> CHR ''#''"
    "hd (n @ CHR ''='' # v) \<noteq> CHR ''[''" "n @ CHR ''='' # v \<noteq> []" "take 49 n = n"
    using n c by auto
  have lv: "lskip v = v" "rstrip v = v" "rstrip n = n"
    using n v by (simp_all add: lskip_same rstrip_same)
  show ?thesis
    by (simp add: ini_line_def b r l f g h lv ValueHandler_def Let_def)
qed


lemma fgets_line:
  "CHR 0x0A \<notin> set a \<Longrightarrow> length a \<le> n \<Longrightarrow>
     fgets (Suc (Suc n)) (a @ CHR 0x0A # t) = (a @ [CHR 0x0A], t)"
proof (induction a arbitrary: n)
  case (Cons c a)
  then obtain m where "n = Suc m" by (cases n) auto
  then show ?case using Cons by auto
qed simp

definition is_line :: "string \<Rightarrow> bool" where
  "is_line l \<longleftrightarrow> (\<exists>a. l = a @ [CHR 0x0A] \<and> CHR 0x0A \<notin> set a \<and> length a \<le> 198)"

lemma fgets_lines: "(\<And>l. l \<in> set ls \<Longrightarrow> is_line l) \<Longrightarrow> fgets_all 198 (concat ls) = ls"
proof (induction ls)
  case Nil
  show ?case by (subst fgets_all.simps) simp
next
  case (Cons l ls)
  have "is_line l" using Cons.prems by simp
  then obtain a where a: "l = a @ [CHR 0x0A]" "CHR 0x0A \<notin> set a" "length a \<le> 198"
    unfolding is_line_def by blast
  have "fgets (Suc (Suc 198)) (concat (l # ls)) = (l, concat ls)"
    using fgets_line [OF a(2,3), of "concat ls"] a(1) by simp
  then show ?case using Cons a(1) by (subst fgets_all.simps) simp
qed

text \<open>The entries a file puts into the map.\<close>

type_synonym ini_file = "(string \<times> (string \<times> string) list) list"

definition entries :: "ini_file \<Rightarrow> (string \<times> string) list" where
  "entries ss = concat (map (\<lambda>(sec, nvs). map (\<lambda>(n, v). (MakeKey sec n, v)) nvs) ss)"

definition plain_section :: "string \<times> (string \<times> string) list \<Rightarrow> bool" where
  "plain_section s \<longleftrightarrow> set (fst s) \<inter> set '';]'' = {} \<and> CHR 0x0A \<notin> set (fst s) \<and> length (fst s) \<le> 49 \<and>
     (\<forall>(n, v) \<in> set (snd s). plain_name n \<and> plain_value v \<and> length n + length v \<le> 197)"

lemma foldl_pairs:
  assumes "\<And>n v. (n, v) \<in> set nvs \<Longrightarrow> plain_name n \<and> plain_value v"
    and "distinct (map (\<lambda>(n, v). MakeKey (ini_section st) n) nvs)" "smap_ok (ini_values st)"
    and "\<And>n v. (n, v) \<in> set nvs \<Longrightarrow> map_of (ini_values st) (MakeKey (ini_section st) n) = None"
  shows "\<exists>st'. foldl ini_line st (map pair_line nvs) = st' \<and> ini_section st' = ini_section st \<and>
    ini_error st' = ini_error st \<and>
    ini_values st' = fold (\<lambda>(k, v). smap_put k v)
      (map (\<lambda>(n, v). (MakeKey (ini_section st) n, v)) nvs) (ini_values st)"
  using assms
proof (induction nvs arbitrary: st)
  case (Cons nv nvs)
  obtain n v where nv: "nv = (n, v)" by fastforce
  let ?k = "MakeKey (ini_section st) n"
  have l: "ini_line st (pair_line nv) =
      st\<lparr>lineno := lineno st + 1, prev_name := n, ini_values := smap_put ?k v (ini_values st)\<rparr>"
    using Cons.prems(1,4) [of n v] nv line_pair [of n v st] by (simp add: ValueHandler_def Let_def)
  let ?st = "ini_line st (pair_line nv)"
  have ih: "\<exists>st'. foldl ini_line ?st (map pair_line nvs) = st' \<and> ini_section st' = ini_section ?st \<and>
    ini_error st' = ini_error ?st \<and>
    ini_values st' = fold (\<lambda>(k, v). smap_put k v)
      (map (\<lambda>(n, v). (MakeKey (ini_section ?st) n, v)) nvs) (ini_values ?st)"
  proof (rule Cons.IH)
    show "map_of (ini_values ?st) (MakeKey (ini_section ?st) m) = None" if "(m, w) \<in> set nvs" for m w
      using that Cons.prems(2) Cons.prems(4) [of m w] nv unfolding l
      by (force simp: map_of_smap_put)
  qed (use Cons.prems nv l in \<open>auto simp: smap_put_ok\<close>)
  then show ?case using l nv by simp
qed simp

lemma foldl_sections:
  assumes "\<And>s. s \<in> set ss \<Longrightarrow> plain_section s" "distinct (map fst (entries ss))"
    "smap_ok (ini_values st)" "\<And>k v. (k, v) \<in> set (entries ss) \<Longrightarrow> map_of (ini_values st) k = None"
  shows "\<exists>st'. foldl ini_line st (concat (map print_section ss)) = st' \<and> ini_error st' = ini_error st \<and>
    ini_values st' = fold (\<lambda>(k, v). smap_put k v) (entries ss) (ini_values st)"
  using assms
proof (induction ss arbitrary: st)
  case Nil
  show ?case by (simp add: entries_def)
next
  case (Cons s ss)
  obtain sec nvs where s: "s = (sec, nvs)" by fastforce
  have pl: "plain_section (sec, nvs)" using Cons.prems(1) s by simp
  let ?st = "ini_line st (section_line sec)"
  let ?es = "map (\<lambda>(n, v). (MakeKey sec n, v)) nvs"
  have e: "entries (s # ss) = ?es @ entries ss" by (simp add: entries_def s)
  have l: "?st = st\<lparr>lineno := lineno st + 1, ini_section := sec, prev_name := []\<rparr>"
    using pl by (intro line_section) (auto simp: plain_section_def)
  have ks: "map (\<lambda>(n, v). MakeKey sec n) nvs = map fst ?es" by (simp add: case_prod_beta)
  obtain st1 where st1: "foldl ini_line ?st (map pair_line nvs) = st1" "ini_error st1 = ini_error st"
    "ini_values st1 = fold (\<lambda>(k, v). smap_put k v) ?es (ini_values st)"
  proof -
    have "\<exists>st'. foldl ini_line ?st (map pair_line nvs) = st' \<and> ini_section st' = ini_section ?st \<and>
      ini_error st' = ini_error ?st \<and>
      ini_values st' = fold (\<lambda>(k, v). smap_put k v)
        (map (\<lambda>(n, v). (MakeKey (ini_section ?st) n, v)) nvs) (ini_values ?st)"
    proof (rule foldl_pairs)
      show "plain_name n \<and> plain_value v" if "(n, v) \<in> set nvs" for n v
        using that pl by (auto simp: plain_section_def)
      show "distinct (map (\<lambda>(n, v). MakeKey (ini_section ?st) n) nvs)"
        using Cons.prems(2) unfolding l e by (simp add: ks)
      show "map_of (ini_values ?st) (MakeKey (ini_section ?st) n) = None" if "(n, v) \<in> set nvs" for n v
        using that Cons.prems(4) [of "MakeKey sec n" v] unfolding l e by force
    qed (use Cons.prems(3) l in simp)
    then show thesis using that l by simp
  qed
  have "\<exists>st'. foldl ini_line st1 (concat (map print_section ss)) = st' \<and> ini_error st' = ini_error st1 \<and>
      ini_values st' = fold (\<lambda>(k, v). smap_put k v) (entries ss) (ini_values st1)"
  proof (rule Cons.IH)
    show "plain_section x" if "x \<in> set ss" for x using that Cons.prems(1) by simp
    show "distinct (map fst (entries ss))" using Cons.prems(2) e by simp
    show "smap_ok (ini_values st1)" unfolding st1(3) by (rule sm.put_fold_ok) (rule Cons.prems(3))
    show "map_of (ini_values st1) k = None" if "(k, v) \<in> set (entries ss)" for k v
    proof -
      have "k \<notin> set (map fst ?es)" using that Cons.prems(2) e by force
      then have "map_of (rev ?es) k = None" by (metis map_of_eq_None_iff rev_map set_map set_rev)
      moreover have "map_of (ini_values st) k = None" using Cons.prems(4) [of k v] that by (simp add: e)
      ultimately show ?thesis unfolding st1(3) using sm.get_fold_put [OF Cons.prems(3), of ?es k] by simp
    qed
  qed
  moreover have "print_section s = section_line sec # map pair_line nvs" by (simp add: print_section_def s)
  ultimately show ?case unfolding e using st1 l by simp
qed

section \<open>Properties\<close>



end
