(* ===== verification/Base64.thy ===== *)
theory Base64
  imports Prelude
begin

unbundle bit_operations_syntax

text \<open>
  \<open>accordion_V10.X/base64.cpp\<close>: the encoder of the server's credentials and its decoder. Bytes
  are \<open>8 word\<close>, so the sums and shifts wrap as in \<open>unsigned char\<close>; the loops over groups of three
  bytes and four characters recurse on the groups.
\<close>

definition base64_chars :: string where
  "base64_chars = ''ABCDEFGHIJKLMNOPQRSTUVWXYZabcdefghijklmnopqrstuvwxyz0123456789+/''"

definition is_base64 :: "char \<Rightarrow> bool" where
  "is_base64 c \<longleftrightarrow> c_isalnum c \<or> c = CHR ''+'' \<or> c = CHR ''/''"

text \<open>The bodies of the loops: three bytes to four six-bit values, and back.\<close>

definition split3 :: "byte \<Rightarrow> byte \<Rightarrow> byte \<Rightarrow> byte list" where
  "split3 a b c =
     [drop_bit 2 (a AND 0xfc),
      push_bit 4 (a AND 0x03) + drop_bit 4 (b AND 0xf0),
      push_bit 2 (b AND 0x0f) + drop_bit 6 (c AND 0xc0),
      c AND 0x3f]"

definition join4 :: "byte \<Rightarrow> byte \<Rightarrow> byte \<Rightarrow> byte \<Rightarrow> byte list" where
  "join4 p q r s =
     [push_bit 2 p + drop_bit 4 (q AND 0x30),
      push_bit 4 (q AND 0xf) + drop_bit 2 (r AND 0x3c),
      push_bit 6 (r AND 0x3) + s]"

definition b64_char :: "byte \<Rightarrow> char" where
  "b64_char w = base64_chars ! unat w"

fun base64_encode :: "byte list \<Rightarrow> string" where
  "base64_encode (a # b # c # bs) = map b64_char (split3 a b c) @ base64_encode bs"
| "base64_encode [a, b] = map b64_char (take 3 (split3 a b 0)) @ ''=''"
| "base64_encode [a] = map b64_char (take 2 (split3 a 0 0)) @ ''==''"
| "base64_encode [] = []"

text \<open>\<open>base64_chars.find\<close> cut to a byte: \<open>npos\<close> becomes 255.\<close>

definition b64_find :: "char \<Rightarrow> byte" where
  "b64_find c = (case find_chr c base64_chars of Some i \<Rightarrow> of_nat i | None \<Rightarrow> 255)"

definition nul :: char where "nul = CHR 0x00"

fun decode_groups :: "string \<Rightarrow> byte list" where
  "decode_groups (a # b # c # d # cs) =
     join4 (b64_find a) (b64_find b) (b64_find c) (b64_find d) @ decode_groups cs"
| "decode_groups [] = []"
| "decode_groups cs =
     (let f = map b64_find (cs @ replicate (4 - length cs) nul)
      in take (length cs - 1) (join4 (f ! 0) (f ! 1) (f ! 2) (f ! 3)))"

definition base64_decode :: "string \<Rightarrow> byte list" where
  "base64_decode s = decode_groups (takeWhile (\<lambda>c. c \<noteq> CHR ''='' \<and> is_base64 c) s)"

section \<open>Values\<close>

lemma and_masks:
  "(w :: byte) AND 0x03 = take_bit 2 w" "w AND 0x0f = take_bit 4 w" "w AND 0x3f = take_bit 6 w"
  by (simp_all add: take_bit_eq_mask mask_eq_exp_minus_1)

lemma drop_masks:
  "drop_bit 2 ((w :: byte) AND 0xfc) = drop_bit 2 w" "drop_bit 4 (w AND 0xf0) = drop_bit 4 w"
  "drop_bit 6 (w AND 0xc0) = drop_bit 6 w" "drop_bit 4 (w AND 0x30) = take_bit 2 (drop_bit 4 w)"
  "drop_bit 2 (w AND 0x3c) = take_bit 4 (drop_bit 2 w)"
  by ((rule bit_word_eqI; auto simp: bit_simps less_Suc_eq numeral_eq_Suc
        dest: bit_imp_le_length)+)

lemmas byte_values = and_masks drop_masks unat_take_byte unat_drop_byte unat_push_byte
  unat_plus_byte

lemma split3_values:
  "map unat (split3 a b c) =
     [unat a div 4, (unat a mod 4) * 16 + unat b div 16, (unat b mod 16) * 4 + unat c div 64,
      unat c mod 64]"
proof -
  have "unat a mod 4 * 16 + unat b div 16 < 256" "unat b mod 16 * 4 + unat c div 64 < 256"
    using unat_byte_less [of b] unat_byte_less [of c] by auto
  moreover have "unat a div 4 < 64" "unat b div 16 < 16" "unat c div 64 < 4"
    using unat_byte_less [of a] unat_byte_less [of b] unat_byte_less [of c] by auto
  ultimately show ?thesis by (simp add: split3_def byte_values)
qed

lemma join4_values:
  assumes "unat p < 64" "unat q < 64" "unat r < 64" "unat s < 64"
  shows "map unat (join4 p q r s) =
    [unat p * 4 + unat q div 16, (unat q mod 16) * 16 + unat r div 4,
     (unat r mod 4) * 64 + unat s]"
proof -
  have "unat q div 16 < 4" "unat r div 4 < 16" using assms by auto
  moreover have "unat p * 4 + unat q div 16 < 256" "unat q mod 16 * 16 + unat r div 4 < 256"
    "unat r mod 4 * 64 + unat s < 256"
    using assms by auto
  ultimately show ?thesis by (simp add: join4_def byte_values)
qed

lemma map_unat_inject: "map unat v = map unat w \<Longrightarrow> v = (w :: byte list)"
  by (metis inj_map_eq_map inj_onI unsigned_word_eqI)

lemma split3_small: "\<forall>w \<in> set (split3 a b c). unat w < 64"
proof -
  have "\<forall>n \<in> set (map unat (split3 a b c)). n < 64"
    using unat_byte_less [of a] unat_byte_less [of b] unat_byte_less [of c]
    unfolding split3_values by auto
  then show ?thesis by simp
qed

lemma join4_split3:
  "split3 a b c = [p, q, r, s] \<Longrightarrow> join4 p q r s = [a, b, c]"
proof -
  assume *: "split3 a b c = [p, q, r, s]"
  then have v: "unat p = unat a div 4" "unat q = (unat a mod 4) * 16 + unat b div 16"
    "unat r = (unat b mod 16) * 4 + unat c div 64" "unat s = unat c mod 64"
    using split3_values [of a b c] by auto
  have b: "unat b div 16 < 16" "unat c div 64 < 4"
    using unat_byte_less [of b] unat_byte_less [of c] by auto
  have "unat q div 16 = unat a mod 4" "unat q mod 16 = unat b div 16"
    "unat r div 4 = unat b mod 16" "unat r mod 4 = unat c div 64"
    using v b by simp_all
  then have "map unat (join4 p q r s) = map unat [a, b, c]"
    using join4_values [of p q r s] split3_small [of a b c] * v by simp
  then show ?thesis by (rule map_unat_inject)
qed

section \<open>Characters\<close>

lemma find_nth: "distinct s \<Longrightarrow> i < length s \<Longrightarrow> find_chr (s ! i) s = Some i"
  by (induction s arbitrary: i) (auto simp: nth_Cons' split: if_splits)

lemma base64_chars_facts:
  "length base64_chars = 64" "distinct base64_chars" "list_all is_base64 base64_chars"
  "CHR ''='' \<notin> set base64_chars"
  by (code_simp, code_simp, code_simp, code_simp)

lemma b64_find_char: "unat w < 64 \<Longrightarrow> b64_find (b64_char w) = w"
  by (simp add: b64_find_def b64_char_def find_nth base64_chars_facts)

lemma b64_char_in: "unat w < 64 \<Longrightarrow> b64_char w \<in> set base64_chars"
  by (simp add: b64_char_def base64_chars_facts)

lemma b64_char_valid:
  "unat w < 64 \<Longrightarrow> is_base64 (b64_char w) \<and> b64_char w \<noteq> CHR ''=''"
  using b64_char_in [of w] base64_chars_facts(3,4) by (auto simp: list_all_iff)

lemma split3_chars:
  "\<exists>p q r s. split3 a b c = [p, q, r, s] \<and> unat p < 64 \<and> unat q < 64 \<and> unat r < 64 \<and> unat s < 64"
proof -
  obtain p q r s where "split3 a b c = [p, q, r, s]" by (simp add: split3_def)
  then show ?thesis using split3_small [of a b c] by auto
qed

lemma takeWhile_valid:
  "\<forall>c \<in> set u. c \<noteq> CHR ''='' \<and> is_base64 c \<Longrightarrow>
     takeWhile (\<lambda>c. c \<noteq> CHR ''='' \<and> is_base64 c) (u @ v) =
     u @ takeWhile (\<lambda>c. c \<noteq> CHR ''='' \<and> is_base64 c) v"
  by (induction u) auto

lemma base64_decode_encode: "base64_decode (base64_encode bs) = bs"
proof (induction bs rule: base64_encode.induct)
  case (1 a b c bs)
  obtain p q r s where s: "split3 a b c = [p, q, r, s]"
    and l: "unat p < 64" "unat q < 64" "unat r < 64" "unat s < 64"
    using split3_chars by blast
  then show ?case
    using 1 join4_split3 [OF s]
    by (simp add: base64_decode_def b64_char_valid b64_find_char)
next
  case (2 a b)
  obtain p q r s where s: "split3 a b 0 = [p, q, r, s]"
    and l: "unat p < 64" "unat q < 64" "unat r < 64" "unat s < 64"
    using split3_chars by blast
  have "take (Suc (Suc 0)) (join4 p q r x) = take (Suc (Suc 0)) (join4 p q r s)" for x by (simp add: join4_def)
  then show ?case
    using l join4_split3 [OF s] s
    by (simp add: base64_decode_def b64_char_valid b64_find_char)
next
  case (3 a)
  obtain p q r s where s: "split3 a 0 0 = [p, q, r, s]"
    and l: "unat p < 64" "unat q < 64" "unat r < 64" "unat s < 64"
    using split3_chars by blast
  have "take (Suc 0) (join4 p q x y) = take (Suc 0) (join4 p q r s)" for x y by (simp add: join4_def)
  then show ?case
    using l join4_split3 [OF s] s
    by (simp add: base64_decode_def b64_char_valid b64_find_char)
qed (simp add: base64_decode_def)

interpretation base64: codec base64_encode base64_decode "\<lambda>_. True"
  by unfold_locales (rule base64_decode_encode)

section \<open>Properties\<close>

text \<open>
  C36. Base64 round trip: decoding the encoder's text gives the bytes back, for every input, so
  that different bytes have different texts.
\<close>

theorem base64_round_trip:
  "base64_decode (base64_encode bs) = bs \<and> (base64_encode bs = base64_encode cs \<longleftrightarrow> bs = cs)"
  using base64.dec_enc [of bs] base64.enc_inject [of bs cs] by simp

lemma split3_chars_in: "set (map b64_char (split3 a b c)) \<subseteq> set base64_chars"
  using split3_small [of a b c] b64_char_in by auto

text \<open>
  The text is well formed: four characters for every three bytes or part of three, all from
  the alphabet except for at most two \<open>=\<close> at the end.
\<close>

theorem base64_encode_format:
  "length (base64_encode bs) = 4 * ((length bs + 2) div 3) \<and>
   (\<exists>body k. base64_encode bs = body @ replicate k CHR ''='' \<and> k \<le> 2 \<and>
      set body \<subseteq> set base64_chars)"
proof (induction bs rule: base64_encode.induct)
  case (1 a b c bs)
  then obtain body k where ih: "base64_encode bs = body @ replicate k CHR ''=''" "k \<le> 2"
      "set body \<subseteq> set base64_chars" "length (base64_encode bs) = 4 * ((length bs + 2) div 3)"
    by blast
  have "length (map b64_char (split3 a b c)) = 4" by (simp add: split3_def)
  moreover have "set (map b64_char (split3 a b c) @ body) \<subseteq> set base64_chars"
    using ih(3) split3_chars_in [of a b c] by simp
  moreover have "base64_encode (a # b # c # bs) =
      (map b64_char (split3 a b c) @ body) @ replicate k CHR ''=''"
    using ih(1) by simp
  moreover have "(length (a # b # c # bs) + 2) div 3 = (length bs + 2) div 3 + 1" by simp
  ultimately show ?case
    using ih(1,2,4) by (intro conjI exI [of _ "map b64_char (split3 a b c) @ body"] exI [of _ k])
      (simp_all only: length_append length_replicate base64_encode.simps(1), simp_all)
next
  case (2 a b)
  have "set (map b64_char (take 3 (split3 a b 0))) \<subseteq> set base64_chars"
    using split3_chars_in [of a b 0] set_take_subset [of 3 "split3 a b 0"] by auto
  then show ?case
    by (intro conjI exI [of _ "map b64_char (take 3 (split3 a b 0))"] exI [of _ 1])
      (simp_all add: split3_def)
next
  case (3 a)
  have "set (map b64_char (take 2 (split3 a 0 0))) \<subseteq> set base64_chars"
    using split3_chars_in [of a 0 0] set_take_subset [of 2 "split3 a 0 0"] by auto
  moreover have "replicate 2 CHR ''='' = ''==''" by (simp add: numeral_2_eq_2)
  moreover have "length (take 2 (split3 a 0 0)) = 2" by (simp add: split3_def)
  ultimately show ?case
    by (intro conjI exI [of _ "map b64_char (take 2 (split3 a 0 0))"] exI [of _ 2]) simp_all
qed simp

end
