(* ===== verification/Config.thy ===== *)
theory Config
  imports Ini Base64 Playlist
begin

text \<open>
  \<open>accordion_V10.X/config.cpp\<close>: what the player is told. The command line may override six
  settings of the configuration file; from all of them come the addresses of the playlist server,
  the names of the files, and the header with which the player introduces itself to icecast.
  A configuration that is refused is an error value; the fields of a refused one are not read.
\<close>

section \<open>The command line\<close>

text \<open>
  \<open>config_param\<close> is a map whose keys are pointers to literals. \<open>ord\<close> is the order of these
  pointers, which the compiler chooses; the map itself is a function.
\<close>

definition param_keys :: "string list" where
  "param_keys = [''host'', ''port'', ''mount'', ''streamtype'', ''channelid'', ''channeltype'']"

type_synonym config_param = "string \<Rightarrow> string"

definition no_param :: config_param where "no_param = (\<lambda>_. [])"

text \<open>One argument: the first key found in it takes what follows the next equals sign.\<close>

definition take_arg :: "string list \<Rightarrow> string \<Rightarrow> config_param \<Rightarrow> config_param" where
  "take_arg ord arg m =
     (case find (\<lambda>s. find_sub s arg \<noteq> None) ord of
        None \<Rightarrow> m
      | Some s \<Rightarrow>
          let c = drop (the (find_sub s arg)) arg in
          case find_chr CHR ''='' c of
            None \<Rightarrow> m
          | Some p \<Rightarrow> m(s := drop (Suc p) c))"

definition take_args :: "string list \<Rightarrow> string list \<Rightarrow> config_param" where
  "take_args ord argv = fold (take_arg ord) (drop 2 argv) no_param"

section \<open>The settings\<close>

datatype config_error = ParseFailed | NoChannelId | NoChannelType | NoUrl "string list"

record tconfig =
  p_channel_id :: int
  p_channel_type :: string
  p_server :: string
  p_host :: string
  p_port :: int
  p_mount :: string
  p_password :: string
  p_connattempts :: int
  p_reconnection_time :: int
  p_streamtype :: string
  p_name :: string
  p_descr :: string
  p_url :: string
  p_genre :: string
  p_is_public :: bool
  p_playlist_type :: string
  p_content_type :: string
  p_playlist :: string
  p_play_ramdom :: bool
  p_query_playlist_interval :: int
  p_url_sign_change_playlist :: string
  p_url_get_playlist :: string
  p_url_send_track_data :: string
  p_jingle_path :: string
  p_buffersize :: int
  p_update_meta_data :: bool
  p_scriptfile :: string
  p_npfile :: string
  p_logfile :: string
  p_loghistory :: string
  p_logsize :: int
  p_playfile :: string
  p_impotant_info_marker :: string
  p_loglevel :: int
  p_is_deamon :: bool
  m_header :: string

definition bytes_of :: "string \<Rightarrow> byte list" where
  "bytes_of s = map (\<lambda>c. word_of_nat (code c)) s"

definition lf :: string where "lf = [CHR 0x0A]"

definition authorization :: "string \<Rightarrow> string" where
  "authorization pw = ''Authorization: Basic '' @ base64_encode (bytes_of (''source:'' @ pw)) @ lf"

text \<open>The header up to the line that \<open>sprintf\<close> fills in.\<close>

definition header_lines :: "tconfig \<Rightarrow> string" where
  "header_lines c =
     ''SOURCE /'' @ p_mount c @ '' HTTP/1.0'' @ lf @
     ''Content-Type: '' @ p_content_type c @ lf @
     authorization (p_password c) @
     ''User-Agent: http_client/Version 1.0'' @ lf @
     ''ice-name: '' @ p_name c @ lf @
     ''ice-public: '' @ (if p_is_public c then ''1'' else ''0'') @ lf @
     ''ice-url: '' @ p_url c @ lf @
     ''ice-genre:'' @ p_genre c @ lf @
     ''ice-description:'' @ p_descr c @ lf"

definition audio_info :: string where
  "audio_info = ''ice-audio-info: ice-bitrate=%i;ice-channels=%i;ice-samplerate=%i'' @ lf @ lf"

text \<open>A setting: from the command line if it has one there, else from the file.\<close>

definition given :: "config_param \<Rightarrow> string \<Rightarrow> string \<Rightarrow> string" where
  "given m key other = (if m key = [] then other else m key)"

definition given_int :: "config_param \<Rightarrow> string \<Rightarrow> int \<Rightarrow> int" where
  "given_int m key other = (if m key = [] then c_int other else c_atoi (m key))"

definition channel_path :: "int \<Rightarrow> string \<Rightarrow> string" where
  "channel_path i t = ''/'' @ show_int i @ ''/'' @ t"

definition mount_of :: "int \<Rightarrow> string \<Rightarrow> string \<Rightarrow> string" where
  "mount_of i t mount =
     (if mount = [] then (if t = ''channel'' then CHR ''a'' else CHR ''p'') # show_int i else mount)"

definition stored_file :: "string \<Rightarrow> int \<Rightarrow> string \<Rightarrow> string" where
  "stored_file dir i mount = dir @ GetSubPath i @ ''/'' @ mount @ ''.txt''"

definition missing_urls :: "ini_map \<Rightarrow> string list" where
  "missing_urls r =
     filter (\<lambda>k. Get r ''playlist'' k [] = [])
       [''url_get_sign_change_playlist'', ''url_get_playlist'', ''url_send_track_data'']"

definition settings :: "config_param \<Rightarrow> ini_map \<Rightarrow> int \<Rightarrow> string \<Rightarrow> tconfig" where
  "settings m r i t =
     (let mount = mount_of i t (given m ''mount'' (Get r ''server'' ''mount'' []));
          streamtype = given m ''streamtype'' (Get r ''stream'' ''streamtype'' ''aac'');
          c = \<lparr>p_channel_id = i, p_channel_type = t,
               p_server = Get r ''server'' ''server'' ''icecast'',
               p_host = given m ''host'' (Get r ''server'' ''host'' ''127.0.0.1''),
               p_port = given_int m ''port'' (GetInteger r ''server'' ''port'' 8000),
               p_mount = mount,
               p_password = Get r ''server'' ''password'' ''11111'',
               p_connattempts = c_int (GetInteger r ''server'' ''connectionattempts'' 5),
               p_reconnection_time = c_int (GetInteger r ''server'' ''reconnectiontime'' 5),
               p_streamtype = streamtype,
               p_name = Get r ''stream'' ''name'' ''lost in wilderness accordion'',
               p_descr = Get r ''stream'' ''description'' '' '',
               p_url = Get r ''stream'' ''url'' ''www.101.ru'',
               p_genre = Get r ''stream'' ''genre'' '' '',
               p_is_public = GetBoolean r ''stream'' ''public'' False,
               p_playlist_type = Get r ''playlist'' ''playlisttype'' ''internal'',
               p_content_type = (if streamtype = ''aac'' then ''audio/aacp'' else ''audio/mpeg''),
               p_playlist = Get r ''playlist'' ''playlist'' ''./playlist.txt'',
               p_play_ramdom = GetBoolean r ''playlist'' ''playrandom'' False,
               p_query_playlist_interval =
                 c_int (GetInteger r ''playlist'' ''query_playlist_interval'' 7200),
               p_url_sign_change_playlist =
                 Get r ''playlist'' ''url_get_sign_change_playlist'' [] @ channel_path i t,
               p_url_get_playlist =
                 Get r ''playlist'' ''url_get_playlist'' [] @ channel_path i t @ ''/make'',
               p_url_send_track_data =
                 Get r ''playlist'' ''url_send_track_data'' [] @ channel_path i t,
               p_jingle_path = Get r ''playlist'' ''jingle_path'' [],
               p_buffersize = c_int (GetInteger r ''misc'' ''buffersize'' 3 * 1000),
               p_update_meta_data = GetBoolean r ''misc'' ''updatemetadata'' False,
               p_scriptfile = Get r ''misc'' ''playlisttype'' ''script.lua'',
               p_npfile = stored_file (Get r ''misc'' ''npfile'' ''/tmp/np/'') i mount,
               p_logfile = Get r ''misc'' ''logfile'' ''/var/log/accord'',
               p_loghistory = Get r ''misc'' ''loghistory'' ''/var/log/meta/'',
               p_logsize = c_int (GetInteger r ''misc'' ''logsize'' 10),
               p_playfile = stored_file (Get r ''misc'' ''playfile'' ''/tmp/playlist/'') i mount,
               p_impotant_info_marker = Get r ''misc'' ''impotant_info_marker'' ''$'',
               p_loglevel = GetInteger r ''misc'' ''loglevel'' 2,
               p_is_deamon = GetBoolean r ''misc'' ''deamon'' False,
               m_header = []\<rparr>
      in c\<lparr>m_header := header_lines c @ audio_info\<rparr>)"

definition ReadIni :: "config_param \<Rightarrow> string option \<Rightarrow> config_error + tconfig" where
  "ReadIni m file_text =
     (let (parse_error, r) = ini_parse file_text;
          i = given_int m ''channelid'' (GetInteger r ''channel'' ''channelid'' 0);
          t = given m ''channeltype'' (Get r ''channel'' ''channeltype'' [])
      in if parse_error \<noteq> 0 then Inl ParseFailed
         else if i = 0 then Inl NoChannelId
         else if t \<noteq> ''channel'' \<and> t \<noteq> ''personal'' then Inl NoChannelType
         else if missing_urls r \<noteq> [] then Inl (NoUrl (missing_urls r))
         else Inr (settings m r i t))"

text \<open>
  The constructors: \<open>argv\<close> as \<open>main\<close> has it, with the name of the file at position 1. Without
  it \<open>strdup\<close> follows the null pointer at the end of \<open>argv\<close> (\<open>None\<close>).
\<close>

definition tconfig_new :: "string list \<Rightarrow> files \<Rightarrow> string list \<Rightarrow> (config_error + tconfig) option" where
  "tconfig_new ord D argv =
     (if length argv < 2 then None else Some (ReadIni (take_args ord argv) (D (argv ! 1))))"

text \<open>The other constructor only looks for the log of unsuccessful starts.\<close>

definition ReadOnStartIni :: "string option \<Rightarrow> bool \<times> string option" where
  "ReadOnStartIni file_text =
     (let (parse_error, r) = ini_parse file_text;
          s = Get r ''misc'' ''log_error_on_start'' []
      in if parse_error \<noteq> 0 then (True, None) else (False, if s = [] then None else Some s))"

section \<open>What the other parts ask\<close>

definition get_metadata_header :: "tconfig \<Rightarrow> string \<Rightarrow> string" where
  "get_metadata_header c s =
     ''GET /admin/metadata?mode=updinfo&mount=/'' @ p_mount c @ ''&song='' @ urlEncode s @
     '' HTTP/1.0'' @ lf @ ''User-Agent: accordion/Version 5.0'' @ lf @
     authorization (p_password c) @ lf"

definition aac_stream :: "tconfig \<Rightarrow> bool" where
  "aac_stream c \<longleftrightarrow> p_streamtype c = ''aac''"

definition mpx_stream :: "tconfig \<Rightarrow> bool" where
  "mpx_stream c \<longleftrightarrow> p_streamtype c = ''mpeg''"

text \<open>The function ends without a value for another channel type (\<open>None\<close>).\<close>

definition get_channel_prefix :: "tconfig \<Rightarrow> char option" where
  "get_channel_prefix c =
     (if p_channel_type c = ''channel'' then Some (if p_streamtype c = ''aac'' then CHR ''a'' else CHR ''m'')
      else if p_channel_type c = ''personal''
      then Some (if p_streamtype c = ''aac'' then CHR ''p'' else CHR ''z'')
      else None)"

text \<open>The enumeration is compared as an unsigned number.\<close>

definition get_loglevel :: "tconfig \<Rightarrow> int" where
  "get_loglevel c =
     (let l = p_loglevel c mod 2 ^ 32 in if l > 2 then 2 else l)"

definition get_logsize :: "tconfig \<Rightarrow> int" where
  "get_logsize c = c_int (p_logsize c * 1024)"

text \<open>What the player sees of the configuration.\<close>

definition player_config :: "bool \<Rightarrow> tconfig \<Rightarrow> tplayer_config" where
  "player_config can_save c =
     \<lparr>c_npfile = p_npfile c, c_header = m_header c, c_update_meta_data = p_update_meta_data c,
      c_can_save = can_save\<rparr>"

section \<open>The header is printed\<close>

lemma sprintf_plain:
  "CHR ''%'' \<notin> set s \<Longrightarrow> sprintf_i (s @ t) as = map_option ((@) s) (sprintf_i t as)"
proof (induction s)
  case Nil
  show ?case by (cases "sprintf_i t as") auto
next
  case (Cons c s)
  then show ?case by (cases "sprintf_i t as") auto
qed

lemma sprintf_number:
  "sprintf_i (CHR ''%'' # CHR ''i'' # t) (a # as) = map_option ((@) (show_int a)) (sprintf_i t as)"
  by simp

lemma sprintf_audio_info:
  "sprintf_i audio_info [a, b, c] =
     Some (''ice-audio-info: ice-bitrate='' @ show_int a @ '';ice-channels='' @ show_int b @
           '';ice-samplerate='' @ show_int c @ lf @ lf)"
  by (simp add: audio_info_def lf_def)

lemma base64_no_percent: "CHR ''%'' \<notin> set (base64_encode bs)"
proof -
  obtain body k where b: "base64_encode bs = body @ replicate k CHR ''=''" "set body \<subseteq> set base64_chars"
    using base64_encode_format [of bs] by blast
  have "CHR ''%'' \<notin> set base64_chars" by code_simp
  then show ?thesis using b by auto
qed

definition plain_texts :: "tconfig \<Rightarrow> bool" where
  "plain_texts c \<longleftrightarrow>
     (\<forall>s \<in> set [p_mount c, p_name c, p_url c, p_genre c, p_descr c]. CHR ''%'' \<notin> set s)"

lemma header_lines_plain:
  assumes "plain_texts c" "p_content_type c \<in> {''audio/aacp'', ''audio/mpeg''}"
  shows "CHR ''%'' \<notin> set (header_lines c)"
  using assms base64_no_percent
  by (auto simp: plain_texts_def header_lines_def authorization_def lf_def)

lemma ReadIni_accepted:
  assumes "ReadIni m f = Inr c"
  shows "\<exists>r i t. c = settings m r i t \<and> i \<noteq> 0 \<and> t \<in> {''channel'', ''personal''} \<and>
    ini_parse f = (0, r) \<and> missing_urls r = []"
  using assms by (auto simp: ReadIni_def Let_def split: prod.splits if_splits)

lemma settings_header:
  "m_header (settings m r i t) = header_lines (settings m r i t) @ audio_info"
  by (simp add: settings_def Let_def header_lines_def)

lemma settings_fields:
  "p_mount (settings m r i t) = mount_of i t (given m ''mount'' (Get r ''server'' ''mount'' []))"
  "p_content_type (settings m r i t) =
     (if given m ''streamtype'' (Get r ''stream'' ''streamtype'' ''aac'') = ''aac''
      then ''audio/aacp'' else ''audio/mpeg'')"
  "p_password (settings m r i t) = Get r ''server'' ''password'' ''11111''"
  "p_name (settings m r i t) = Get r ''stream'' ''name'' ''lost in wilderness accordion''"
  "p_npfile (settings m r i t) = stored_file (Get r ''misc'' ''npfile'' ''/tmp/np/'') i (p_mount (settings m r i t))"
  by (simp_all add: settings_def Let_def)

lemma settings_content: "p_content_type (settings m r i t) \<in> {''audio/aacp'', ''audio/mpeg''}"
  by (simp add: settings_def Let_def)

section \<open>The files have a directory\<close>

lemma stored_file_dir: "\<exists>a. pathname (stored_file d i m) = Some a \<and> a \<noteq> []"
proof -
  let ?s = "stored_file d i m"
  have "CHR ''/'' \<in> set ?s" by (simp add: stored_file_def)
  then obtain p where p: "find_last CHR ''/'' ?s = Some p"
    using find_last_None [of "CHR ''/''" ?s] by (cases "find_last CHR ''/'' ?s") auto
  have s: "?s \<noteq> []" by (simp add: stored_file_def)
  have t: "rev (dropWhile (\<lambda>c. c = CHR ''/'') (rev ?s)) = ?s" by (simp add: stored_file_def)
  have "pathname ?s = Some (take (p + 1) ?s)"
    unfolding pathname_def Let_def t using s p by simp
  then show ?thesis using s by auto
qed

lemma player_config_dir:
  assumes "ReadIni m f = Inr c"
  shows "\<exists>a. pathname (c_npfile (player_config b c)) = Some a \<and> a \<noteq> []"
proof -
  obtain r i t where "c = settings m r i t" using ReadIni_accepted [OF assms] by blast
  then show ?thesis
    using stored_file_dir by (simp add: player_config_def settings_fields)
qed

lemma header_text_accepted:
  assumes "ReadIni m f = Inr c" "plain_texts c"
  shows "header_text (player_config b c) fi =
    Some (header_lines c @ ''ice-audio-info: ice-bitrate='' @ show_int \<lfloor>fi_bitrate fi\<rfloor> @
      '';ice-channels='' @ show_int (fi_channel_configuration fi) @
      '';ice-samplerate='' @ show_int (fi_simple_frequency fi) @ lf @ lf)"
proof -
  obtain r i t where c: "c = settings m r i t" using ReadIni_accepted [OF assms(1)] by blast
  have "CHR ''%'' \<notin> set (header_lines c)"
    using header_lines_plain [OF assms(2)] settings_content c by simp
  then show ?thesis
    using settings_header [of m r i t] c
    by (simp add: header_text_def player_config_def sprintf_plain sprintf_audio_info del: sprintf_i.simps)
qed

section \<open>Arguments are taken\<close>

lemma find_only: "k \<in> set xs \<Longrightarrow> \<forall>x \<in> set xs. P x \<longleftrightarrow> x = k \<Longrightarrow> find P xs = Some k"
  by (induction xs) auto

lemma param_key_plain: "k \<in> set param_keys \<Longrightarrow> CHR ''='' \<notin> set k"
  by (auto simp: param_keys_def)

definition own_key :: "string \<Rightarrow> string \<Rightarrow> bool" where
  "own_key k v \<longleftrightarrow> k \<in> set param_keys \<and>
     (\<forall>k' \<in> set param_keys. k' \<noteq> k \<longrightarrow> find_sub k' (k @ ''='' @ v) = None)"

lemma take_arg_own:
  assumes "set ord = set param_keys" "own_key k v"
  shows "take_arg ord (k @ ''='' @ v) m = m(k := v)"
proof -
  have k: "k \<in> set param_keys" using assms(2) by (simp add: own_key_def)
  have i: "find_sub k (k @ ''='' @ v) = Some 0" by (rule find_sub_prefix)
  have "find (\<lambda>s. find_sub s (k @ ''='' @ v) \<noteq> None) ord = Some k"
    using assms k i by (intro find_only) (auto simp: own_key_def)
  moreover have "find_chr CHR ''='' (k @ ''='' @ v) = Some (length k)"
    using find_chr_append [OF param_key_plain [OF k], of v] by simp
  ultimately show ?thesis using i by (simp add: take_arg_def)
qed

definition param_of :: "(string \<times> string) list \<Rightarrow> config_param" where
  "param_of kvs = (\<lambda>k. case map_of kvs k of None \<Rightarrow> [] | Some v \<Rightarrow> v)"

lemma fold_take_own:
  assumes "set ord = set param_keys" "\<forall>(k, v) \<in> set kvs. own_key k v"
  shows "fold (take_arg ord) (map (\<lambda>(k, v). k @ ''='' @ v) kvs) m =
    (\<lambda>k. case map_of (rev kvs) k of None \<Rightarrow> m k | Some v \<Rightarrow> v)"
  using assms(2)
proof (induction kvs arbitrary: m)
  case (Cons kv kvs)
  obtain k v where kv: "kv = (k, v)" by fastforce
  have "take_arg ord (k @ ''='' @ v) m = m(k := v)"
    using Cons.prems kv by (intro take_arg_own [OF assms(1)]) auto
  then show ?case using Cons kv by (auto simp: fun_eq_iff map_add_def split: option.splits)
qed simp

section \<open>An example\<close>

definition demo_ini :: string where
  "demo_ini = ''[channel]'' @ lf @ ''channelid=236'' @ lf @ ''channeltype=channel'' @ lf @
     ''[playlist]'' @ lf @ ''url_get_sign_change_playlist=s'' @ lf @ ''url_get_playlist=g'' @ lf @
     ''url_send_track_data=t'' @ lf"

definition demo_settings :: ini_map where
  "demo_settings =
     [(''channel=channelid'', ''236''), (''channel=channeltype'', ''channel''),
      (''playlist=url_get_playlist'', ''g''), (''playlist=url_get_sign_change_playlist'', ''s''),
      (''playlist=url_send_track_data'', ''t'')]"

lemma demo_parsed: "ini_parse (Some demo_ini) = (0, demo_settings)" by code_simp

lemma demo_ini_accepted:
  "ReadIni no_param (Some demo_ini) = Inr (settings no_param demo_settings 236 ''channel'')"
  "ReadIni (no_param(''channeltype'' := ''personal'')) (Some demo_ini) =
     Inr (settings (no_param(''channeltype'' := ''personal'')) demo_settings 236 ''personal'')"
proof -
  have a: "given_int no_param ''channelid'' (GetInteger demo_settings ''channel'' ''channelid'' 0) = 236"
    "given no_param ''channeltype'' (Get demo_settings ''channel'' ''channeltype'' []) = ''channel''"
    "missing_urls demo_settings = []"
    by code_simp+
  have b: "given_int (no_param(''channeltype'' := ''personal'')) ''channelid'' x = given_int no_param ''channelid'' x"
    "given (no_param(''channeltype'' := ''personal'')) ''channeltype'' y = ''personal''" for x y
    by (simp_all add: given_int_def given_def no_param_def)
  show "ReadIni no_param (Some demo_ini) = Inr (settings no_param demo_settings 236 ''channel'')"
    using a by (simp add: ReadIni_def demo_parsed Let_def)
  show "ReadIni (no_param(''channeltype'' := ''personal'')) (Some demo_ini) =
     Inr (settings (no_param(''channeltype'' := ''personal'')) demo_settings 236 ''personal'')"
    using a b by (simp add: ReadIni_def demo_parsed Let_def)
qed

lemma demo_ini_plain: "plain_texts (settings no_param demo_settings 236 ''channel'')"
proof -
  have "list_all (\<lambda>s. CHR ''%'' \<notin> set s)
      [mount_of 236 ''channel'' (given no_param ''mount'' (Get demo_settings ''server'' ''mount'' [])),
       Get demo_settings ''stream'' ''name'' ''lost in wilderness accordion'',
       Get demo_settings ''stream'' ''url'' ''www.101.ru'', Get demo_settings ''stream'' ''genre'' '' '',
       Get demo_settings ''stream'' ''description'' '' '']"
    by code_simp
  then show ?thesis by (simp add: plain_texts_def settings_def Let_def)
qed

section \<open>Properties\<close>

text \<open>
  An accepted configuration without per cent signs in its texts gives a header that the player
  can always print: the lines of the configuration, then the line with the bit rate, the channels
  and the sample rate of the file.
\<close>

theorem config_header_printed:
  assumes "ReadIni m f = Inr c" "plain_texts c"
  shows "header_text (player_config b c) fi =
    Some (header_lines c @ ''ice-audio-info: ice-bitrate='' @ show_int \<lfloor>fi_bitrate fi\<rfloor> @
      '';ice-channels='' @ show_int (fi_channel_configuration fi) @
      '';ice-samplerate='' @ show_int (fi_simple_frequency fi) @ lf @ lf)"
  using assms by (rule header_text_accepted)

theorem config_header_printed_witness:
  "\<exists>h c. ReadIni no_param (Some demo_ini) = Inr c \<and>
    header_text (player_config True c)
      \<lparr>fi_spf = 0, fi_simple_frequency = 44100, fi_frames = 0, fi_bitrate = 96,
        fi_channel_configuration = 2, fi_frames_to_read = 0, fi_play_time = 0,
        fi_icecast_sample_rate = 0\<rparr> = Some h"
  using config_header_printed [OF demo_ini_accepted(1) demo_ini_plain] demo_ini_accepted(1) by blast

text \<open>
  A per cent sign in a text of the configuration that is not doubled is taken for a conversion:
  the header is undefined and the step of the player that sends it has no result.
\<close>

theorem percent_breaks_header:
  assumes "m_header c = s @ CHR ''%'' # d # u" "CHR ''%'' \<notin> set s" "d \<noteq> CHR ''%''" "d \<noteq> CHR ''i''"
    and "ev_header p"
  shows "header_step (player_config b c) e p = None"
proof -
  have "sprintf_i (CHR ''%'' # d # u) as = None" for as using assms(3,4) by simp
  then have "header_text (player_config b c) (info p) = None"
    using sprintf_plain [OF assms(2)] assms(1) by (simp add: header_text_def player_config_def)
  then show ?thesis using assms(5) by (simp add: header_step_def)
qed

theorem percent_breaks_header_witness:
  "\<exists>c. ReadIni no_param (Some (demo_ini @ ''[stream]'' @ lf @ ''name=100% hits'' @ lf)) = Inr c \<and>
    header_step (player_config True c)
      \<lparr>n_fd = 3, n_resolved = True, n_con = (\<lambda>_. Connected), n_head = [Sent 1000],
        n_answer = Got ''200'', n_body = []\<rparr>
      ((TPlaylist_new (tclient_new 80 3 1 5) () demo_par (\<lambda>_. None))\<lparr>ev_header := True\<rparr>) = None"
proof -
  let ?r = "demo_settings @ [(''stream=name'', ''100% hits'')]"
  let ?c = "settings no_param ?r 236 ''channel''"
  have r: "ini_parse (Some (demo_ini @ ''[stream]'' @ lf @ ''name=100% hits'' @ lf)) = (0, ?r)"
    by code_simp
  have a: "given_int no_param ''channelid'' (GetInteger ?r ''channel'' ''channelid'' 0) = 236"
    "given no_param ''channeltype'' (Get ?r ''channel'' ''channeltype'' []) = ''channel''"
    "missing_urls ?r = []"
    by code_simp+
  have c: "ReadIni no_param (Some (demo_ini @ ''[stream]'' @ lf @ ''name=100% hits'' @ lf)) = Inr ?c"
    unfolding ReadIni_def r Let_def prod.case a by simp
  let ?s = "''SOURCE /a236 HTTP/1.0'' @ lf @ ''Content-Type: audio/aacp'' @ lf @ authorization ''11111'' @
    ''User-Agent: http_client/Version 1.0'' @ lf @ ''ice-name: 100''"
  have g: "p_mount ?c = ''a236''" "p_content_type ?c = ''audio/aacp''" "p_password ?c = ''11111''"
    "p_name ?c = ''100% hits''"
    unfolding settings_fields by code_simp+
  have "\<exists>u. m_header ?c = ?s @ CHR ''%'' # CHR '' '' # u"
    unfolding settings_header header_lines_def g by simp
  then obtain u where u: "m_header ?c = ?s @ CHR ''%'' # CHR '' '' # u" ..
  have n: "CHR ''%'' \<notin> set ?s"
    using base64_no_percent by (simp add: authorization_def lf_def)
  show ?thesis
    by (intro exI [of _ ?c] conjI; (rule c)?; rule percent_breaks_header [OF u n]) simp_all
qed

text \<open>
  Arguments \<open>key=value\<close> in which no other key occurs are all taken, in whatever order the
  compiler has put the keys.
\<close>

theorem args_taken:
  assumes "set ord = set param_keys" "\<forall>(k, v) \<in> set kvs. own_key k v" "distinct (map fst kvs)"
  shows "take_args ord (prog # cfg # map (\<lambda>(k, v). k @ ''='' @ v) kvs) = param_of kvs"
proof -
  have "map_of (rev kvs) = map_of kvs" using assms(3) by (intro map_of_inject_set [THEN iffD2]) (auto simp: rev_map [symmetric])
  then show ?thesis
    using fold_take_own [OF assms(1,2), of no_param]
    by (simp add: take_args_def param_of_def no_param_def cong: option.case_cong)
qed

theorem args_taken_witness:
  "take_args (rev param_keys) [''accordion'', ''a.ini'', ''host=radio'', ''channelid=236''] =
     param_of [(''host'', ''radio''), (''channelid'', ''236'')]"
  using args_taken [of "rev param_keys" "[(''host'', ''radio''), (''channelid'', ''236'')]"]
  by (simp add: own_key_def param_keys_def insert_commute)

text \<open>
  But whatever the order is, some argument is lost: the key is looked for in the whole argument,
  so a value that contains the name of the first key hides its own.
\<close>

theorem some_argument_lost:
  assumes "set ord = set param_keys"
  shows "\<exists>k \<in> set param_keys. \<exists>v. v \<noteq> [] \<and>
    take_args ord [prog, cfg, k @ ''='' @ v] = no_param"
proof -
  obtain h rest where o: "ord = h # rest" using assms by (cases ord) (auto simp: param_keys_def)
  have h: "h \<in> set param_keys" using o assms by auto
  define k where "k = (if h = ''host'' then ''port'' else ''host'')"
  have "k \<in> set param_keys" by (simp add: k_def param_keys_def)
  moreover have "find_sub h (k @ ''='' @ h) = Some (Suc (length k)) \<and> CHR ''='' \<notin> set h \<and> h \<noteq> []"
    using h by (auto simp: param_keys_def k_def)
  ultimately show ?thesis
    using o by (intro bexI [of _ k] exI [of _ h])
      (auto simp: take_args_def take_arg_def find_chr_None [THEN iffD2])
qed

theorem some_argument_lost_witness:
  "\<exists>k \<in> set param_keys. \<exists>v. v \<noteq> [] \<and>
    take_args param_keys [''accordion'', ''a.ini'', k @ ''='' @ v] = no_param"
  by (rule some_argument_lost) simp

text \<open>
  The password arrives: what stands after \<open>Basic\<close> in the header decodes to \<open>source:\<close> and the
  password of the configuration.
\<close>

theorem authorization_decodes:
  "\<exists>t. authorization pw = ''Authorization: Basic '' @ t @ lf \<and>
    base64_decode t = bytes_of (''source:'' @ pw)"
  unfolding authorization_def using base64_decode_encode by blast

text \<open>
  Channels without a mount of their own get different ones, so that no channel takes the place of
  another on the icecast server.
\<close>

theorem default_mounts_differ:
  assumes "ReadIni m f = Inr c" "ReadIni m' f' = Inr c'"
    and "p_mount c = mount_of (p_channel_id c) (p_channel_type c) []"
    and "p_mount c' = mount_of (p_channel_id c') (p_channel_type c') []"
    and "(p_channel_id c, p_channel_type c) \<noteq> (p_channel_id c', p_channel_type c')"
  shows "p_mount c \<noteq> p_mount c'"
proof -
  obtain r i t where c: "c = settings m r i t" "t \<in> {''channel'', ''personal''}"
    using ReadIni_accepted [OF assms(1)] by blast
  obtain r' i' t' where c': "c' = settings m' r' i' t'" "t' \<in> {''channel'', ''personal''}"
    using ReadIni_accepted [OF assms(2)] by blast
  have "p_channel_type c = t" "p_channel_type c' = t'" using c c' by (simp_all add: settings_def Let_def)
  then show ?thesis
    using assms(3-5) c(2) c'(2) show_int_inject by (auto simp: mount_of_def split: if_splits)
qed

theorem default_mounts_differ_witness:
  "p_mount (settings no_param demo_settings 236 ''channel'') \<noteq>
   p_mount (settings (no_param(''channeltype'' := ''personal'')) demo_settings 236 ''personal'')"
proof (rule default_mounts_differ [OF demo_ini_accepted])
  have "Get demo_settings ''server'' ''mount'' [] = []" by code_simp
  then show "p_mount (settings no_param demo_settings 236 ''channel'') =
      mount_of (p_channel_id (settings no_param demo_settings 236 ''channel''))
        (p_channel_type (settings no_param demo_settings 236 ''channel'')) []"
    "p_mount (settings (no_param(''channeltype'' := ''personal'')) demo_settings 236 ''personal'') =
      mount_of (p_channel_id (settings (no_param(''channeltype'' := ''personal'')) demo_settings 236 ''personal''))
        (p_channel_type (settings (no_param(''channeltype'' := ''personal'')) demo_settings 236 ''personal'')) []"
    by (simp_all add: settings_def Let_def given_def no_param_def)
qed (simp add: settings_def Let_def)

end
