(* ===== verification/Url.thy ===== *)
theory Url
  imports Prelude
begin

text \<open>
  \<open>accordion_V10.X/url.h\<close> and \<open>url.cpp\<close>: the parser of the addresses of the play list and
  metadata scripts, and the request made from them. Iterators are positions in the text, \<open>end()\<close>
  is its length. An address whose \<open>?\<close> comes before the parts the parser cuts in front of it makes
  it build a string from a range that runs backwards (an exception) or search one (undefined);
  these are the values of \<open>url_error\<close>.
\<close>

section \<open>The parser\<close>

definition DEFAULT_PORT :: int where "DEFAULT_PORT = 80"
definition MAX_URL :: nat where "MAX_URL = 2048"

record url_data =
  QueryString :: string
  Path :: string
  Protocol :: string
  Host :: string
  Port :: int

record turl =
  url_data :: url_data
  error_url :: bool
  url_string :: "string option"

datatype url_error = BackwardSearch | LengthError

definition turl_Init :: turl where
  "turl_Init = \<lparr>url_data = \<lparr>QueryString = [], Path = [], Protocol = [], Host = [],
     Port = DEFAULT_PORT\<rparr>, error_url = False, url_string = None\<rparr>"

definition find_from :: "char \<Rightarrow> nat \<Rightarrow> nat \<Rightarrow> string \<Rightarrow> nat" where
  "find_from c a b s =
     (case find_chr c (drop a (take b s)) of Some i \<Rightarrow> a + i | None \<Rightarrow> b)"

definition cut :: "nat \<Rightarrow> nat \<Rightarrow> string \<Rightarrow> string" where
  "cut a b s = drop a (take b s)"

definition turl_Parse :: "turl \<Rightarrow> string \<Rightarrow> url_error + turl" where
  "turl_Parse t uri =
     (if uri = [] then Inr (t\<lparr>error_url := True\<rparr>)
      else
        let uriEnd = length uri;
            queryStart = find_from CHR ''?'' 0 uriEnd uri;
            colon = find_from CHR '':'' 0 uriEnd uri;
            has_prot = (colon \<noteq> uriEnd \<and> length (drop colon uri) > 3 \<and>
                        take 3 (drop colon uri) = ''://'');
            protocolEnd = (if has_prot then colon + 3 else 0);
            pathStart = find_from CHR ''/'' protocolEnd uriEnd uri;
            limit = (if pathStart \<noteq> uriEnd then pathStart else queryStart)
        in if limit < protocolEnd then Inl BackwardSearch
           else
             let hostEnd = find_from CHR '':'' protocolEnd limit uri;
                 has_port = (hostEnd \<noteq> uriEnd \<and> uri ! hostEnd = CHR '':'');
                 port = c_atoi (cut (hostEnd + 1) limit uri)
             in if pathStart \<noteq> uriEnd \<and> queryStart < pathStart then Inl LengthError
                else
                  let d = url_data t
                  in Inr (t\<lparr>error_url := False,
                       url_data := d
                         \<lparr>Protocol := (if has_prot then take colon uri else Protocol d),
                          Host := cut protocolEnd hostEnd uri,
                          Port := (if has_port then (if port = 0 then DEFAULT_PORT else port)
                                   else Port d),
                          Path := (if pathStart \<noteq> uriEnd then cut pathStart queryStart uri
                                   else Path d),
                          QueryString := (if queryStart \<noteq> uriEnd then drop queryStart uri
                                          else QueryString d)\<rparr>\<rparr>))"

text \<open>\<open>turl(char *)\<close> and \<open>set_url_string\<close>: both start from \<open>Init\<close>.\<close>

definition turl_new :: "string option \<Rightarrow> url_error + turl" where
  "turl_new uri =
     (case uri of
        Some (c # cs) \<Rightarrow> turl_Parse (turl_Init\<lparr>url_string := Some (c # cs)\<rparr>) (c # cs)
      | _ \<Rightarrow> Inr (turl_Init\<lparr>error_url := False\<rparr>))"

definition set_url_string :: "turl \<Rightarrow> string option \<Rightarrow> url_error + turl" where
  "set_url_string t str = turl_new str"

definition crlf :: string where "crlf = [CHR 0x0D, CHR 0x0A]"

text \<open>\<open>get_query\<close>: \<open>sprintf\<close> into a buffer of \<open>MAX_URL + 1\<close> bytes; \<open>None\<close> when it overruns.\<close>

definition get_query :: "turl \<Rightarrow> string option" where
  "get_query t =
     (let q = ''GET '' @ Path (url_data t) @ '' HTTP/1.1'' @ [CHR 0x0A] @ ''Host: '' @
              Host (url_data t) @ crlf @ ''User_Agent: radio-accordion'' @ crlf @
              ''Accept-Language: en-us'' @ crlf @ crlf
      in if length q \<le> MAX_URL then Some q else None)"

definition get_query_size :: "turl \<Rightarrow> nat" where
  "get_query_size t = (case get_query t of Some q \<Rightarrow> length q | None \<Rightarrow> 0)"

section \<open>Cutting\<close>

lemma find_from_hit:
  "take b s = u @ v @ c # w \<Longrightarrow> length u = a \<Longrightarrow> c \<notin> set v \<Longrightarrow> find_from c a b s = a + length v"
  by (simp add: find_from_def find_chr_append)

lemma find_from_miss:
  "take b s = u @ v \<Longrightarrow> length u = a \<Longrightarrow> c \<notin> set v \<Longrightarrow> find_from c a b s = b"
  by (simp add: find_from_def find_chr_None [THEN iffD2])

lemma cut_mid:
  "s = u @ v @ w \<Longrightarrow> a = length u \<Longrightarrow> b = length u + length v \<Longrightarrow> cut a b s = v"
  by (simp add: cut_def)

section \<open>Printing an address and parsing it\<close>

text \<open>
  The addresses the configuration is meant to hold: a protocol, a host, a port, a path and
  perhaps a query, each without the characters that end it.
\<close>

definition url_ok :: "url_data \<Rightarrow> bool" where
  "url_ok d \<longleftrightarrow>
     Protocol d \<noteq> [] \<and> set (Protocol d) \<inter> set '':/?'' = {} \<and> set (Host d) \<inter> set '':/?'' = {} \<and>
     0 < Port d \<and> Port d < 65536 \<and>
     (\<exists>p. Path d = CHR ''/'' # p) \<and> CHR ''?'' \<notin> set (Path d) \<and>
     (QueryString d = [] \<or> (\<exists>q. QueryString d = CHR ''?'' # q))"

definition print_url :: "url_data \<Rightarrow> string" where
  "print_url d = Protocol d @ ''://'' @ Host d @ '':'' @ show_int (Port d) @ Path d @ QueryString d"

definition parse_url :: "string \<Rightarrow> url_data" where
  "parse_url s = (case turl_new (Some s) of Inr t \<Rightarrow> url_data t | Inl _ \<Rightarrow> url_data turl_Init)"

lemma show_int_chars: "0 \<le> i \<Longrightarrow> c \<in> set (show_int i) \<Longrightarrow> c_isdigit c"
  using show_nat_digits [of "nat i"] by (auto simp: show_int_def)

lemma digits_not_special: "c_isdigit c \<Longrightarrow> c \<noteq> CHR ''?'' \<and> c \<noteq> CHR ''/'' \<and> c \<noteq> CHR '':''"
  by (auto simp: c_isdigit_def code_def)

lemma turl_Parse_print:
  assumes ok: "url_ok d" and s: "s = print_url d"
    and t: "url_data t = url_data turl_Init"
  shows "turl_Parse t s = Inr (t\<lparr>error_url := False, url_data := d\<rparr>)"
proof -
  define P H N A Q where "P = Protocol d" and "H = Host d" and "N = show_int (Port d)"
    and "A = Path d" and "Q = QueryString d"
  note defs = P_def H_def N_def A_def Q_def
  have N: "CHR ''?'' \<notin> set N" "CHR ''/'' \<notin> set N" "CHR '':'' \<notin> set N"
    using ok show_int_chars [of "Port d"] digits_not_special
    by (force simp: N_def url_ok_def)+
  have PH: "CHR '':'' \<notin> set P" "CHR ''?'' \<notin> set P" "CHR '':'' \<notin> set H" "CHR ''/'' \<notin> set H"
    "CHR ''?'' \<notin> set H" "CHR ''?'' \<notin> set A"
    using ok by (auto simp: url_ok_def defs)
  obtain p where A: "A = CHR ''/'' # p" using ok by (auto simp: url_ok_def A_def)
  have s': "s = P @ ''://'' @ H @ '':'' @ N @ A @ Q" by (simp add: s print_url_def defs)
  define pe where "pe = length P + 3"
  define he where "he = pe + length H"
  define ps where "ps = he + 1 + length N"
  define qs where "qs = ps + length A"
  have len: "length s = qs + length Q" by (simp add: s' qs_def ps_def he_def pe_def)
  have "s \<noteq> []" using s' by simp
  have q: "find_from CHR ''?'' 0 (length s) s = qs"
  proof (cases "Q = []")
    case True
    have "find_from CHR ''?'' 0 (length s) s = length s"
      by (rule find_from_miss [of _ _ "[]" s]) (use PH N True s' in auto)
    then show ?thesis using len True by simp
  next
    case False
    then obtain q where "Q = CHR ''?'' # q" using ok by (auto simp: url_ok_def Q_def)
    then have "find_from CHR ''?'' 0 (length s) s = 0 + length (P @ ''://'' @ H @ '':'' @ N @ A)"
      by (intro find_from_hit [of _ _ "[]" _ _ q]) (use PH N s' in auto)
    then show ?thesis by (simp add: qs_def ps_def he_def pe_def)
  qed
  have c: "find_from CHR '':'' 0 (length s) s = length P"
    using find_from_hit [of "length s" s "[]" P "CHR '':''" "''//'' @ H @ '':'' @ N @ A @ Q" 0] PH s'
    by simp
  have "drop (length P) s = ''://'' @ H @ '':'' @ N @ A @ Q" by (simp add: s')
  then have prot: "length P \<noteq> length s \<and> length (drop (length P) s) > 3 \<and>
      take 3 (drop (length P) s) = ''://''" and tP: "take (length P) s = P"
    by (simp_all add: s')
  have path: "find_from CHR ''/'' pe (length s) s = ps"
    using find_from_hit [of "length s" s "P @ ''://''" "H @ '':'' @ N" "CHR ''/''" "p @ Q" pe] PH N A s'
    by (simp add: ps_def he_def pe_def)
  have "ps \<noteq> length s" using len A by (simp add: qs_def)
  have "s = ((P @ ''://'') @ H @ CHR '':'' # N) @ A @ Q"
    "length ((P @ ''://'') @ H @ CHR '':'' # N) = ps" by (simp_all add: s' ps_def he_def pe_def)
  then have "take ps s = (P @ ''://'') @ H @ CHR '':'' # N" by (metis append_eq_conv_conj)
  then have host: "find_from CHR '':'' pe ps s = he"
    using find_from_hit [of ps s "P @ ''://''" H "CHR '':''" N pe] PH by (simp add: he_def pe_def)
  have "s = (P @ ''://'' @ H) @ CHR '':'' # (N @ A @ Q)" by (simp add: s')
  then have colon: "s ! he = CHR '':''" by (simp add: he_def pe_def nth_append)
  have "cut (he + 1) ps s = N"
    by (rule cut_mid [of _ "P @ ''://'' @ H @ '':''" _ "A @ Q"])
      (simp_all add: s' ps_def he_def pe_def)
  moreover have "c_atoi N = Port d"
    using c_atoi_show_int [of "Port d" "[]"] ok by (simp add: N_def url_ok_def int_range_def)
  ultimately have port: "c_atoi (cut (Suc he) ps s) = Port d" by simp
  have cH: "cut pe he s = H"
    by (rule cut_mid [of _ "P @ ''://''" _ "'':'' @ N @ A @ Q"]) (simp_all add: s' he_def pe_def)
  have cA: "cut ps qs s = A"
    by (rule cut_mid [of _ "P @ ''://'' @ H @ '':'' @ N" _ Q])
      (simp_all add: s' qs_def ps_def he_def pe_def)
  have "s = (P @ ''://'' @ H @ '':'' @ N @ A) @ Q" "length (P @ ''://'' @ H @ '':'' @ N @ A) = qs"
    by (simp_all add: s' qs_def ps_def he_def pe_def)
  then have dQ: "drop qs s = Q" by (metis append_eq_conv_conj)
  have "he < length s" "pe \<le> ps" "ps \<le> qs" by (simp_all add: len qs_def ps_def he_def)
  moreover have "Port d \<noteq> 0" using ok by (simp add: url_ok_def)
  moreover have "qs = length s \<longleftrightarrow> Q = []" using len by simp
  moreover have "pe = length P + 3" by (simp add: pe_def)
  ultimately show ?thesis
    using \<open>s \<noteq> []\<close> q c prot tP path \<open>ps \<noteq> length s\<close> host colon port cH cA dQ t
    unfolding turl_Parse_def Let_def
    by (cases d) (auto simp: turl_Init_def defs simp flip: pe_def)
qed

interpretation address: codec print_url parse_url url_ok
proof unfold_locales
  fix d assume ok: "url_ok d"
  then have "print_url d \<noteq> []" by (simp add: print_url_def)
  then obtain c cs where "print_url d = c # cs" by (metis list.exhaust)
  then show "parse_url (print_url d) = d"
    using turl_Parse_print [OF ok, of "c # cs" "turl_Init\<lparr>url_string := Some (c # cs)\<rparr>"]
    by (simp add: parse_url_def turl_new_def turl_Init_def)
qed

section \<open>Properties\<close>

text \<open>
  The parser recovers every part of an address: protocol, host, port, path and query of a
  printed address are what \<open>turl\<close> holds after parsing it.
\<close>

theorem url_parse_print:
  assumes "url_ok d"
  shows "parse_url (print_url d) = d"
  using address.dec_enc [OF assms] .

theorem url_parse_print_witness:
  "parse_url (print_url \<lparr>QueryString = ''?id=7'', Path = ''/pl/np.php'', Protocol = ''http'',
     Host = ''media.local'', Port = 8080\<rparr>) =
   \<lparr>QueryString = ''?id=7'', Path = ''/pl/np.php'', Protocol = ''http'',
     Host = ''media.local'', Port = 8080\<rparr>"
  by (rule url_parse_print) (simp add: url_ok_def)

text \<open>
  The request made from a parsed address leaves its query out: two addresses that differ
  only in the text after the question mark give the same request.
\<close>

theorem request_drops_query:
  "get_query (t\<lparr>url_data := (url_data t)\<lparr>QueryString := q\<rparr>\<rparr>) = get_query t"
  by (simp add: get_query_def)

end
