(* ===== verification/Handlers.thy ===== *)
theory Handlers
  imports Config Url
begin

text \<open>
  \<open>accordion_V10.X/handler_proc.cpp\<close>, and \<open>query_url\<close> and \<open>transmit\<close> of \<open>url.cpp\<close>: the threads
  that ask the playlist server for a new list, or whether there is one, and that tell icecast the
  title of a track. What the network does in one query is a \<open>net\<close>. \<open>None\<close> is a crash or a
  script of the network that is too short. Log output is left out.
\<close>

section \<open>Queries\<close>

record net =
  q_fd :: int
  q_resolved :: bool
  q_con :: "nat \<Rightarrow> connect_result"
  q_sends :: "send_result list"
  q_recvs :: "recv_result list"

text \<open>\<open>query_url\<close>: the answer, and what went out. An address that cannot be parsed throws.\<close>

definition query_url :: "net \<Rightarrow> string \<Rightarrow> (string \<times> string) option" where
  "query_url e u =
     (case turl_new (Some u) of
        Inl _ \<Rightarrow> None
      | Inr url \<Rightarrow>
          let (ok, t, _) = net_connect (q_fd e) (q_resolved e) (q_con e)
                (tclient_new (Port (url_data url)) 3 SOCKET_NONBLOCK 3)
          in if \<not> ok then Some ([], [])
             else
               case get_query url of
                 None \<Rightarrow> None
               | Some aa \<Rightarrow>
                   case net_send (q_sends e) aa [] t of
                     None \<Rightarrow> None
                   | Some (False, _, w, _) \<Rightarrow> Some ([], w)
                   | Some (True, t', w, _) \<Rightarrow>
                       map_option (\<lambda>(s, _). (s, w)) (net_recv_string (q_recvs e) t'))"

definition transmit :: "net \<Rightarrow> int \<Rightarrow> int \<Rightarrow> string \<Rightarrow> string option" where
  "transmit e m_port m_count m_data =
     (let (ok, t, _) = net_connect (q_fd e) (q_resolved e) (q_con e)
            (tclient_new m_port m_count SOCKET_NONBLOCK 3)
      in if \<not> ok then Some []
         else map_option (\<lambda>(_, _, w, _). w) (net_send (q_sends e) m_data [] t))"

section \<open>The new list\<close>

text \<open>The loop \<open>while (++cnt < 3)\<close>: the answer and the number of queries made.\<close>

fun query_loop :: "nat \<Rightarrow> net list \<Rightarrow> string \<Rightarrow> (string \<times> nat) option" where
  "query_loop cnt [] u = (if cnt + 1 < 3 then None else Some ([], cnt))"
| "query_loop cnt (e # es) u =
     (if cnt + 1 < 3
      then case query_url e u of
             None \<Rightarrow> None
           | Some (s, _) \<Rightarrow> if s \<noteq> [] then Some (s, cnt + 1) else query_loop (cnt + 1) es u
      else Some ([], cnt))"

definition c_str :: "string \<Rightarrow> string" where
  "c_str s = takeWhile (\<lambda>c. c \<noteq> CHR 0x00) s"

definition handler_playlist_thread ::
  "net list \<Rightarrow> bool \<Rightarrow> string \<Rightarrow> files \<times> tparameters \<Rightarrow> (files \<times> tparameters) option" where
  "handler_playlist_thread es can_write arg st =
     (case query_loop 0 es arg of
        None \<Rightarrow> None
      | Some (m, _) \<Rightarrow>
          if m = [] then Some st else set_change_playlist can_write (c_str m) (fst st) (snd st))"

section \<open>The sign of a new list\<close>

text \<open>\<open>get_content_pos\<close>: the value of \<open>Content-Length\<close> as a \<open>size_t\<close>; \<open>None\<close> is \<open>npos\<close>.\<close>

definition get_content_pos :: "string \<Rightarrow> int option" where
  "get_content_pos m =
     (case find_sub ''Content-Length'' m of
        None \<Rightarrow> None
      | Some i \<Rightarrow>
          case find_chr CHR '':'' (drop (i + 1) m) of
            None \<Rightarrow> None
          | Some j \<Rightarrow>
              let found = c_atoi (c_str (drop (i + 1 + j + 1) m))
              in if found = 0 then None else Some (found mod 2 ^ 64))"

text \<open>\<open>std::string::find\<close> from a position of type \<open>size_t\<close>.\<close>

definition find_at :: "string \<Rightarrow> string \<Rightarrow> int \<Rightarrow> bool" where
  "find_at p s k \<longleftrightarrow> k \<le> int (length s) \<and> find_sub p (drop (nat k) s) \<noteq> None"

definition sign_of_change :: "string \<Rightarrow> bool" where
  "sign_of_change m =
     (case get_content_pos m of
        None \<Rightarrow> False
      | Some found \<Rightarrow> find_at ''true'' m ((int (length m) - found) mod 2 ^ 64))"

definition handler_playlist_sign ::
  "net \<Rightarrow> net list \<Rightarrow> bool \<Rightarrow> tconfig \<Rightarrow> files \<times> tparameters \<Rightarrow> (files \<times> tparameters) option" where
  "handler_playlist_sign e es can_write c st =
     (case query_url e (p_url_sign_change_playlist c) of
        None \<Rightarrow> None
      | Some (m, _) \<Rightarrow>
          if sign_of_change m
          then handler_playlist_thread es can_write (p_url_get_playlist c) st else Some st)"

section \<open>The title of a track\<close>

text \<open>
  The loop that looks for the last slash but one: \<open>from\<close> is \<open>aC\<close>, \<open>f\<close> the position of the last
  slash, which stands in front of \<open>basename\<close>.
\<close>

function slash_loop :: "string \<Rightarrow> int \<Rightarrow> nat \<Rightarrow> nat" where
  "slash_loop m f from =
     (if from < length m then
        case find_chr CHR ''/'' (drop from m) of
          None \<Rightarrow> from
        | Some i \<Rightarrow> if int (from + i) \<noteq> f then slash_loop m f (from + i + 1) else from
      else from)"
  by auto
termination by (relation "measure (\<lambda>(m, f, from). length m - from)") auto

declare slash_loop.simps [simp del]

definition last_slash :: "string \<Rightarrow> int" where
  "last_slash m = (case find_last CHR ''/'' m of None \<Rightarrow> - 1 | Some p \<Rightarrow> int p)"

text \<open>The number of the track and the part of the path between the list's and the file's directory.\<close>

definition track_parts :: "string \<Rightarrow> string \<Rightarrow> (int \<times> string) option" where
  "track_parts path m =
     (let f = last_slash m;
          track_id = c_atoi (drop (nat (f + 1)) m);
          aC = slash_loop m f 0
      in if track_id = 0 then None
         else if aC \<le> length path then None
         else Some (track_id, drop (length path) (take aC m)))"

text \<open>\<open>sprintf\<close> into 1000 bytes.\<close>

definition metadata_url :: "tconfig \<Rightarrow> int \<times> string \<Rightarrow> int \<Rightarrow> string option" where
  "metadata_url c tp play_time =
     (let s = p_url_send_track_data c @ ''/'' @ show_int (fst tp) @ snd tp @ show_int play_time @ ''/''
      in if length s < 1000 then Some s else None)"

text \<open>The line of the report of titles; \<open>now\<close> is the time as an unsigned number.\<close>

definition report_line :: "tconfig \<Rightarrow> nat \<Rightarrow> int \<times> string \<Rightarrow> int \<Rightarrow> string option" where
  "report_line c now tp play_time =
     (if length (snd tp) < 2 then None
      else
        let tab = [CHR 0x09];
            s = show_nat now @ tab @ take (length (snd tp) - 2) (drop 1 (snd tp)) @ tab @
                  show_int (fst tp) @ tab @ show_int play_time @ tab @ show_int (p_channel_id c) @ lf
        in if length s < 1000 then Some s else None)"

text \<open>What icecast is told: the part of the answer from the first brace on, if 200 stands in it.\<close>

definition song_text :: "string \<Rightarrow> string option" where
  "song_text m =
     (case (find_sub ''200'' m, find_chr CHR ''{'' m) of
        (Some _, Some i) \<Rightarrow> Some (drop i m)
      | _ \<Rightarrow> None)"

text \<open>
  \<open>handler_metadata_thread\<close>: the results are the line of the report and what went out to
  icecast, if they came so far.
\<close>

definition handler_metadata_thread ::
  "net \<Rightarrow> net \<Rightarrow> tconfig \<Rightarrow> nat \<Rightarrow> string \<Rightarrow> int \<Rightarrow> (string option \<times> string) option" where
  "handler_metadata_thread e e' c now m_file play_time =
     (case track_parts (p_playlist c) m_file of
        None \<Rightarrow> Some (None, [])
      | Some tp \<Rightarrow>
          case metadata_url c tp play_time of
            None \<Rightarrow> None
          | Some u \<Rightarrow>
              case query_url e u of
                None \<Rightarrow> None
              | Some (m, _) \<Rightarrow>
                  case report_line c now tp play_time of
                    None \<Rightarrow> None
                  | Some r \<Rightarrow>
                      case song_text m of
                        None \<Rightarrow> Some (Some r, [])
                      | Some j \<Rightarrow>
                          map_option (\<lambda>w. (Some r, w))
                            (transmit e' (p_port c) (p_connattempts c) (get_metadata_header c j)))"

section \<open>Error texts\<close>

definition get_error :: "int \<Rightarrow> string" where
  "get_error n =
     (let str = (if n = 1 then ''Playlist is Empty''
                 else if n = 3 then ''Error fmt_Create(Buf_size)''
                 else if n = 4 then ''Error Socket Create'' else [])
      in if str = [] then [] else str @ lf)"

section \<open>Paths of tracks\<close>

lemma slash_loop_stop:
  assumes "CHR ''/'' \<notin> set b" "f = int (length a + 1 + length b)" "k \<le> length a + 1"
  shows "slash_loop (a @ CHR ''/'' # b @ CHR ''/'' # c) f k = length a + 1"
  using assms(3)
proof (induction "length a + 1 - k" arbitrary: k rule: less_induct)
  case less
  let ?m = "a @ CHR ''/'' # b @ CHR ''/'' # c"
  show ?case
  proof (cases "k = length a + 1")
    case True
    then have "drop k ?m = b @ CHR ''/'' # c" by simp
    then have "find_chr CHR ''/'' (drop k ?m) = Some (length b)"
      using find_chr_append [OF assms(1), of c] by simp
    then show ?thesis using True assms(2) by (subst slash_loop.simps) simp
  next
    case False
    then have k: "k \<le> length a" using less.prems by simp
    then have d: "drop k ?m = drop k a @ CHR ''/'' # b @ CHR ''/'' # c" by simp
    obtain i where i: "find_chr CHR ''/'' (drop k ?m) = Some i" "i \<le> length (drop k a)"
    proof (cases "find_chr CHR ''/'' (drop k a)")
      case None
      then have "CHR ''/'' \<notin> set (drop k a)" by (simp add: find_chr_None)
      then show thesis using that find_chr_append unfolding d by blast
    next
      case (Some i)
      have "find_chr CHR ''/'' (s @ t) = Some j" if "find_chr CHR ''/'' s = Some j" for s t j
        using that by (induction s arbitrary: j) (auto split: if_splits)
      then show thesis using that [of i] Some find_chr_Some [OF Some] unfolding d by simp
    qed
    have "int (k + i) \<noteq> f" "k < length ?m" using i(2) k assms(2) by auto
    then have "slash_loop ?m f k = slash_loop ?m f (k + i + 1)"
      using i(1) by (subst slash_loop.simps) simp
    then show ?thesis using less.hyps [of "k + i + 1"] i(2) k by simp
  qed
qed

lemma drop_front: "drop (length x) (x @ y) = y" by simp

lemma no_slash_digits: "CHR ''/'' \<notin> set (show_nat n)"
  using show_nat_digits [of n] by (auto simp: c_isdigit_def code_def)

lemma track_parts_entry:
  assumes "0 < n" "n < 2 ^ 31"
  shows "track_parts (playlist_path p) (track_file p q (show_nat n)) =
    Some (int n, ''/'' @ q @ ''/'')"
proof -
  let ?d = "show_nat (n div 10000)" and ?c = "show_nat n @ ''.'' @ extension (aac_streamtype p)"
  let ?a = "playlist_path p @ ''/'' @ q"
  have g: "GetSubPath (c_atoi (show_nat n)) = ?d"
    using assms(2) zdiv_int [of n 10000]
    by (simp add: atoi_show_nat GetSubPath_def c_div_nonneg show_int_def nat_div_distrib)
  have m: "track_file p q (show_nat n) = ?a @ CHR ''/'' # ?d @ CHR ''/'' # ?c"
    by (simp add: track_file_def g)
  have "CHR ''/'' \<notin> set ?c" using no_slash_digits by (simp add: extension_def)
  then have f: "last_slash (?a @ CHR ''/'' # ?d @ CHR ''/'' # ?c) = int (length ?a + 1 + length ?d)"
    using find_last_append [of "CHR ''/''" ?c "?a @ CHR ''/'' # ?d"] by (simp add: last_slash_def)
  have "c_atoi (show_nat n @ CHR ''.'' # extension (aac_streamtype p)) = int n"
    using c_atoi_show_int [of "int n" "CHR ''.'' # extension (aac_streamtype p)"] assms
    by (simp add: int_range_def show_int_def c_isdigit_def code_def)
  moreover have "drop (nat (int (length ?a + 1 + length ?d) + 1)) (?a @ CHR ''/'' # ?d @ CHR ''/'' # ?c) = ?c"
  proof -
    have "drop (length (?a @ CHR ''/'' # ?d @ ''/'')) ((?a @ CHR ''/'' # ?d @ ''/'') @ ?c) = ?c"
      by (rule drop_front)
    moreover have "nat (int (length ?a + 1 + length ?d) + 1) = length (?a @ CHR ''/'' # ?d @ ''/'')" by simp
    ultimately show ?thesis by (simp only: append.simps append_assoc)
  qed
  ultimately show ?thesis
    using slash_loop_stop [OF no_slash_digits refl, of 0 ?a "n div 10000" ?c] assms(1)
    unfolding track_parts_def m f Let_def by simp
qed

section \<open>Queries on a good network\<close>

text \<open>A network that connects at once, takes \<open>B\<close> bytes, and brings the answer in pieces.\<close>

definition good_net :: "nat \<Rightarrow> net \<Rightarrow> string list \<Rightarrow> bool" where
  "good_net B e ds \<longleftrightarrow> 0 \<le> q_fd e \<and> q_resolved e \<and> q_con e 0 \<noteq> Refused \<and>
     B \<le> accepts (q_sends e) \<and> Failed \<notin> set (q_sends e) \<and> [] \<notin> set ds \<and>
     (\<exists>rs. q_recvs e = map Got ds @ Closed # rs)"

lemma net_connect_good:
  assumes "0 \<le> fd" "resolved" "con 0 \<noteq> Refused" "0 < m"
  shows "\<exists>t s. net_connect fd resolved con (tclient_new p m SOCKET_NONBLOCK r) = (True, t, s) \<and> f_connected t"
proof -
  obtain k where "nat m = Suc k" using assms(4) by (cases "nat m") auto
  then show ?thesis using assms by (simp add: net_connect_def tclient_new_def Let_def)
qed

lemma query_url_good:
  assumes "turl_new (Some u) = Inr url" "get_query url = Some aa" "good_net (length aa) e ds"
  shows "query_url e u = Some (concat ds, aa)"
proof -
  obtain t s where t: "net_connect (q_fd e) (q_resolved e) (q_con e)
      (tclient_new (Port (url_data url)) 3 SOCKET_NONBLOCK 3) = (True, t, s)" "f_connected t"
    using assms(3) net_connect_good [of "q_fd e" "q_resolved e" "q_con e" 3] unfolding good_net_def by force
  obtain cs where cs: "net_send (q_sends e) aa [] t = Some (True, t, aa, cs)"
    using net_send_smooth [of aa "q_sends e" t "[]"] assms(3) t(2) by (auto simp: good_net_def)
  obtain rs where "q_recvs e = map Got ds @ Closed # rs" "[] \<notin> set ds"
    using assms(3) by (auto simp: good_net_def)
  then have "recv_loop (q_recvs e) [] = Some (concat ds, rs)" by (simp add: recv_loop_got)
  then show ?thesis using assms(1,2) t cs by (simp add: query_url_def net_recv_string_def)
qed

lemma transmit_good:
  assumes "good_net (length d) e ds" "0 < m"
  shows "transmit e p m d = Some d"
proof -
  obtain t s where t: "net_connect (q_fd e) (q_resolved e) (q_con e)
      (tclient_new p m SOCKET_NONBLOCK 3) = (True, t, s)" "f_connected t"
    using assms net_connect_good [of "q_fd e" "q_resolved e" "q_con e" m] unfolding good_net_def by force
  obtain cs where "net_send (q_sends e) d [] t = Some (True, t, d, cs)"
    using net_send_smooth [of d "q_sends e" t "[]"] assms(1) t(2) by (auto simp: good_net_def)
  then show ?thesis using t by (simp add: transmit_def)
qed

section \<open>The length of the body\<close>

lemma c_atoi_space: "c_atoi (CHR '' '' # s) = c_atoi s"
  by (simp add: c_atoi_def c_strtol_def c_isspace_def code_def)

lemma content_pos:
  assumes "find_sub ''Content-Length'' m = Some (length h)"
    and "m = h @ ''Content-Length: '' @ show_nat n @ r # t" "\<not> c_isdigit r" "0 < n" "n < 2 ^ 31"
  shows "get_content_pos m = Some (int n)"
proof -
  let ?t = "takeWhile (\<lambda>c. c \<noteq> CHR 0x00) (r # t)"
  have d: "drop (length h + 1) m = ''ontent-Length'' @ CHR '':'' # CHR '' '' # show_nat n @ r # t"
    using assms(2) by simp
  have f: "find_chr CHR '':'' (drop (length h + 1) m) = Some 13"
    unfolding d by (subst find_chr_append) simp_all
  have e: "drop (length h + 1 + 13 + 1) m = CHR '' '' # show_nat n @ r # t"
    using assms(2) by simp
  have "\<forall>c \<in> set (CHR '' '' # show_nat n). c \<noteq> CHR 0x00"
    using show_nat_digits [of n] by (auto simp: c_isdigit_def code_def)
  then have "c_str ((CHR '' '' # show_nat n) @ r # t) = (CHR '' '' # show_nat n) @ ?t"
    unfolding c_str_def by (intro takeWhile_append2) blast
  then have "c_str (CHR '' '' # show_nat n @ r # t) = CHR '' '' # show_nat n @ ?t" by simp
  moreover have "c_atoi (show_nat n @ ?t) = int n"
    using c_atoi_show_int [of "int n" ?t] assms(3,5) by (auto simp: int_range_def show_int_def)
  ultimately have "c_atoi (c_str (drop (length h + 1 + 13 + 1) m)) = int n"
    unfolding e by (simp add: c_atoi_space)
  then show ?thesis using assms(1,4,5) f unfolding get_content_pos_def Let_def by simp
qed

section \<open>An example\<close>

definition dead_net :: net where
  "dead_net = \<lparr>q_fd = 3, q_resolved = True, q_con = (\<lambda>_. Refused), q_sends = [], q_recvs = []\<rparr>"

lemma dead_query: "query_url dead_net ''h/a'' = Some ([], [])" by code_simp

definition live_net :: "nat \<Rightarrow> string list \<Rightarrow> net" where
  "live_net n ds = \<lparr>q_fd = 3, q_resolved = True, q_con = (\<lambda>_. Connected), q_sends = [Sent n],
     q_recvs = map Got ds @ [Closed]\<rparr>"

lemma live_good: "[] \<notin> set ds \<Longrightarrow> good_net n (live_net n ds) ds"
  by (simp add: good_net_def live_net_def)

definition demo_conf :: tconfig where
  "demo_conf = settings no_param demo_settings 236 ''channel''"

lemma demo_conf_fields:
  "p_url_send_track_data demo_conf = ''t/236/channel''" "p_channel_id demo_conf = 236"
  "p_connattempts demo_conf = 5" "p_playlist demo_conf = ''./playlist.txt''"
proof -
  have u: "p_url_send_track_data (settings m r i t) = Get r ''playlist'' ''url_send_track_data'' [] @ channel_path i t"
    "p_connattempts (settings m r i t) = c_int (GetInteger r ''server'' ''connectionattempts'' 5)"
    "p_playlist (settings m r i t) = Get r ''playlist'' ''playlist'' ''./playlist.txt''"
    "p_channel_id (settings m r i t) = i"
    for m r i t by (simp_all add: settings_def Let_def)
  show "p_url_send_track_data demo_conf = ''t/236/channel''" "p_channel_id demo_conf = 236"
    "p_connattempts demo_conf = 5" "p_playlist demo_conf = ''./playlist.txt''"
    unfolding demo_conf_def u by code_simp+
qed

lemma demo_title:
  "metadata_url demo_conf (7, ''/rock/'') 200 = Some ''t/236/channel/7/rock/200/''"
  "\<exists>r. report_line demo_conf 0 (7, ''/rock/'') 200 = Some r"
  "\<exists>url aa. turl_new (Some ''t/236/channel/7/rock/200/'') = Inr url \<and> get_query url = Some aa"
proof -
  have "show_int 7 = ''7''" "show_int 200 = ''200''" by code_simp+
  then show "metadata_url demo_conf (7, ''/rock/'') 200 = Some ''t/236/channel/7/rock/200/''"
    by (simp add: metadata_url_def demo_conf_fields)
  have "show_nat 0 = ''0''" "show_int 7 = ''7''" "show_int 200 = ''200''" "show_int 236 = ''236''" by code_simp+
  then show "\<exists>r. report_line demo_conf 0 (7, ''/rock/'') 200 = Some r"
    by (simp add: report_line_def demo_conf_fields lf_def)
  have "case turl_new (Some ''t/236/channel/7/rock/200/'') of Inl _ \<Rightarrow> False
      | Inr url \<Rightarrow> get_query url \<noteq> None"
    by code_simp
  then show "\<exists>url aa. turl_new (Some ''t/236/channel/7/rock/200/'') = Inr url \<and> get_query url = Some aa"
    by (auto split: sum.splits)
qed

section \<open>Properties\<close>

text \<open>
  The question whether there is a new list is answered by the body of the answer alone: with a
  correct \<open>Content-Length\<close> the sign is given exactly when \<open>true\<close> stands in the body, whatever
  the other headers are.
\<close>

theorem sign_reads_body:
  assumes "m = h @ ''Content-Length: '' @ show_nat (length b) @ r # t @ b" "length m < 2 ^ 64"
    and "find_sub ''Content-Length'' m = Some (length h)" "\<not> c_isdigit r" "b \<noteq> []" "length b < 2 ^ 31"
  shows "sign_of_change m \<longleftrightarrow> find_sub ''true'' b \<noteq> None"
proof -
  let ?f = "h @ ''Content-Length: '' @ show_nat (length b) @ r # t"
  have g: "get_content_pos m = Some (int (length b))"
    using content_pos [of m h "length b" r "t @ b"] assms by simp
  have m: "m = ?f @ b" using assms(1) by simp
  then have l: "int (length m) - int (length b) = int (length ?f)" by simp
  have "int (length ?f) < 2 ^ 64" using assms(2) unfolding m by simp
  then have k: "(int (length m) - int (length b)) mod 2 ^ 64 = int (length ?f)"
    unfolding l by (intro mod_pos_pos_trivial) simp_all
  have "drop (length ?f) m = b" unfolding m by (rule drop_front)
  moreover have "length ?f \<le> length m" unfolding m by simp
  ultimately show ?thesis
    unfolding sign_of_change_def g option.case k find_at_def nat_int of_nat_le_iff by (simp only: simp_thms)
qed

theorem sign_reads_body_witness:
  "sign_of_change (''HTTP/1.1 200 OK Content-Length: 9;{sign:true'') \<longleftrightarrow> True"
proof -
  have e: "show_nat (length ''sign:true'') = ''9''" by code_simp
  have "find_sub ''true'' ''sign:true'' = Some 5" by simp
  then show ?thesis
    using sign_reads_body [OF refl, of "''HTTP/1.1 200 OK ''" "''sign:true''" "CHR '';''" "''{''", unfolded e]
    by (simp add: c_isdigit_def code_def)
qed

text \<open>
  The playlist server is asked twice at most: a server that gives nothing the first two times is not asked a
  third time, though the history of versions in \<open>accordion_V10.x.cpp\<close> promises three queries.
\<close>

theorem two_queries:
  assumes "query_url e1 u = Some ([], w1)" "query_url e2 u = Some ([], w2)"
  shows "handler_playlist_thread (e1 # e2 # es) can_write u st = Some st \<and>
    query_loop 0 (e1 # e2 # es) u = Some ([], 2)"
proof -
  have "query_loop 0 (e1 # e2 # es) u = Some ([], 2)"
    using assms by (cases es) simp_all
  then show ?thesis by (simp add: handler_playlist_thread_def)
qed

theorem two_queries_witness:
  "handler_playlist_thread [dead_net, dead_net, live_net 1000 [''finish'']] True ''h/a'' (\<lambda>_. None, demo_par) =
     Some (\<lambda>_. None, demo_par)"
  using two_queries [OF dead_query dead_query] by blast

text \<open>
  The path of a track is cut as it was made: from the name \<open>set_change_playlist\<close> gave the file,
  \<open>handler_metadata_thread\<close> gets back the number of the track and its directory.
\<close>

theorem track_name_round_trip:
  assumes "0 < n" "n < 2 ^ 31"
  shows "track_parts (playlist_path p) (track_file p q (show_nat n)) = Some (int n, ''/'' @ q @ ''/'')"
  using assms by (rule track_parts_entry)

theorem track_name_round_trip_witness:
  "track_parts ''/m'' (track_file demo_par ''rock/80'' (show_nat 20007)) = Some (20007, ''/rock/80/'')"
proof -
  have "playlist_path demo_par = ''/m''" by (simp add: demo_par_def)
  then show ?thesis using track_name_round_trip [of 20007 demo_par "''rock/80''"] by simp
qed



end
