(* ===== verification/Dispatcher.thy ===== *)
theory Dispatcher
  imports Handlers Player_Safety Player_Aac
begin

text \<open>
  \<open>accordion_V10.x.cpp\<close> and \<open>main_dispatcher.cpp\<close>: the program from its command line to the loop
  of the player. Together with the player, the parameters, the configuration and the queries
  this is the whole of accordion.
\<close>

section \<open>Commands\<close>

datatype tcCmd = cEmpty | cStop | cMake | cStatus | cCheck

text \<open>The copy in small letters is made and not used.\<close>

definition GetCmd :: "string \<Rightarrow> tcCmd" where
  "GetCmd s =
     (if s = ''stop'' \<or> s = ''exit'' then cStop
      else if s = ''make'' then cMake
      else if s = ''status'' then cStatus
      else if s = ''check'' then cCheck
      else cEmpty)"

text \<open>\<open>sprintf\<close> of the command into 1024 bytes.\<close>

definition ps_command :: "string list \<Rightarrow> string option" where
  "ps_command argv =
     (let s = ''ps --sort=start_time -axo pid,command | grep '' @ argv ! 2 @ '' | grep '' @ argv ! 3 @
            '' | grep '' @ argv ! 4 @ '' | grep -v grep''
      in if length s < 1024 then Some s else None)"

text \<open>
  What the shell answers to the command for the list of processes, before and after a signal to
  stop, and to others; and what \<open>kill\<close> returns.
\<close>

record shell =
  sh_ps :: string
  sh_ps_after :: string
  sh_which :: "string \<Rightarrow> string"
  sh_kill :: int

datatype main_result = Exit int | Dispatch

definition accordion_main :: "shell \<Rightarrow> files \<Rightarrow> string list \<Rightarrow> main_result option" where
  "accordion_main w D argv =
     (if length argv \<le> 4 then Some (Exit 1)
      else if CHR ''/'' \<notin> set (argv ! 0) then Some (Exit (- 1))
      else if ps_command argv = None then None
      else
        let m_pid = GetPid (sh_which w) (getCmdOutput (sh_ps w));
            cmd = GetCmd (argv ! 1)
        in if cmd \<noteq> cEmpty then
             let pid' = (if m_pid \<noteq> 0 \<and> cmd \<noteq> cStatus \<and> cmd \<noteq> cCheck
                         then if cmd = cStop then GetPid (sh_which w) (getCmdOutput (sh_ps_after w))
                              else sh_kill w
                         else m_pid)
             in Some (Exit (of_bool (if cmd = cStatus then pid' \<noteq> 0 else pid' = 0)))
           else if m_pid \<noteq> 0 then Some (Exit 0)
           else if D (argv ! 1) = None then Some (Exit 1)
           else Some Dispatch)"

section \<open>The dispatcher\<close>

text \<open>
  How far the dispatcher comes: \<open>Failure\<close> is \<open>EXIT_FAILURE\<close>; \<open>Started\<close> has the configuration, the
  parameters, the disk, and the number of queries sent off to run beside the player. The order
  of the keys, the entries of the directory of jingles, the networks of the queries, whether files can be
  written and whether the process became a daemon are what the environment gives.
\<close>

datatype dispatched = Failure | Started tconfig tparameters files nat

record environment =
  e_ord :: "string list"
  e_jingles :: "string list option"
  e_nets :: "net list"
  e_can_write :: bool
  e_daemon :: bool

definition dispatcher :: "environment \<Rightarrow> files \<Rightarrow> string list \<Rightarrow> dispatched option" where
  "dispatcher w D argv =
     (case tconfig_new (e_ord w) D argv of
        None \<Rightarrow> None
      | Some (Inl _) \<Rightarrow> Some Failure
      | Some (Inr c) \<Rightarrow>
          if p_is_deamon c \<and> \<not> e_daemon w then Some Failure
          else if get_channel_prefix c = None then None
          else
            case Tparameters_new D (e_jingles w) (aac_stream c) (p_playlist c) (p_playfile c) (p_npfile c)
                   (p_jingle_path c) of
              None \<Rightarrow> None
            | Some p \<Rightarrow>
                if playfile_exists p
                then Some (Started c p D (if playfile_default p then 1 else 0))
                else
                  case handler_playlist_thread (e_nets w) (e_can_write w) (p_url_get_playlist c) (D, p) of
                    None \<Rightarrow> None
                  | Some (D', p') \<Rightarrow>
                      if get_new_playlist p' then Some (Started c p' D' 0) else Some Failure)"

text \<open>What \<open>Tparameters\<close> is before it looks at the disk.\<close>

definition fresh :: "tconfig \<Rightarrow> tparameters" where
  "fresh c =
     \<lparr>aac_streamtype = aac_stream c, playlist_path = p_playlist c, playfile = p_playfile c,
      np_file = p_npfile c, jingle_path = p_jingle_path c, start_play_track = False,
      stop_play_track = False, last_track = False, new_playlist = False, get_titrs = False,
      playfile_exists = False, playfile_default = False, playlist = []\<rparr>"

definition the_client :: "tconfig \<Rightarrow> tclient" where
  "the_client c = tclient_new (p_port c) (p_connattempts c) 0 (p_reconnection_time c)"

section \<open>Facts\<close>

lemma dispatcher_started:
  assumes "dispatcher w D argv = Some (Started c p D' q)"
  shows "\<exists>m f. ReadIni m f = Inr c" and "playlist p \<noteq> []"
proof -
  have "\<exists>m f. ReadIni m f = Inr c \<and> playlist p \<noteq> []"
    using assms
    by (auto simp: dispatcher_def tconfig_new_def Tparameters_new_def check_playlist_def get_new_playlist_def
        Let_def split: option.splits sum.splits prod.splits if_splits)
  then show "\<exists>m f. ReadIni m f = Inr c" "playlist p \<noteq> []" by auto
qed

lemma player_config_has_dir: "ReadIni m f = Inr c \<Longrightarrow> has_dir (player_config b c)"
  using player_config_dir by (simp add: has_dir_def)

text \<open>A server that answers the first query with a list.\<close>

definition answers :: "tconfig \<Rightarrow> environment \<Rightarrow> entry list \<Rightarrow> bool" where
  "answers c w es \<longleftrightarrow>
     (\<exists>e rest url aa ds pre line.
        e_nets w = e # rest \<and> turl_new (Some (p_url_get_playlist c)) = Inr url \<and> get_query url = Some aa \<and>
        good_net (length aa) e ds \<and>
        concat ds = pre @ ''finish'' @ line @ nl # concat (map entry_line es) \<and>
        (\<forall>k < length pre. \<not> prefix ''finish'' (drop k (concat ds))) \<and> nl \<notin> set line \<and>
        CHR 0x00 \<notin> set (concat ds))"

lemma first_start:
  assumes "tconfig_new (e_ord w) D argv = Some (Inr c)" "\<not> p_is_deamon c"
    and "D (p_playfile c) = None" "e_jingles w = None" "answers c w es"
    and "\<And>e. e \<in> set es \<Longrightarrow> entry_ok (fresh c) e"
    and "pl = filter (stat_exists D) (map (entry_file (fresh c)) es)" "pl \<noteq> []" "e_can_write w"
  shows "dispatcher w D argv =
    Some (Started c ((fresh c)\<lparr>playlist := pl, new_playlist := True, playfile_default := True\<rparr>)
      (D(p_playfile c \<mapsto> concat (map (\<lambda>t. t @ [nl]) pl))) 0)"
proof -
  let ?p = "(fresh c)\<lparr>playfile_default := True\<rparr>"
  obtain e rest url aa ds pre line where a: "e_nets w = e # rest"
    "turl_new (Some (p_url_get_playlist c)) = Inr url" "get_query url = Some aa" "good_net (length aa) e ds"
    "concat ds = pre @ ''finish'' @ line @ nl # concat (map entry_line es)"
    "\<forall>k < length pre. \<not> prefix ''finish'' (drop k (concat ds))" "nl \<notin> set line" "CHR 0x00 \<notin> set (concat ds)"
    using assms(5) unfolding answers_def by blast
  obtain m f where i: "ReadIni m f = Inr c"
    using assms(1) by (auto simp: tconfig_new_def split: if_splits)
  obtain r n t where s: "c = settings m r n t" "t \<in> {''channel'', ''personal''}"
    using ReadIni_accepted [OF i] by blast
  have pf: "p_playfile c = stored_file (Get r ''misc'' ''playfile'' ''/tmp/playlist/'') n (p_mount c)"
    and ct: "p_channel_type c = t"
    using s(1) by (simp_all add: settings_def Let_def)
  obtain dir where dir: "pathname (p_playfile c) = Some dir" "dir \<noteq> []"
    using stored_file_dir unfolding pf by blast
  have ch: "get_channel_prefix c \<noteq> None" using ct s(2) by (auto simp: get_channel_prefix_def)
  have T: "Tparameters_new D (e_jingles w) (aac_stream c) (p_playlist c) (p_playfile c) (p_npfile c)
      (p_jingle_path c) = Some ?p"
    using assms(3,4) by (simp add: Tparameters_new_def check_playlist_def fresh_def)
  have q: "query_url e (p_url_get_playlist c) = Some (concat ds, aa)"
    by (rule query_url_good [OF a(2-4)])
  have ne: "concat ds \<noteq> []" unfolding a(5) by simp
  have z: "c_str (concat ds) = concat ds"
    using a(8) by (auto simp: c_str_def takeWhile_eq_all_conv)
  have same: "entry_file ?p = entry_file (fresh c)" "playfile ?p = p_playfile c"
    "entry_ok ?p = entry_ok (fresh c)"
    by (auto simp: entry_file_def entry_ok_def fresh_def fun_eq_iff)
  have "set_change_playlist True (concat ds) D ?p =
      Some (if True then D(playfile ?p := Some (concat (map (\<lambda>t. t @ [nl]) pl))) else D,
        ?p\<lparr>playlist := pl, new_playlist := True, playfile_exists := False\<rparr>)"
    by (rule set_change_entries [OF a(5) _ a(7) _ _ dir(2)])
      (use a(6) assms(6-8) dir(1) same in auto)
  then have h: "handler_playlist_thread (e_nets w) True (p_url_get_playlist c) (D, ?p) =
      Some (D(p_playfile c \<mapsto> concat (map (\<lambda>t. t @ [nl]) pl)),
        ?p\<lparr>playlist := pl, new_playlist := True, playfile_exists := False\<rparr>)"
    using a(1) q ne z same(2) by (auto simp: handler_playlist_thread_def)
  have u: "?p\<lparr>playlist := pl, new_playlist := True, playfile_exists := False\<rparr> =
      (fresh c)\<lparr>playlist := pl, new_playlist := True, playfile_default := True\<rparr>"
    by (simp add: fresh_def)
  have "\<not> playfile_exists ?p" by (simp add: fresh_def)
  then show ?thesis
    using assms(1,2,8,9) ch h unfolding dispatcher_def
    by (simp add: T u get_new_playlist_def del: tparameters.update_convs)
qed

section \<open>Properties\<close>

text \<open>
  C31. Whatever configuration and command line the dispatcher accepts, the player it starts has
  something to play and never crashes on its list: the directory the player needs for its position
  is always there in the name the configuration makes.
\<close>

theorem dispatched_player_safe:
  assumes "dispatcher w D argv = Some (Started c p D' q)"
    and "reachable (player_config b c) F e (TPlaylist_new cl r p D') (ph, s)"
    and "0 \<le> load_idx (player_config b c) D'"
  shows "playlist p \<noteq> [] \<and> ph \<noteq> Crashed \<and> (play_list s = [] \<or> it_playlist s < length (play_list s))"
proof -
  obtain m f where "ReadIni m f = Inr c" using dispatcher_started(1) [OF assms(1)] by blast
  then show ?thesis
    using dispatcher_started(2) [OF assms(1)] reachable_in_list [OF assms(2) _ assms(3)]
      player_config_has_dir by blast
qed


text \<open>A channel with one track.\<close>

definition demo_files :: files where
  "demo_files = [''a.ini'' \<mapsto> demo_ini, ''./playlist.txt/x/0/7.aac'' \<mapsto> ''A'']"

definition demo_sounds :: "string \<Rightarrow> byte list option" where
  "demo_sounds = [''./playlist.txt/x/0/7.aac'' \<mapsto> demo_frame @ demo_frame]"

lemma demo_conf_more:
  "p_url_get_playlist demo_conf = ''g/236/channel/make''" "p_is_deamon demo_conf = False"
  "p_streamtype demo_conf = ''aac''" "p_playfile demo_conf = ''/tmp/playlist/0/a236.txt''"
  "p_npfile demo_conf = ''/tmp/np/0/a236.txt''" "the_client demo_conf = tclient_new 8000 5 0 5"
proof -
  have u: "p_url_get_playlist (settings m r i t) = Get r ''playlist'' ''url_get_playlist'' [] @ channel_path i t @ ''/make''"
    "p_is_deamon (settings m r i t) = GetBoolean r ''misc'' ''deamon'' False"
    "p_streamtype (settings m r i t) = given m ''streamtype'' (Get r ''stream'' ''streamtype'' ''aac'')"
    "p_playfile (settings m r i t) = stored_file (Get r ''misc'' ''playfile'' ''/tmp/playlist/'') i
       (mount_of i t (given m ''mount'' (Get r ''server'' ''mount'' [])))"
    "p_npfile (settings m r i t) = stored_file (Get r ''misc'' ''npfile'' ''/tmp/np/'') i
       (mount_of i t (given m ''mount'' (Get r ''server'' ''mount'' [])))"
    "p_port (settings m r i t) = given_int m ''port'' (GetInteger r ''server'' ''port'' 8000)"
    "p_connattempts (settings m r i t) = c_int (GetInteger r ''server'' ''connectionattempts'' 5)"
    "p_reconnection_time (settings m r i t) = c_int (GetInteger r ''server'' ''reconnectiontime'' 5)"
    for m r i t by (simp_all add: settings_def Let_def)
  show "p_url_get_playlist demo_conf = ''g/236/channel/make''" "p_is_deamon demo_conf = False"
    "p_streamtype demo_conf = ''aac''" "p_playfile demo_conf = ''/tmp/playlist/0/a236.txt''"
    "p_npfile demo_conf = ''/tmp/np/0/a236.txt''"
    unfolding demo_conf_def u by code_simp+
  have "given_int no_param ''port'' (GetInteger demo_settings ''server'' ''port'' 8000) = 8000"
    "c_int (GetInteger demo_settings ''server'' ''connectionattempts'' 5) = 5"
    "c_int (GetInteger demo_settings ''server'' ''reconnectiontime'' 5) = 5"
    by code_simp+
  then show "the_client demo_conf = tclient_new 8000 5 0 5"
    unfolding the_client_def demo_conf_def u by simp
qed

lemma demo_head_short:
  assumes "aac_announced 96000 fi" "header_text (player_config b demo_conf) fi = Some h"
  shows "length h \<le> 470000"
proof -
  have i: "ReadIni no_param (Some demo_ini) = Inr demo_conf" "plain_texts demo_conf"
    using demo_ini_accepted(1) demo_ini_plain by (simp_all add: demo_conf_def)
  have u: "p_name (settings m r n t) = Get r ''stream'' ''name'' ''lost in wilderness accordion''"
    "p_url (settings m r n t) = Get r ''stream'' ''url'' ''www.101.ru''"
    "p_genre (settings m r n t) = Get r ''stream'' ''genre'' '' ''"
    "p_descr (settings m r n t) = Get r ''stream'' ''description'' '' ''"
    for m r n t by (simp_all add: settings_def Let_def)
  have f: "p_mount demo_conf = ''a236''" "p_content_type demo_conf = ''audio/aacp''"
    "p_password demo_conf = ''11111''" "p_name demo_conf = ''lost in wilderness accordion''"
    "p_url demo_conf = ''www.101.ru''" "p_genre demo_conf = '' ''" "p_descr demo_conf = '' ''"
    unfolding demo_conf_def settings_fields u by code_simp+
  have "length (authorization ''11111'') = 38" by code_simp
  then have l: "length (header_lines demo_conf) \<le> 300"
    unfolding header_lines_def f by (simp add: lf_def)
  have "0 \<le> \<lfloor>fi_bitrate fi\<rfloor>" "\<lfloor>fi_bitrate fi\<rfloor> < 10 ^ Suc 3" "fi_simple_frequency fi = 96000"
    "0 \<le> fi_channel_configuration fi" "fi_channel_configuration fi < 10 ^ Suc 3"
    using assms(1) by (auto simp: aac_announced_def floor_less_iff)
  then have "length (show_int \<lfloor>fi_bitrate fi\<rfloor>) \<le> 4" "length (show_int (fi_channel_configuration fi)) \<le> 4"
    "length (show_int (fi_simple_frequency fi)) \<le> 5"
    using show_int_length [of "\<lfloor>fi_bitrate fi\<rfloor>" 3] show_int_length [of "fi_channel_configuration fi" 3]
      show_int_length [of "fi_simple_frequency fi" 4] by simp_all
  then show ?thesis
    using l header_text_accepted [OF i, of b fi] assms(2) by (auto simp: lf_def)
qed

lemma demo_started:
  "tconfig_new param_keys demo_files [''/accordion'', ''a.ini'', ''channelid'', ''x'', ''y''] = Some (Inr demo_conf)"
proof -
  have "take_args param_keys [''/accordion'', ''a.ini'', ''channelid'', ''x'', ''y''] = no_param"
    by (simp add: take_args_def take_arg_def param_keys_def)
  then show ?thesis
    using demo_ini_accepted(1) by (simp add: tconfig_new_def demo_files_def demo_conf_def)
qed

definition demo_es :: "entry list" where "demo_es = [(7, ''x'', ''r'')]"

lemma demo_world:
  "\<exists>w. e_ord w = param_keys \<and> e_jingles w = None \<and> e_can_write w \<and> answers demo_conf w demo_es"
proof -
  let ?m = "''finish'' @ [nl] @ entry_line (7, ''x'', ''r'')"
  have "case turn_new of Inl _ \<Rightarrow> False | Inr url \<Rightarrow> get_query url \<noteq> None"
    if "turn_new = turl_new (Some ''g/236/channel/make'')" for turn_new
    unfolding that by code_simp
  then obtain url aa where u: "turl_new (Some ''g/236/channel/make'') = Inr url" "get_query url = Some aa"
    by (auto split: sum.splits)
  let ?w = "\<lparr>e_ord = param_keys, e_jingles = None, e_nets = [live_net (length aa) [?m]], e_can_write = True,
      e_daemon = True\<rparr>"
  have z: "CHR 0x00 \<notin> set ?m"
    using show_nat_digits [of 7] by (auto simp: entry_line_def nl_def c_isdigit_def code_def)
  have "answers demo_conf ?w demo_es"
    unfolding answers_def demo_conf_more demo_es_def
    using u live_good [of "[?m]" "length aa"] z
    by (intro exI [of _ "live_net (length aa) [?m]"] exI [of _ "[]"] exI [of _ url] exI [of _ aa]
        exI [of _ "[?m]"] exI [of _ "[]"]) simp
  then show ?thesis by (intro exI [of _ ?w]) simp
qed

lemma demo_aac: "aac_stream demo_conf"
  by (simp add: aac_stream_def demo_conf_more)

lemma demo_path: "entry_file (fresh demo_conf) (7, ''x'', ''r'') = ''./playlist.txt/x/0/7.aac''"
proof -
  have "show_nat 7 = ''7''" "show_nat 0 = ''0''" by code_simp+
  then show ?thesis
    by (simp add: entry_file_def fresh_def demo_aac demo_conf_fields extension_def)
qed

lemma demo_entries_ok: "x \<in> set demo_es \<Longrightarrow> entry_ok (fresh demo_conf) x"
  using demo_path by (simp add: entry_ok_def nl_def PATH_MAX_def demo_es_def)

lemma demo_list:
  "[''./playlist.txt/x/0/7.aac''] = filter (stat_exists demo_files) (map (entry_file (fresh demo_conf)) demo_es)"
  using demo_path by (simp add: stat_exists demo_files_def demo_es_def)

lemma demo_not_stored:
  "demo_files (p_playfile demo_conf) = None" "demo_files (p_npfile demo_conf) = None"
  by (simp_all add: demo_files_def demo_conf_more)

lemma demo_dispatched:
  "\<exists>w p D'. dispatcher w demo_files [''/accordion'', ''a.ini'', ''channelid'', ''x'', ''y''] =
     Some (Started demo_conf p D' 0) \<and> D' (p_npfile demo_conf) = None"
proof -
  obtain w where w: "e_ord w = param_keys" "e_jingles w = None" "e_can_write w" "answers demo_conf w demo_es"
    using demo_world by blast
  have st: "tconfig_new (e_ord w) demo_files [''/accordion'', ''a.ini'', ''channelid'', ''x'', ''y''] = Some (Inr demo_conf)"
    using demo_started w(1) by simp
  have "\<not> p_is_deamon demo_conf" by (simp add: demo_conf_more)
  from first_start [OF st this demo_not_stored(1) w(2,4) demo_entries_ok demo_list _ w(3)]
  show ?thesis
    using demo_not_stored(2) by (fastforce simp: demo_conf_more)
qed


theorem dispatched_player_safe_witness:
  "\<exists>w p D' s. dispatcher w demo_files [''/accordion'', ''a.ini'', ''channelid'', ''x'', ''y''] =
      Some (Started demo_conf p D' 0) \<and>
    start (player_config True demo_conf) (demo_turn 470000) (TPlaylist_new (the_client demo_conf) no_aac p D') = s \<and>
    fst s \<noteq> Crashed"
proof -
  obtain w p D' where d: "dispatcher w demo_files [''/accordion'', ''a.ini'', ''channelid'', ''x'', ''y''] =
      Some (Started demo_conf p D' 0)" "D' (p_npfile demo_conf) = None"
    using demo_dispatched by blast
  let ?s = "start (player_config True demo_conf) (demo_turn 470000) (TPlaylist_new (the_client demo_conf) no_aac p D')"
  have r: "reachable (player_config True demo_conf) (aac_fmt id 3 demo_sounds) (demo_turn 470000)
      (TPlaylist_new (the_client demo_conf) no_aac p D') (fst ?s, snd ?s)"
    by (simp add: reachable_def)
  have l: "0 \<le> load_idx (player_config True demo_conf) D'"
    using d(2) by (simp add: load_idx_def player_config_def)
  have "fst ?s \<noteq> Crashed" using dispatched_player_safe [OF d(1) r l] by (elim conjE)
  then show ?thesis
    by (intro exI [of _ w] exI [of _ p] exI [of _ D'] exI [of _ ?s] conjI d(1) refl)
qed

text \<open>
  A second player for a channel is never started: \<open>main\<close> goes on to the dispatcher exactly when the
  command is none of the five, no process of the channel is found, and the configuration is there.
\<close>

theorem one_player_per_channel:
  assumes "4 < length argv" "CHR ''/'' \<in> set (argv ! 0)" "ps_command argv \<noteq> None"
  shows "accordion_main w D argv = Some Dispatch \<longleftrightarrow>
    argv ! 1 \<notin> {''stop'', ''exit'', ''make'', ''status'', ''check''} \<and>
    GetPid (sh_which w) (getCmdOutput (sh_ps w)) = 0 \<and> D (argv ! 1) \<noteq> None"
  using assms by (auto simp: accordion_main_def GetCmd_def Let_def)

definition demo_shell :: shell where
  "demo_shell = \<lparr>sh_ps = [], sh_ps_after = [], sh_which = (\<lambda>_. []), sh_kill = 0\<rparr>"

lemma demo_no_pid: "GetPid (sh_which demo_shell) (getCmdOutput (sh_ps demo_shell)) = 0" by code_simp

lemma demo_command:
  "ps_command [''/accordion'', x, ''a'', ''b'', ''c''] \<noteq> None"
  by (simp add: ps_command_def)

theorem one_player_per_channel_witness:
  "accordion_main demo_shell demo_files [''/accordion'', ''a.ini'', ''a'', ''b'', ''c''] = Some Dispatch \<and>
   accordion_main demo_shell demo_files [''/accordion'', ''b.ini'', ''a'', ''b'', ''c''] \<noteq> Some Dispatch"
  using one_player_per_channel [of "[''/accordion'', ''a.ini'', ''a'', ''b'', ''c'']" demo_shell demo_files]
    one_player_per_channel [of "[''/accordion'', ''b.ini'', ''a'', ''b'', ''c'']" demo_shell demo_files]
    demo_no_pid demo_command
  by (simp add: demo_files_def)

text \<open>
  The exit code of \<open>make\<close> is 1 when the signal was sent, which the comment calls success, and 1 too
  when there is no player to send it to; only a failed \<open>kill\<close> gives 0.
\<close>

theorem make_exit_code:
  assumes "4 < length argv" "CHR ''/'' \<in> set (argv ! 0)" "ps_command argv \<noteq> None" "argv ! 1 = ''make''"
  shows "accordion_main w D argv =
    Some (Exit (if GetPid (sh_which w) (getCmdOutput (sh_ps w)) = 0 \<or> sh_kill w = 0 then 1 else 0))"
  using assms by (auto simp: accordion_main_def GetCmd_def Let_def)

theorem make_exit_code_witness:
  "accordion_main demo_shell demo_files [''/accordion'', ''make'', ''a'', ''b'', ''c''] = Some (Exit 1)"
  using make_exit_code [of "[''/accordion'', ''make'', ''a'', ''b'', ''c'']" demo_shell demo_files] demo_command
  by (simp add: demo_shell_def)

end
