(* ===== verification/Player_Log.thy ===== *)
theory Player_Log
  imports Text Parameters
begin

text \<open>
  \<open>accordion_V10.X/log.cpp\<close>: the player's log, which is cut when it grows too large, the log of
  unsuccessful starts, and the monthly log of the titles played. The disk is the map of
  \<open>Parameters\<close>; \<open>w\<close> says what the operating system does: which directories it makes, whether
  the file opens, and what lies in memory behind the buffer of \<open>check_log_size\<close>. \<open>None\<close> is a
  crash.
\<close>

section \<open>The log files\<close>

record os =
  os_mkdir :: "string \<Rightarrow> bool"
  os_opens :: bool
  os_behind :: string

record tlog =
  log_file :: string
  log_head :: string
  log_path :: string
  channel_type :: char
  channel_id :: int
  log_size :: int
  info_marker :: string

definition log_open :: "os \<Rightarrow> tlog \<Rightarrow> bool option" where
  "log_open w l =
     (case pathname (log_file l) of
        None \<Rightarrow> None
      | Some a \<Rightarrow>
          case MakeDirectory (os_mkdir w) a of
            Some (_, Some made) \<Rightarrow> Some (made \<and> os_opens w)
          | _ \<Rightarrow> None)"

definition log_text :: "files \<Rightarrow> tlog \<Rightarrow> string" where
  "log_text D l = (case D (log_file l) of None \<Rightarrow> [] | Some s \<Rightarrow> s)"

definition Tlog_write :: "os \<Rightarrow> tlog \<Rightarrow> string \<Rightarrow> files \<Rightarrow> files option" where
  "Tlog_write w l str D =
     (if str = [] then Some D
      else map_option (\<lambda>ok. if ok then D(log_file l \<mapsto> log_text D l @ str) else D) (log_open w l))"

definition set_header :: "string \<Rightarrow> tlog \<Rightarrow> tlog" where
  "set_header msg l = l\<lparr>log_head := msg\<rparr>"

section \<open>Cutting the log\<close>

definition COMMENT_INFO :: string where "COMMENT_INFO = ''#ERROR ''"

text \<open>
  The last \<open>sz\<close> bytes of the file are searched for the marker with \<open>strstr\<close>, which reads up to
  a zero byte, and \<open>sz\<close> bytes from the marker on are written back: both read on behind the
  buffer.
\<close>

definition cut_size :: nat where "cut_size = 1536"

definition kept_text :: "string \<Rightarrow> string \<Rightarrow> string" where
  "kept_text behind old =
     (if length old < cut_size then []
      else let b = drop (length old - cut_size) old in
           case find_sub COMMENT_INFO (takeWhile (\<lambda>c. c \<noteq> CHR 0x00) (b @ behind)) of
             None \<Rightarrow> []
           | Some i \<Rightarrow> take cut_size (drop i (b @ behind)))"

definition check_log_size :: "os \<Rightarrow> tlog \<Rightarrow> int \<Rightarrow> files \<Rightarrow> files option" where
  "check_log_size w l fsize D =
     (if fsize = 0 then Some D
      else
        case D (log_file l) of
          None \<Rightarrow> Some D
        | Some old \<Rightarrow>
            if int (length old) < fsize then Some D
            else if log_open w l \<noteq> Some True then None
            else Some (D(log_file l \<mapsto> log_head l @ kept_text (os_behind w) old)))"

text \<open>\<open>TInfoLog::write\<close>, \<open>write_info\<close> and \<open>write_marker\<close>.\<close>

definition info_write :: "os \<Rightarrow> tlog \<Rightarrow> string \<Rightarrow> files \<Rightarrow> files option" where
  "info_write w l str D =
     (case check_log_size w l (log_size l) D of None \<Rightarrow> None | Some D' \<Rightarrow> Tlog_write w l str D')"

definition write_info :: "os \<Rightarrow> tlog \<Rightarrow> string \<Rightarrow> files \<Rightarrow> files option" where
  "write_info w l msg D = info_write w l (COMMENT_INFO @ msg) D"

definition write_marker :: "os \<Rightarrow> tlog \<Rightarrow> string \<Rightarrow> files \<Rightarrow> files option" where
  "write_marker w l msg D = info_write w l (info_marker l @ '' '' @ msg) D"

text \<open>\<open>ctime_r\<close> gives 24 characters and a newline, which becomes a colon; \<open>stime\<close> has the 24.\<close>

definition write_log :: "os \<Rightarrow> tlog option \<Rightarrow> string \<Rightarrow> string \<Rightarrow> files \<Rightarrow> files option" where
  "write_log w l stime msg D =
     (case l of
        None \<Rightarrow> Some D
      | Some l' \<Rightarrow> if msg = [] then Some D else info_write w l' (stime @ '':'' @ ''  '' @ msg) D)"

definition write_log_at :: "os \<Rightarrow> tlog option \<Rightarrow> int \<Rightarrow> string \<Rightarrow> string \<Rightarrow> int \<Rightarrow> files \<Rightarrow> files option" where
  "write_log_at w l level stime msg lev D =
     (if l \<noteq> None \<and> lev \<ge> level then write_log w l stime msg D else Some D)"

definition set_log_name :: "tlog \<Rightarrow> tlog" where
  "set_log_name l =
     l\<lparr>log_file := log_path l @ (if log_path l \<noteq> [] \<and> last (log_path l) = CHR ''/'' then [] else ''/'') @
         GetSubPath (channel_id l) @ ''/'' @ [channel_type l] @ show_int (channel_id l) @ ''.log''\<rparr>"

section \<open>The log of starts\<close>

definition write_arg :: "os \<Rightarrow> tlog option \<Rightarrow> string \<Rightarrow> string \<Rightarrow> files \<Rightarrow> files option" where
  "write_arg w l stime str D =
     (case l of None \<Rightarrow> Some D
      | Some l' \<Rightarrow> if str = [] then Some D
          else Tlog_write w l' (stime @ '' '' @ '' 1 '' @ ''It isn't enough arguments: '' @ str @ [nl]) D)"

definition write_started :: "os \<Rightarrow> tlog option \<Rightarrow> string \<Rightarrow> string \<Rightarrow> files \<Rightarrow> files option" where
  "write_started w l stime str D =
     (case l of None \<Rightarrow> Some D
      | Some l' \<Rightarrow> if str = [] then Some D
          else Tlog_write w l' (stime @ '' '' @ '' Channel '' @ str @ '' is already started'' @ [nl]) D)"

definition write_cgf :: "os \<Rightarrow> tlog option \<Rightarrow> string \<Rightarrow> string \<Rightarrow> files \<Rightarrow> files option" where
  "write_cgf w l stime str D =
     (case l of None \<Rightarrow> Some D
      | Some l' \<Rightarrow> if str = [] then Some D
          else Tlog_write w l' (stime @ '' '' @ '' 3 '' @ ''Configuration file '' @ str @ '' not found!'' @ [nl]) D)"

section \<open>The titles\<close>

text \<open>
  \<open>localtime\<close> fills one buffer and returns its address each time. \<open>check_log_date\<close> calls it
  for the time of now and then for that of the file; both pointers are read after that. The state
  is what the buffer holds; the argument \<open>filetime\<close> is missing when there is no file.
\<close>

definition localtime :: "tm \<Rightarrow> tm \<Rightarrow> tm" where
  "localtime t buffer = t"

definition check_log_date :: "tm \<Rightarrow> tm option \<Rightarrow> tm \<Rightarrow> bool \<times> tm" where
  "check_log_date now filetime buffer0 =
     (case filetime of
        None \<Rightarrow> (False, buffer0)
      | Some ft \<Rightarrow>
          let buffer1 = localtime now buffer0;
              buffer2 = localtime ft buffer1;
              timeinfo = buffer2; fileinfo = buffer2
          in (tm_mon timeinfo \<noteq> tm_mon fileinfo \<or> tm_year timeinfo \<noteq> tm_year fileinfo, buffer2))"

text \<open>\<open>strftime\<close> with \<open>%y%m\<close>.\<close>

definition two_digits :: "int \<Rightarrow> string" where
  "two_digits i = (if i < 10 then ''0'' else []) @ show_int i"

definition year_month :: "tm \<Rightarrow> string" where
  "year_month t = two_digits ((tm_year t) mod 100) @ two_digits (tm_mon t + 1)"

definition titr_log_name :: "tm \<Rightarrow> tlog \<Rightarrow> tlog" where
  "titr_log_name t l =
     l\<lparr>log_file := log_path l @ (if log_path l \<noteq> [] \<and> last (log_path l) = CHR ''/'' then [] else ''/'') @
         GetSubPath (channel_id l) @ ''/t'' @ [channel_type l] @ show_int (channel_id l) @ ''_'' @
         year_month t @ ''.log''\<rparr>"

definition titr_write ::
  "os \<Rightarrow> tm \<Rightarrow> tm option \<Rightarrow> tm \<Rightarrow> tlog \<Rightarrow> string \<Rightarrow> files \<Rightarrow> (tlog \<times> files) option" where
  "titr_write w now filetime buffer l str D =
     (let (changed, timeinfo) = check_log_date now filetime buffer;
          l' = (if changed then titr_log_name timeinfo l else l)
      in map_option (\<lambda>D'. (l', D')) (Tlog_write w l' str D))"

text \<open>
  \<open>write_comment\<close> puts the marker in front of every line. The loop works on positions: \<open>find\<close>
  from \<open>pos\<close>, and \<open>insert\<close> behind the newline.
\<close>

definition COMMENT_MARKER :: string where "COMMENT_MARKER = [CHR ''#'', CHR 0x09]"

definition find_nl :: "nat \<Rightarrow> string \<Rightarrow> nat option" where
  "find_nl pos s = map_option (\<lambda>i. pos + i) (find_chr nl (drop pos s))"

lemma find_nl_Some:
  assumes "find_nl from s = Some pos"
  shows "\<exists>u v. drop from s = u @ nl # v \<and> nl \<notin> set u \<and> pos = from + length u \<and> v = drop (pos + 1) s"
proof -
  obtain i where i: "find_chr nl (drop from s) = Some i" "pos = from + i"
    using assms by (auto simp: find_nl_def)
  let ?d = "drop from s"
  have d: "i < length ?d" "?d ! i = nl" "nl \<notin> set (take i ?d)" using find_chr_Some [OF i(1)] by auto
  have "?d = take i ?d @ nl # drop (Suc i) ?d" using id_take_nth_drop [OF d(1)] d(2) by simp
  moreover have "drop (Suc i) ?d = drop (pos + 1) s" using i(2) by (simp add: add.commute)
  moreover have "pos = from + length (take i ?d)" using i(2) d(1) by simp
  ultimately show ?thesis using d(3) by metis
qed

function mark_loop :: "string \<Rightarrow> nat \<Rightarrow> string" where
  "mark_loop ss from =
     (case find_nl from ss of
        None \<Rightarrow> ss
      | Some pos \<Rightarrow>
          if pos < length ss - 1
          then mark_loop (take (pos + 1) ss @ COMMENT_MARKER @ drop (pos + 1) ss)
                 (pos + length COMMENT_MARKER)
          else ss)"
  by auto
termination
proof (relation "measure (\<lambda>(ss, from). length (filter ((=) nl) (drop from ss)))")
  fix ss :: string and "from" pos :: nat
  assume "find_nl from ss = Some pos" "pos < length ss - 1"
  then obtain u v where d: "drop from ss = u @ nl # v" "v = drop (pos + 1) ss"
    using find_nl_Some by blast
  have "drop (pos + length COMMENT_MARKER) (take (pos + 1) ss @ COMMENT_MARKER @ drop (pos + 1) ss)
      = CHR 0x09 # v"
    using \<open>pos < length ss - 1\<close> d(2) by (simp add: COMMENT_MARKER_def)
  then have "length (filter ((=) nl) (drop (pos + length COMMENT_MARKER)
        (take (pos + 1) ss @ COMMENT_MARKER @ drop (pos + 1) ss)))
      < length (filter ((=) nl) (drop from ss))"
    unfolding d(1) by (simp only:) (simp add: nl_def)
  then show "((take (pos + 1) ss @ COMMENT_MARKER @ drop (pos + 1) ss, pos + length COMMENT_MARKER), ss, from)
      \<in> measure (\<lambda>(ss, from). length (filter ((=) nl) (drop from ss)))"
    by (simp only: in_measure prod.case)
qed simp

declare mark_loop.simps [simp del]

definition write_comment ::
  "os \<Rightarrow> tm \<Rightarrow> tm option \<Rightarrow> tm \<Rightarrow> string \<Rightarrow> tlog \<Rightarrow> string \<Rightarrow> files \<Rightarrow> (tlog \<times> files) option" where
  "write_comment w now filetime buffer stime l msg D =
     titr_write w now filetime buffer l
       (mark_loop (COMMENT_MARKER @ stime @ '':'' @ ''  '' @ msg) 0) D"

section \<open>The marks\<close>

text \<open>What the loop is meant to do: a marker behind every newline but one at the end.\<close>

fun mark_lines :: "string \<Rightarrow> string" where
  "mark_lines [] = []"
| "mark_lines (c # s) = (if c = nl \<and> s \<noteq> [] then c # COMMENT_MARKER @ mark_lines s else c # mark_lines s)"

lemma mark_lines_skip: "nl \<notin> set u \<Longrightarrow> mark_lines (u @ s) = u @ mark_lines s"
  by (induction u) auto

lemma mark_loop_lines: "mark_loop (p @ s) (length p) = p @ mark_lines s"
proof (induction "length (filter ((=) nl) s)" arbitrary: p s rule: less_induct)
  case less
  show ?case
  proof (cases "find_chr nl s")
    case None
    then have "nl \<notin> set s" by (simp add: find_chr_None)
    then have "mark_lines s = s" using mark_lines_skip [of s "[]"] by simp
    then show ?thesis using None by (subst mark_loop.simps) (simp add: find_nl_def)
  next
    case (Some i)
    then have f: "find_nl (length p) (p @ s) = Some (length p + i)" by (simp add: find_nl_def)
    obtain u v where s: "s = u @ nl # v" "nl \<notin> set u" "i = length u"
      using find_nl_Some [OF f] by auto
    show ?thesis
    proof (cases "v = []")
      case True
      then have "mark_lines s = s" using s mark_lines_skip [of u "[nl]"] by simp
      then show ?thesis using f s True by (subst mark_loop.simps) simp
    next
      case False
      let ?p = "p @ u @ [nl, CHR ''#'']"
      have "mark_loop (p @ s) (length p) = mark_loop (?p @ CHR 0x09 # v) (length ?p)"
        using f s False by (subst mark_loop.simps) (simp add: COMMENT_MARKER_def)
      also have "\<dots> = ?p @ mark_lines (CHR 0x09 # v)"
        using s by (intro less) (simp add: nl_def)
      also have "\<dots> = p @ mark_lines s"
        using s False mark_lines_skip [OF s(2), of "nl # v"] by (simp add: nl_def COMMENT_MARKER_def)
      finally show ?thesis .
    qed
  qed
qed

lemma mark_lines_prefix: "mark_lines s = a @ nl # b \<Longrightarrow> b \<noteq> [] \<Longrightarrow> prefix COMMENT_MARKER b"
proof (induction s arbitrary: a)
  case (Cons c s)
  show ?case
  proof (cases "c = nl \<and> s \<noteq> []")
    case True
    then have e: "nl # COMMENT_MARKER @ mark_lines s = a @ nl # b" using Cons.prems(1) by simp
    show ?thesis
    proof (cases a)
      case Nil
      then show ?thesis using e by auto
    next
      case (Cons x a')
      then have "COMMENT_MARKER @ mark_lines s = a' @ nl # b" using e by simp
      then obtain a'' where "mark_lines s = a'' @ nl # b"
        by (auto simp: COMMENT_MARKER_def nl_def Cons_eq_append_conv)
      then show ?thesis using Cons.IH Cons.prems(2) by blast
    qed
  next
    case False
    then have e: "c # mark_lines s = a @ nl # b" using Cons.prems(1) by (auto split: if_splits)
    show ?thesis
    proof (cases a)
      case Nil
      then have "s = []" "b = mark_lines s" using e False by auto
      then show ?thesis using Cons.prems(2) by simp
    next
      case (Cons x a')
      then show ?thesis using e Cons.IH Cons.prems(2) by auto
    qed
  qed
qed simp

section \<open>The size\<close>

lemma kept_text_length: "length (kept_text b old) \<le> cut_size"
  by (auto simp: kept_text_def Let_def split: option.splits)

lemma check_log_size_text:
  assumes "check_log_size w l fsize D = Some D'" "fsize \<noteq> 0"
  shows "int (length (log_text D' l)) < fsize \<or> length (log_text D' l) \<le> length (log_head l) + cut_size"
  using assms kept_text_length [of "os_behind w"]
  by (auto simp: check_log_size_def log_text_def split: option.splits if_splits)

lemma Tlog_write_text:
  assumes "Tlog_write w l str D = Some D'"
  shows "log_text D' l = log_text D l \<or> log_text D' l = log_text D l @ str"
  using assms by (auto simp: Tlog_write_def log_text_def split: if_splits)

lemma log_open_behind: "log_open (w\<lparr>os_behind := b\<rparr>) l = log_open w l"
  by (simp add: log_open_def cong: option.case_cong prod.case_cong)

section \<open>Properties\<close>

text \<open>
  C35. The loop that marks comments, which searches and inserts by position, is the plain recursion
  \<open>mark_lines\<close>: in its result every line but the first begins with the marker, and nothing else is changed.
\<close>

theorem comment_marks_lines:
  "mark_loop s 0 = mark_lines s \<and>
   (\<forall>a b. mark_loop s 0 = a @ nl # b \<and> b \<noteq> [] \<longrightarrow> prefix COMMENT_MARKER b)"
  using mark_loop_lines [of "[]" s] mark_lines_prefix [of s] by auto

theorem comment_marks_lines_witness:
  "mark_loop (''ab'' @ [nl] @ ''c'' @ [nl]) 0 = ''ab'' @ [nl] @ COMMENT_MARKER @ ''c'' @ [nl] \<and>
   prefix COMMENT_MARKER (COMMENT_MARKER @ ''c'' @ [nl])"
  using comment_marks_lines [of "''ab'' @ [nl] @ ''c'' @ [nl]"] by (simp add: nl_def)

text \<open>
  The log stays within bounds: after every write it is shorter than the configured size, or than
  the header and 1536 bytes, whichever is more, plus the text written.
\<close>

theorem log_stays_bounded:
  assumes "info_write w l str D = Some D'" "0 < log_size l"
  shows "int (length (log_text D' l)) \<le>
    max (log_size l) (int (length (log_head l) + cut_size)) + int (length str)"
proof -
  obtain E where E: "check_log_size w l (log_size l) D = Some E" "Tlog_write w l str E = Some D'"
    using assms(1) by (auto simp: info_write_def split: option.splits)
  show ?thesis
    using check_log_size_text [OF E(1)] Tlog_write_text [OF E(2)] assms(2) by auto
qed

definition demo_log :: tlog where
  "demo_log = \<lparr>log_file = ''/l/x'', log_head = ''H'', log_path = ''/l'', channel_type = CHR ''a'',
     channel_id = 7, log_size = 3, info_marker = ''$''\<rparr>"

definition demo_os :: os where
  "demo_os = \<lparr>os_mkdir = (\<lambda>_. True), os_opens = True, os_behind = []\<rparr>"

lemma demo_opens: "log_open demo_os demo_log = Some True" by code_simp

theorem log_stays_bounded_witness:
  "\<exists>D'. info_write demo_os demo_log ''new'' [''/l/x'' \<mapsto> ''old''] = Some D' \<and>
    length (log_text D' demo_log) \<le> 1540"
proof -
  have "info_write demo_os demo_log ''new'' [''/l/x'' \<mapsto> ''old''] \<noteq> None"
    using demo_opens
    by (simp add: info_write_def check_log_size_def Tlog_write_def demo_log_def)
  then obtain D' where D': "info_write demo_os demo_log ''new'' [''/l/x'' \<mapsto> ''old''] = Some D'" by blast
  have "0 < log_size demo_log" by (simp add: demo_log_def)
  from log_stays_bounded [OF D' this] D' show ?thesis by (simp add: demo_log_def cut_size_def)
qed

text \<open>
  When a log that has grown too large is cut, as many bytes are written back as were read, but
  from the marker on: as many bytes as stand before the marker come from the memory behind the
  buffer.
\<close>

theorem cut_writes_foreign_memory:
  assumes "D (log_file l) = Some (old @ u @ COMMENT_INFO @ v)"
    and "length (u @ COMMENT_INFO @ v) = cut_size" "find_sub COMMENT_INFO (u @ COMMENT_INFO @ v) = Some (length u)"
    and "CHR 0x00 \<notin> set (u @ COMMENT_INFO @ v)"
    and "log_open w l = Some True" "0 < fsize" "fsize \<le> int (length (old @ u @ COMMENT_INFO @ v))"
    and "length u \<le> length (os_behind w)"
  shows "\<exists>D'. check_log_size w l fsize D = Some D' \<and>
    log_text D' l = log_head l @ COMMENT_INFO @ v @ take (length u) (os_behind w)"
proof -
  let ?b = "u @ COMMENT_INFO @ v"
  let ?z = "takeWhile (\<lambda>c. c \<noteq> CHR 0x00) (os_behind w)"
  have z: "takeWhile (\<lambda>c. c \<noteq> CHR 0x00) (?b @ os_behind w) = ?b @ ?z"
    using assms(4) by (intro takeWhile_append2) auto
  have d: "drop (length (old @ ?b) - cut_size) (old @ ?b) = ?b" using assms(2) by simp
  have "cut_size - (length COMMENT_INFO + length v) = length u"
    "length COMMENT_INFO + length v \<le> cut_size"
    using assms(2) by simp_all
  then have "take cut_size (drop (length u) (?b @ os_behind w)) =
      COMMENT_INFO @ v @ take (length u) (os_behind w)"
    by simp
  then have "kept_text (os_behind w) (old @ ?b) = COMMENT_INFO @ v @ take (length u) (os_behind w)"
    unfolding kept_text_def d Let_def z using find_sub_append [OF assms(3), of ?z] assms(2) by simp
  then show ?thesis
    using assms(1,5-7) by (simp add: check_log_size_def log_text_def)
qed

theorem cut_writes_foreign_memory_witness:
  "\<exists>D'. check_log_size (demo_os\<lparr>os_behind := replicate 1000 CHR ''S''\<rparr>) demo_log 3
      [''/l/x'' \<mapsto> replicate 1000 CHR ''x'' @ COMMENT_INFO @ replicate 529 CHR ''y''] = Some D' \<and>
    log_text D' demo_log = ''H'' @ COMMENT_INFO @ replicate 529 CHR ''y'' @ replicate 1000 CHR ''S''"
proof -
  let ?u = "replicate 1000 CHR ''x''" and ?v = "replicate 529 CHR ''y''"
  let ?w = "demo_os\<lparr>os_behind := replicate 1000 CHR ''S''\<rparr>"
  let ?D = "[''/l/x'' \<mapsto> ?u @ COMMENT_INFO @ ?v]"
  have s: "find_sub COMMENT_INFO (?u @ COMMENT_INFO @ ?v) = Some (length ?u)"
    by (rule find_sub_here) (simp_all add: COMMENT_INFO_def)
  have o: "log_open ?w demo_log = Some True"
    using demo_opens by (simp add: log_open_behind)
  from cut_writes_foreign_memory [where old = "[]" and u = ?u and v = ?v and w = ?w and l = demo_log
      and D = ?D and fsize = 3, OF _ _ s _ o]
  show ?thesis by (simp add: demo_log_def demo_os_def cut_size_def COMMENT_INFO_def)
qed

text \<open>
  The log of titles never turns to a new month: \<open>localtime\<close> gives the same buffer twice, so that
  the month of the file is compared with itself. Whatever the two times are, the name stays.
\<close>

theorem titr_log_never_turns:
  "titr_write w now filetime buffer l str D = map_option (\<lambda>D'. (l, D')) (Tlog_write w l str D)"
  by (simp add: titr_write_def check_log_date_def split: option.splits)

end
