(* ===== verification/LogFile.thy ===== *)
theory LogFile
  imports Text
begin

text \<open>
  \<open>logger/file.cpp\<close> and \<open>logger/abstractfile.cpp\<close>: the log server's files. A message is appended to
  the file of its domain; a file that has grown beyond the limit becomes an archive file with a
  number, the oldest archives are deleted. The disk is a map from a directory to its files, a
  directory a map from names to contents in the order of \<open>alphasort\<close>. Which directories can be
  made and which files opened is the environment \<open>env\<close>.
\<close>

type_synonym dir = "(string, string) smap"
type_synonym disk = "(string, dir) smap"

record env =
  can_mkdir :: "string \<Rightarrow> bool"
  can_open :: "string \<Rightarrow> bool"

section \<open>Names of archive files\<close>

text \<open>
  Positions are \<open>size_type\<close>: \<open>None\<close> is \<open>npos\<close>, and what arithmetic makes of a position below
  zero or of \<open>npos - 1\<close>, all beyond the end of any name.
\<close>

definition pred_pos :: "nat option \<Rightarrow> nat option" where
  "pred_pos v = (case v of Some (Suc n) \<Rightarrow> Some n | _ \<Rightarrow> None)"

text \<open>\<open>GetPos\<close>: the last \<open>c\<close> at or before \<open>n\<close> unless \<open>n\<close> is 0, or else the last of all.\<close>

definition GetPos :: "string \<Rightarrow> char \<Rightarrow> nat option \<Rightarrow> nat option" where
  "GetPos s c n =
     (let value = (case n of Some 0 \<Rightarrow> None
                   | Some m \<Rightarrow> find_last c (take (Suc m) s)
                   | None \<Rightarrow> find_last c s)
      in case value of None \<Rightarrow> find_last c s | Some v \<Rightarrow> Some v)"

definition upto_pos :: "nat option \<Rightarrow> string \<Rightarrow> string" where
  "upto_pos v s = (case v of Some n \<Rightarrow> take n s | None \<Rightarrow> s)"

definition base_of :: "string \<Rightarrow> string" where
  "base_of s = upto_pos (GetPos s CHR ''.'' (pred_pos (GetPos s CHR ''.'' (Some 0)))) s"

text \<open>\<open>substr(pos + 1)\<close>: all of the name when the position is \<open>npos\<close>.\<close>

definition ext_of :: "string \<Rightarrow> string" where
  "ext_of s = (case GetPos s CHR ''.'' (Some 0) of Some v \<Rightarrow> drop (Suc v) s | None \<Rightarrow> s)"

text \<open>The filter of \<open>scandir\<close>: same extension, same text before the last but one dot.\<close>

definition sel :: "string \<Rightarrow> string \<Rightarrow> bool" where
  "sel fileName dname \<longleftrightarrow>
     dname \<noteq> ''.'' \<and> dname \<noteq> ''..'' \<and>
     GetPos fileName CHR ''.'' (Some 0) \<noteq> None \<and> GetPos dname CHR ''.'' (Some 0) \<noteq> None \<and>
     ext_of fileName = ext_of dname \<and> base_of fileName = base_of dname"

text \<open>\<open>%s.%05lu.%s\<close>.\<close>

definition pad5 :: "nat \<Rightarrow> string" where
  "pad5 n = replicate (5 - length (show_nat n)) CHR ''0'' @ show_nat n"

definition archive_name :: "string \<Rightarrow> string \<Rightarrow> nat \<Rightarrow> string" where
  "archive_name base ext n = base @ ''.'' @ pad5 n @ ''.'' @ ext"

section \<open>Rotation\<close>

text \<open>\<open>rename\<close> replaces the target; a name that is gone leaves everything as it is.\<close>

definition rename_in :: "string \<Rightarrow> string \<Rightarrow> dir \<Rightarrow> dir" where
  "rename_in old new d =
     (case map_of d old of None \<Rightarrow> d | Some c \<Rightarrow> smap_put new c (smap_del old d))"

fun rotate_loop :: "string \<Rightarrow> string \<Rightarrow> nat \<Rightarrow> nat \<Rightarrow> string list \<Rightarrow> dir \<Rightarrow> dir" where
  "rotate_loop base ext index i [] d = d"
| "rotate_loop base ext index i (e # es) d =
     rotate_loop base ext index (Suc i) es
       (if i < index then smap_del e d else rename_in e (archive_name base ext (i - index)) d)"

definition RecreateFileList :: "nat \<Rightarrow> string \<Rightarrow> dir \<Rightarrow> dir" where
  "RecreateFileList Max_archive_count fileName d =
     (let entry = filter (sel fileName) (map fst d); n = length entry in
      if n = 0 then d
      else rotate_loop (base_of fileName) (ext_of fileName)
             (if n < Max_archive_count then 0 else n - Max_archive_count) 0 entry d)"

section \<open>Writing\<close>

text \<open>\<open>dirname\<close> and \<open>basename\<close> of a path that does not end in a slash.\<close>

definition path_split :: "string \<Rightarrow> string \<times> string" where
  "path_split s =
     (case find_last CHR ''/'' s of
        None \<Rightarrow> (''.'', s)
      | Some p \<Rightarrow> (if p = 0 then ''/'' else take p s, drop (Suc p) s))"

definition dir_of :: "disk \<Rightarrow> string \<Rightarrow> dir" where
  "dir_of D p = (case map_of D p of Some d \<Rightarrow> d | None \<Rightarrow> [])"

definition content_of :: "dir \<Rightarrow> string \<Rightarrow> string" where
  "content_of d n = (case map_of d n of Some c \<Rightarrow> c | None \<Rightarrow> [])"

text \<open>Opening for append, writing and closing; \<open>None\<close> when the file cannot be opened.\<close>

definition append_file :: "env \<Rightarrow> string \<Rightarrow> string \<Rightarrow> disk \<Rightarrow> disk option" where
  "append_file e ss s D =
     (if \<not> can_open e ss then None
      else let (p, n) = path_split ss; d = dir_of D p
           in Some (smap_put p (smap_put n (content_of d n @ s) d) D))"

record filethread =
  ft_path :: string
  MaxFileSize :: nat
  Max_archive_count :: nat
  local_store :: bool
  msg_list :: "(string, string list) smap"

definition Write :: "env \<Rightarrow> filethread \<Rightarrow> string \<Rightarrow> string \<Rightarrow> disk \<Rightarrow> disk" where
  "Write e ft m_f s D =
     (let ss = ft_path ft @ m_f in
      case append_file e ss s D of
        None \<Rightarrow> D
      | Some D1 \<Rightarrow>
          let (p, n) = path_split ss; d = dir_of D1 p in
          if local_store ft \<and> length (content_of d n) > MaxFileSize ft
          then smap_put p (RecreateFileList (Max_archive_count ft) n d) D1
          else D1)"

text \<open>
  \<open>tabstractfile::MakeDirectory\<close> with a root and a path below it: the directories tried and the
  verdict, \<open>None\<close> where it is not initialised. \<open>errno\<close> of a directory that was there counts as
  success.
\<close>

fun mkdir_below :: "(string \<Rightarrow> bool) \<Rightarrow> string \<Rightarrow> string \<Rightarrow> string \<Rightarrow> bool option \<Rightarrow> bool option" where
  "mkdir_below mk root pre [] mdret = mdret"
| "mkdir_below mk root pre (c # cs) mdret =
     (if c = CHR ''/'' \<and> root @ pre \<noteq> [] then
        (if mk (root @ pre) then mkdir_below mk root (pre @ [c]) cs (Some True) else Some False)
      else mkdir_below mk root (pre @ [c]) cs mdret)"

definition MakeDirectory2 :: "(string \<Rightarrow> bool) \<Rightarrow> string \<Rightarrow> string \<Rightarrow> bool option" where
  "MakeDirectory2 mk sf s =
     (if s = [] \<or> sf = [] \<or> \<not> mk (if last sf \<noteq> CHR ''/'' then sf @ ''/'' else sf) then Some False
      else mkdir_below mk sf [] (if last s \<noteq> CHR ''/'' then s @ ''/'' else s) None)"

definition CheckFileDirectory :: "env \<Rightarrow> filethread \<Rightarrow> string \<Rightarrow> bool" where
  "CheckFileDirectory e ft d = (MakeDirectory2 (can_mkdir e) (ft_path ft) d = Some True)"

text \<open>\<open>RunWork\<close>: all messages of a file in one append, files in the order of their names.\<close>

fun run_work_loop :: "env \<Rightarrow> filethread \<Rightarrow> (string, string list) smap \<Rightarrow> disk \<Rightarrow> disk" where
  "run_work_loop e ft [] D = D"
| "run_work_loop e ft ((m_file, msg) # ms) D =
     run_work_loop e ft ms
       (if CheckFileDirectory e ft (fst (path_split m_file)) \<and> concat msg \<noteq> []
        then Write e ft m_file (concat msg) D else D)"

definition RunWork :: "env \<Rightarrow> filethread \<Rightarrow> disk \<Rightarrow> disk" where
  "RunWork e ft D = (if local_store ft then run_work_loop e ft (msg_list ft) D else D)"

section \<open>Deleting\<close>

text \<open>The pieces of a message between semicolons.\<close>

function split_semi :: "string \<Rightarrow> string list" where
  "split_semi str =
     (case find_chr CHR '';'' str of
        None \<Rightarrow> [str]
      | Some pos \<Rightarrow> take pos str # split_semi (drop (Suc pos) str))"
  by auto
termination
  by (relation "measure length") (auto dest!: find_chr_Some)

declare split_semi.simps [simp del]

definition delete_path :: "filethread \<Rightarrow> string \<Rightarrow> string \<Rightarrow> string" where
  "delete_path ft m_domain s =
     ft_path ft @ m_domain @ (if hd s \<noteq> CHR ''/'' then CHR ''/'' # s else s)"

text \<open>The list \<open>TryToDeleteFile\<close> makes, in the order in which it is then worked off.\<close>

definition ListFile :: "filethread \<Rightarrow> string list" where
  "ListFile ft =
     concat (map (\<lambda>(m_domain, msg).
       map (delete_path ft m_domain) (filter (\<lambda>s. s \<noteq> []) (concat (map split_semi msg))))
       (msg_list ft))"

text \<open>\<open>FileDelete\<close>: the path is made absolute unless it starts with a dot; \<open>unlink\<close> of the file.\<close>

definition FileDelete :: "string \<Rightarrow> disk \<Rightarrow> disk" where
  "FileDelete f D =
     (let f' = (if hd f \<noteq> CHR ''/'' \<and> hd f \<noteq> CHR ''.'' then CHR ''/'' # f else f);
          (p, n) = path_split f'
      in case map_of D p of None \<Rightarrow> D | Some d \<Rightarrow> smap_put p (smap_del n d) D)"

definition TryToDeleteFile :: "filethread \<Rightarrow> disk \<Rightarrow> disk" where
  "TryToDeleteFile ft D = fold FileDelete (filter (\<lambda>s. s \<noteq> []) (ListFile ft)) D"

text \<open>\<open>RunLocal\<close>: the messages kept for the remote server, one after the other in one file.\<close>

definition RunLocal :: "env \<Rightarrow> string \<Rightarrow> string list \<Rightarrow> disk \<Rightarrow> disk" where
  "RunLocal e default_path ml D =
     (case append_file e default_path (concat ml) D of Some D' \<Rightarrow> D' | None \<Rightarrow> D)"

text \<open>\<open>GetLocalMsgList\<close>: the lines of that file.\<close>

fun lines_of :: "string \<Rightarrow> string \<Rightarrow> string list" where
  "lines_of cur [] = (if cur = [] then [] else [rev cur])"
| "lines_of cur (c # cs) = (if c = CHR 0x0A then rev cur # lines_of [] cs else lines_of (c # cur) cs)"

definition GetLocalMsgList :: "string \<Rightarrow> disk \<Rightarrow> string list" where
  "GetLocalMsgList default_path D =
     (let (p, n) = path_split default_path in lines_of [] (content_of (dir_of D p) n))"

section \<open>Facts\<close>

lemma digits_val_zeros: "digits_val 0 (replicate n CHR ''0'' @ s) = digits_val 0 s"
  by (induction n) (auto simp: c_isdigit_def code_def)

lemma pad5_inject: "pad5 m = pad5 n \<longleftrightarrow> m = n"
proof
  assume "pad5 m = pad5 n"
  then have "digits_val 0 (pad5 m) = digits_val 0 (pad5 n)" by simp
  then show "m = n" by (simp add: pad5_def digits_val_zeros digits_val_show_nat)
qed simp

lemma pad5_nonempty: "pad5 n \<noteq> []"
  by (simp add: pad5_def)

lemma archive_name_inject: "archive_name base ext m = archive_name base ext n \<longleftrightarrow> m = n"
  by (simp add: archive_name_def pad5_inject)

text \<open>
  The state of the directory when the first \<open>i\<close> entries have been worked off, \<open>D\<close> being the
  directory before.
\<close>

definition rotated ::
  "string \<Rightarrow> string \<Rightarrow> nat \<Rightarrow> string list \<Rightarrow> dir \<Rightarrow> nat \<Rightarrow> dir \<Rightarrow> bool" where
  "rotated base ext index es D i d \<longleftrightarrow>
     (\<forall>j. j + index < i \<longrightarrow> map_of d (archive_name base ext j) = map_of D (es ! (j + index))) \<and>
     (\<forall>x. (\<forall>j. j + index < i \<longrightarrow> x \<noteq> archive_name base ext j) \<longrightarrow>
        map_of d x = (if x \<in> set (take i es) then None else map_of D x))"

lemma rotated_step:
  assumes r: "rotated base ext index es D i d" and i: "i < length es"
    and dist: "distinct es" and D: "set es \<subseteq> dom (map_of D)"
    and names: "\<And>j. j < i \<Longrightarrow> es ! i \<noteq> archive_name base ext j"
  shows "rotated base ext index es D (Suc i)
    (if i < index then smap_del (es ! i) d
     else rename_in (es ! i) (archive_name base ext (i - index)) d)"
proof -
  have tk: "set (take (Suc i) es) = insert (es ! i) (set (take i es))"
    using i by (simp add: take_Suc_conv_app_nth)
  show ?thesis
  proof (cases "i < index")
    case True
    then show ?thesis
      using r by (auto simp: rotated_def map_of_smap_del tk)
  next
    case False
    have "es ! i \<notin> set (take i es)"
      using dist i by (auto simp: in_set_conv_nth nth_eq_iff_index_eq)
    moreover have "\<forall>j. j + index < i \<longrightarrow> es ! i \<noteq> archive_name base ext j"
      using names by auto
    ultimately have e: "map_of d (es ! i) = map_of D (es ! i)"
      using r by (auto simp: rotated_def)
    obtain c where c: "map_of D (es ! i) = Some c" using D i by (meson domD nth_mem subsetD)
    have ren: "map_of (rename_in (es ! i) (archive_name base ext (i - index)) d) =
        (map_of d)(es ! i := None, archive_name base ext (i - index) := Some c)"
      using e c by (simp add: rename_in_def map_of_smap_put map_of_smap_del)
    have k: "j + index < Suc i \<longleftrightarrow> j + index < i \<or> j = i - index" for j using False by auto
    show ?thesis
      unfolding rotated_def
    proof (intro conjI allI impI)
      fix j assume j: "j + index < Suc i"
      show "map_of (if i < index then smap_del (es ! i) d
          else rename_in (es ! i) (archive_name base ext (i - index)) d) (archive_name base ext j)
        = map_of D (es ! (j + index))"
      proof (cases "j = i - index")
        case True then show ?thesis using ren False c by simp
      next
        case ne: False
        then have "j + index < i" "j < i" using j k by auto
        then show ?thesis using ren False r names [of j] ne
          by (auto simp: rotated_def archive_name_inject)
      qed
    next
      fix x assume x: "\<forall>j. j + index < Suc i \<longrightarrow> x \<noteq> archive_name base ext j"
      then have "x \<noteq> archive_name base ext (i - index)"
        "\<forall>j. j + index < i \<longrightarrow> x \<noteq> archive_name base ext j" using k by blast+
      then show "map_of (if i < index then smap_del (es ! i) d
          else rename_in (es ! i) (archive_name base ext (i - index)) d) x
        = (if x \<in> set (take (Suc i) es) then None else map_of D x)"
        using ren False r by (auto simp: rotated_def tk)
    qed
  qed
qed

lemma rotate_loop_rotated:
  assumes "rotated base ext index es D i d" "i \<le> length es"
    and "distinct es" "set es \<subseteq> dom (map_of D)"
    and "\<And>i j. i < length es \<Longrightarrow> j < i \<Longrightarrow> es ! i \<noteq> archive_name base ext j"
  shows "rotated base ext index es D (length es) (rotate_loop base ext index i (drop i es) d)"
  using assms(1,2)
proof (induction "length es - i" arbitrary: i d)
  case 0
  then show ?case by simp
next
  case (Suc n)
  then have i: "i < length es" by simp
  then have "drop i es = es ! i # drop (Suc i) es" by (simp add: Cons_nth_drop_Suc)
  then show ?case
    using Suc.hyps(1) [OF _ rotated_step [OF Suc.prems(1) i assms(3,4,5)]] Suc.hyps(2) i
    by simp
qed

section \<open>Properties\<close>

text \<open>The archive names of a file.\<close>

definition archive :: "string \<Rightarrow> nat \<Rightarrow> string" where
  "archive f = archive_name (base_of f) (ext_of f)"

definition demo_dir :: dir where
  "demo_dir = [(''app.00000.log'', ''a''), (''app.00001.log'', ''b''), (''app.log'', ''c''),
      (''other.log'', ''z'')]"

lemma demo_dir_ok:
  "smap_ok demo_dir"
  "filter (sel ''app.log'') (map fst demo_dir) = map (archive ''app.log'') [0..<2] @ [''app.log'']"
  "''app.log'' \<notin> range (archive ''app.log'')" "''other.log'' \<notin> range (archive ''app.log'')"
  "archive ''app.log'' 0 = ''app.00000.log''" "archive ''app.log'' 1 = ''app.00001.log''"
proof -
  have b: "base_of ''app.log'' = ''app''" "ext_of ''app.log'' = ''log''" by code_simp+
  then have a: "archive ''app.log'' = archive_name ''app'' ''log''" by (simp add: archive_def)
  have l: "length (archive_name ''app'' ''log'' j) > 8" for j
    using pad5_nonempty [of j] by (simp add: archive_name_def pad5_def)
  show "smap_ok demo_dir" by code_simp
  have "''app.log'' \<noteq> archive_name ''app'' ''log'' j" for j
  proof
    assume *: "''app.log'' = archive_name ''app'' ''log'' j"
    show False using l [of j] unfolding * [symmetric] by simp
  qed
  then show "''app.log'' \<notin> range (archive ''app.log'')" by (auto simp: a)
  show "''other.log'' \<notin> range (archive ''app.log'')" by (auto simp: a archive_name_def)
  show "archive ''app.log'' 0 = ''app.00000.log''" "archive ''app.log'' 1 = ''app.00001.log''"
    unfolding a by code_simp+
  show "filter (sel ''app.log'') (map fst demo_dir) = map (archive ''app.log'') [0..<2] @ [''app.log'']"
    unfolding a by code_simp
qed

text \<open>
  C22. Rotation keeps the newest files: in a directory with the archives 0 to \<open>m - 1\<close> and the
  active file, of these \<open>m + 1\<close> files the last \<open>Max_archive_count\<close> keep their contents, in the
  order of time under the numbers from 0, the older ones are gone, the active name is free, and
  no other file is touched.
\<close>

theorem rotation_keeps_newest:
  assumes "smap_ok d" and entries: "filter (sel f) (map fst d) = map (archive f) [0..<m] @ [f]"
    and f: "f \<notin> range (archive f)"
  shows "(\<forall>j < Suc m - (Suc m - mx). map_of (RecreateFileList mx f d) (archive f j) =
        map_of d ((map (archive f) [0..<m] @ [f]) ! (j + (Suc m - mx)))) \<and>
    map_of (RecreateFileList mx f d) f = None \<and>
    (\<forall>j. Suc m - (Suc m - mx) \<le> j \<and> j < m \<longrightarrow> map_of (RecreateFileList mx f d) (archive f j) = None) \<and>
    (\<forall>x. x \<notin> range (archive f) \<union> {f} \<longrightarrow> map_of (RecreateFileList mx f d) x = map_of d x)"
proof -
  define es where "es = map (archive f) [0..<m] @ [f]"
  have n: "length es = Suc m" by (simp add: es_def)
  have dist: "distinct es" unfolding es_def entries [symmetric]
    using smap_ok_distinct [OF assms(1)] by (rule distinct_filter)
  have sub: "set es \<subseteq> dom (map_of d)"
    unfolding es_def entries [symmetric] by (auto simp: dom_map_of_conv_image_fst)
  have nm: "es ! i \<noteq> archive_name (base_of f) (ext_of f) j" if "i < length es" "j < i" for i j
    using that f archive_name_inject [of "base_of f" "ext_of f"]
    by (cases "i = m") (auto simp: es_def archive_def nth_append)
  have "rotated (base_of f) (ext_of f) (Suc m - mx) es d 0 d" by (simp add: rotated_def)
  from rotate_loop_rotated [OF this _ dist sub nm]
  have "rotated (base_of f) (ext_of f) (Suc m - mx) es d (Suc m) (RecreateFileList mx f d)"
    using entries n by (cases "Suc m < mx") (simp_all add: RecreateFileList_def es_def)
  then have fin: "rotated (base_of f) (ext_of f) (Suc m - mx) es d (Suc m) (RecreateFileList mx f d)"
    by simp
  have 1: "map_of (RecreateFileList mx f d) (archive f j) = map_of d (es ! (j + (Suc m - mx)))"
    if "j + (Suc m - mx) < Suc m" for j
    using fin that by (simp add: rotated_def archive_def)
  have 2: "map_of (RecreateFileList mx f d) x = (if x \<in> set es then None else map_of d x)"
    if "\<forall>j. j + (Suc m - mx) < Suc m \<longrightarrow> x \<noteq> archive f j" for x
    using fin that n by (simp add: rotated_def archive_def)
  have a_inj: "archive f i = archive f j \<longleftrightarrow> i = j" for i j by (simp add: archive_def archive_name_inject)
  show ?thesis
  proof (intro conjI allI impI)
    fix j assume "j < Suc m - (Suc m - mx)"
    then show "map_of (RecreateFileList mx f d) (archive f j) =
        map_of d ((map (archive f) [0..<m] @ [f]) ! (j + (Suc m - mx)))"
      using 1 [of j] by (simp add: es_def)
  next
    show "map_of (RecreateFileList mx f d) f = None"
      using 2 [of f] f by (auto simp: es_def)
  next
    fix j assume j: "Suc m - (Suc m - mx) \<le> j \<and> j < m"
    then have "archive f j \<in> set es" by (simp add: es_def)
    moreover have "archive f j \<noteq> archive f k" if "k + (Suc m - mx) < Suc m" for k
      using that j unfolding a_inj by linarith
    ultimately show "map_of (RecreateFileList mx f d) (archive f j) = None"
      using 2 [of "archive f j"] by simp
  next
    fix x assume "x \<notin> range (archive f) \<union> {f}"
    then have "\<And>j. x \<noteq> archive f j" "x \<noteq> f" by auto
    then show "map_of (RecreateFileList mx f d) x = map_of d x"
      using 2 [of x] by (auto simp: es_def)
  qed
qed

theorem rotation_keeps_newest_witness:
  "map_of (RecreateFileList 2 ''app.log'' demo_dir) ''app.00001.log'' = Some ''c'' \<and>
    map_of (RecreateFileList 2 ''app.log'' demo_dir) ''app.log'' = None \<and>
    map_of (RecreateFileList 2 ''app.log'' demo_dir) ''other.log'' = Some ''z''"
proof -
  note r = rotation_keeps_newest [OF demo_dir_ok(1,2,3), of 2]
  have u: "[0..<2] = [0, 1 :: nat]" by (simp add: upt_rec)
  have "map_of (RecreateFileList 2 ''app.log'' demo_dir) (archive ''app.log'' 1) =
      map_of demo_dir ''app.log''"
    using conjunct1 [OF r, rule_format, of 1] unfolding u by simp
  moreover have "map_of (RecreateFileList 2 ''app.log'' demo_dir) ''other.log'' =
      map_of demo_dir ''other.log''"
    using r demo_dir_ok(4) by (simp del: One_nat_def)
  moreover have "map_of demo_dir ''app.log'' = Some ''c''" "map_of demo_dir ''other.log'' = Some ''z''"
    by (simp_all add: demo_dir_def)
  ultimately show ?thesis using conjunct1 [OF conjunct2 [OF r]] demo_dir_ok(6) by simp
qed

text \<open>
  The filter takes over foreign files: names that agree up to their last but one dot and in
  their extension are one family, so rotating one log renames another one with a dotted name
  into its archive.
\<close>

theorem rotation_takes_foreign_log:
  "RecreateFileList 10 ''a.b.log'' [(''a.b.log'', ''own''), (''a.c.log'', ''foreign'')] =
     [(''a.00000.log'', ''own''), (''a.00001.log'', ''foreign'')]"
  by code_simp

end
