(* ===== verification/LogMsg.thy ===== *)
theory LogMsg
  imports LogFile
begin

text \<open>
  \<open>logger/tlogmsg.cpp\<close> and \<open>logger/clientmessage.cpp\<close>: a message as the server receives it, the
  list in which messages wait, and the thread that writes them to the files or deletes files for
  them. \<open>AddMessage\<close> runs in a thread per client under the list's mutex, as does the moment in
  which the message thread takes the list; so the steps of the model are these two. A signal to
  a thread is an element of its queue.
\<close>

section \<open>One message\<close>

datatype event = evEmpty | evMsg | evDelete | evConfig | evExit | evError

definition OK_HEADER :: nat where "OK_HEADER = 0"
definition ERROR_EMPTY_DOMAIN :: nat where "ERROR_EMPTY_DOMAIN = 1"
definition ERROR_EMPTY_FILENAME :: nat where "ERROR_EMPTY_FILENAME = 2"
definition ERROR_EMPTY_MESSAGE :: nat where "ERROR_EMPTY_MESSAGE = 4"
definition ERROR_EMPTY_COMMAND :: nat where "ERROR_EMPTY_COMMAND = 8"
definition ERROR_EMPTY_STRING :: nat where "ERROR_EMPTY_STRING = 15"
definition ERROR_DATA_TYPE :: nat where "ERROR_DATA_TYPE = 32"

type_synonym tdata_map = "(string, string) smap"

record tlogmsg =
  DM :: tdata_map
  m_string :: string
  m_domain :: string
  m_filename :: string
  m_cmd :: string
  m_msg :: string
  m_ierror :: int
  m_ErrorHeadersValue :: nat
  m_Event :: event

text \<open>\<open>CheckLoggerData\<close> looks only whether the headers are there.\<close>

definition CheckLoggerData :: "tdata_map \<Rightarrow> nat" where
  "CheckLoggerData dm =
     (if map_of dm ''message'' = None \<and> map_of dm ''command'' = None
      then ERROR_EMPTY_MESSAGE + ERROR_EMPTY_COMMAND
      else if map_of dm ''message'' \<noteq> None then
        (if map_of dm ''domain'' = None then ERROR_EMPTY_DOMAIN else 0) +
        (if map_of dm ''filename'' = None then ERROR_EMPTY_FILENAME else 0)
      else OK_HEADER)"

definition TLogMsg_new :: "tdata_map \<Rightarrow> string \<Rightarrow> tlogmsg" where
  "TLogMsg_new dm str =
     \<lparr>DM = dm, m_string = str, m_domain = [], m_filename = [], m_cmd = [], m_msg = [],
      m_ierror = 0,
      m_ErrorHeadersValue =
        (if dm = [] then ERROR_EMPTY_STRING
         else case map_of dm ''data_type'' of
                None \<Rightarrow> ERROR_DATA_TYPE
              | Some s \<Rightarrow> if s = ''logger'' then CheckLoggerData dm else 0),
      m_Event = evEmpty\<rparr>"

definition header_of :: "tdata_map \<Rightarrow> string \<Rightarrow> string" where
  "header_of dm k = (case map_of dm k of Some v \<Rightarrow> v | None \<Rightarrow> [])"

definition GetHeadersValue :: "tlogmsg \<Rightarrow> nat" where
  "GetHeadersValue m =
     (if m_msg m = [] \<and> m_cmd m = [] then ERROR_EMPTY_MESSAGE + ERROR_EMPTY_COMMAND
      else if m_msg m \<noteq> [] then
        (if m_domain m = [] then ERROR_EMPTY_DOMAIN else 0) +
        (if m_filename m = [] then ERROR_EMPTY_FILENAME else 0)
      else OK_HEADER)"

definition SetEvent :: "string \<Rightarrow> event" where
  "SetEvent ev0 =
     (let ev = map c_toupper ev0 in
      if ev = [] then evMsg
      else if ev = ''DELETE'' then evDelete
      else if ev = ''RECONFIG'' then evConfig
      else if ev = ''EXIT'' then evExit
      else evEmpty)"

definition ParseData :: "tlogmsg \<Rightarrow> tlogmsg" where
  "ParseData m =
     (let err = header_of (DM m) ''error'';
          m1 = m\<lparr>m_domain := header_of (DM m) ''domain'', m_cmd := header_of (DM m) ''command'',
                 m_filename := header_of (DM m) ''filename'', m_msg := header_of (DM m) ''message'',
                 m_ierror := (if err = [] then 0 else c_atoi err)\<rparr>
      in m1\<lparr>m_ErrorHeadersValue := GetHeadersValue m1, m_Event := SetEvent (m_cmd m1)\<rparr>)"

definition newline :: string where "newline = [CHR 0x0A]"

definition msg :: "tlogmsg \<Rightarrow> string" where "msg m = m_msg m @ newline"
definition filename :: "tlogmsg \<Rightarrow> string" where "filename m = m_filename m"
definition fullfilename :: "tlogmsg \<Rightarrow> string" where "fullfilename m = m_filename m"

text \<open>\<open>Message()\<close> appends to the stored text each time it is called.\<close>

definition Message :: "tlogmsg \<Rightarrow> string \<times> tlogmsg" where
  "Message m = (let s = m_string m @ newline in (s, m\<lparr>m_string := s\<rparr>))"

definition FilePath :: "tlogmsg \<Rightarrow> string" where
  "FilePath m =
     (let f = m_filename m;
          str = (case find_last CHR ''/'' f of
                   None \<Rightarrow> []
                 | Some v \<Rightarrow>
                     let s = take v f in
                     if s \<noteq> [] \<and> hd s = CHR ''/''
                     then (case find_chr CHR ''/'' f of Some w \<Rightarrow> drop (Suc w) s | None \<Rightarrow> s)
                     else s);
          str' = (if str \<noteq> [] then str @ ''/'' else str)
      in m_domain m @ ''/'' @ str')"

definition GlobalFileName :: "tlogmsg \<Rightarrow> string" where
  "GlobalFileName m = FilePath m @ filename m"

section \<open>The list of waiting messages\<close>

type_synonym mmessagelist = "(string, string list) smap"

record tclientmessage =
  message_list :: mmessagelist
  MaxStoreListSize :: nat
  local_category :: bool
  ErrorLevel :: nat
  m_cmd_event :: event
  FTransmitFromLocalLog :: bool

datatype signal =
    ToMessage event
  | ToRemote event
  | ToErrorMonitor int string string
  | Terminate

text \<open>The constructor cuts the list size to 16 bits.\<close>

definition TClientMessage_new :: "bool \<Rightarrow> nat \<Rightarrow> nat \<Rightarrow> tclientmessage" where
  "TClientMessage_new loc maxStoreListSize lvl =
     \<lparr>message_list = [], MaxStoreListSize = maxStoreListSize mod 65536, local_category = loc,
      ErrorLevel = lvl, m_cmd_event = evEmpty, FTransmitFromLocalLog = False\<rparr>"

definition get_messagelist_size :: "mmessagelist \<Rightarrow> nat" where
  "get_messagelist_size ml = sum_list (map (\<lambda>(k, v). length v) ml)"

definition push_message :: "string \<Rightarrow> string \<Rightarrow> mmessagelist \<Rightarrow> mmessagelist" where
  "push_message k s ml =
     smap_put k ((case map_of ml k of Some v \<Rightarrow> v | None \<Rightarrow> []) @ [s]) ml"

definition OnReadyTransmitMessage :: "tclientmessage \<Rightarrow> signal list" where
  "OnReadyTransmitMessage c =
     (if get_messagelist_size (message_list c) < MaxStoreListSize c then []
      else if local_category c then [ToMessage evMsg] else [ToRemote evMsg])"

definition AddMessage :: "tclientmessage \<Rightarrow> tlogmsg \<Rightarrow> tclientmessage \<times> signal list" where
  "AddMessage c0 m0 =
     (let c = c0\<lparr>m_cmd_event := evEmpty\<rparr>; m = ParseData m0 in
      case m_Event m of
        evMsg \<Rightarrow>
          let text = (if local_category c then msg m else fst (Message m));
              m' = (if local_category c then m else snd (Message m));
              c1 = c\<lparr>message_list := push_message (GlobalFileName m) text (message_list c)\<rparr>;
              err = (if local_category c \<and> 0 < ErrorLevel c \<and>
                        int (ErrorLevel c) < m_ierror m mod 2 ^ 32
                     then [ToErrorMonitor (m_ierror m) (m_domain m) (fst (Message m'))] else [])
          in (c1, OnReadyTransmitMessage c1 @ err)
      | evDelete \<Rightarrow>
          (c\<lparr>message_list := push_message (m_domain m) (fullfilename m) (message_list c)\<rparr>,
           [ToMessage evDelete])
      | evConfig \<Rightarrow> (c\<lparr>m_cmd_event := evConfig\<rparr>, [])
      | evExit \<Rightarrow> (c, [Terminate])
      | _ \<Rightarrow> (c, []))"

definition ClearMessageList :: "tclientmessage \<Rightarrow> tclientmessage" where
  "ClearMessageList c = c\<lparr>message_list := []\<rparr>"

definition TransmitFromLocalLog :: "tclientmessage \<Rightarrow> bool \<Rightarrow> bool \<times> tclientmessage" where
  "TransmitFromLocalLog c v = (v, c\<lparr>FTransmitFromLocalLog := v\<rparr>)"

section \<open>The message thread\<close>

text \<open>
  What \<open>sigtimedwait\<close> brings: nothing within the minute, a signal with its value, the value 255
  that ends the thread.
\<close>

datatype wakeup = Timeout | Signalled event | Quit

definition Msg_to_local_store ::
  "env \<Rightarrow> (mmessagelist \<Rightarrow> filethread) \<Rightarrow> mmessagelist \<Rightarrow> event \<Rightarrow> disk \<Rightarrow> disk" where
  "Msg_to_local_store e mk ml ev D =
     (if ev = evMsg then RunWork e (mk ml) D else TryToDeleteFile (mk ml) D)"

text \<open>One turn of \<open>handler_message_thread\<close>; the first result says whether it goes on.\<close>

definition message_turn ::
  "env \<Rightarrow> (mmessagelist \<Rightarrow> filethread) \<Rightarrow> wakeup \<Rightarrow> tclientmessage \<Rightarrow> disk
     \<Rightarrow> bool \<times> tclientmessage \<times> disk" where
  "message_turn e mk w c D =
     (let ev = (case w of Signalled x \<Rightarrow> x | _ \<Rightarrow> evMsg) in
      if (\<exists>x. w = Signalled x) \<and> ev \<noteq> evMsg \<and> ev \<noteq> evDelete then (True, c, D)
      else (w \<noteq> Quit, ClearMessageList c, Msg_to_local_store e mk (message_list c) ev D))"

text \<open>The \<open>filethread\<close> the configuration gives.\<close>

definition filethread_new :: "string \<Rightarrow> nat \<Rightarrow> nat \<Rightarrow> bool \<Rightarrow> mmessagelist \<Rightarrow> filethread" where
  "filethread_new folder max_size max_archive loc ml =
     \<lparr>ft_path = folder, MaxFileSize = max_size, Max_archive_count = max_archive,
      local_store = loc, msg_list = ml\<rparr>"

section \<open>Facts\<close>

lemma mkdir_below_all:
  "(\<And>d. mk d) \<Longrightarrow> root \<noteq> [] \<Longrightarrow>
     mkdir_below mk root pre s r = (if CHR ''/'' \<in> set s then Some True else r)"
  by (induction mk root pre s r rule: mkdir_below.induct) auto

lemma path_split_dir: "fst (path_split s) \<noteq> []"
  using find_last_Some [of "CHR ''/''" s] by (auto simp: path_split_def split: option.splits)

lemma CheckFileDirectory_all:
  assumes "\<And>d. can_mkdir e d" "ft_path ft \<noteq> []" "d \<noteq> []"
  shows "CheckFileDirectory e ft d"
  using assms mkdir_below_all [of "can_mkdir e" "ft_path ft" "[]" _ None]
  by (auto simp: CheckFileDirectory_def MakeDirectory2_def dest: last_in_set)

lemma Write_content:
  assumes "can_open e (ft_path ft @ f)" "path_split (ft_path ft @ f) = (p, n)"
    and "length (content_of (dir_of D p) n @ s) \<le> MaxFileSize ft"
  shows "content_of (dir_of (Write e ft f s D) p) n = content_of (dir_of D p) n @ s"
  using assms
  by (simp add: Write_def append_file_def Let_def dir_of_def content_of_def map_of_smap_put)

lemma Write_other:
  assumes "can_open e (ft_path ft @ f)" "path_split (ft_path ft @ f) = (p, n)"
    and "length (content_of (dir_of D p) n @ s) \<le> MaxFileSize ft" and "(q, k) \<noteq> (p, n)"
  shows "map_of (dir_of (Write e ft f s D) q) k = map_of (dir_of D q) k"
  using assms
  by (auto simp: Write_def append_file_def Let_def dir_of_def content_of_def map_of_smap_put)

lemma push_same: "push_message k s [(k, v)] = [(k, v @ [s])]"
  by (simp add: push_message_def)

lemma AddMessage_msg:
  assumes "m_Event (ParseData m) = evMsg" "local_category c"
  shows "message_list (fst (AddMessage c m)) =
      push_message (GlobalFileName (ParseData m)) (msg (ParseData m)) (message_list c)"
    "local_category (fst (AddMessage c m))"
  using assms by (simp_all add: AddMessage_def Let_def)

definition add_all :: "tclientmessage \<Rightarrow> tlogmsg list \<Rightarrow> tclientmessage" where
  "add_all c ms = fold (\<lambda>m c. fst (AddMessage c m)) ms c"

text \<open>The messages are log lines for one file.\<close>

definition log_lines :: "string \<Rightarrow> tlogmsg list \<Rightarrow> bool" where
  "log_lines k ms \<longleftrightarrow>
     list_all (\<lambda>m. m_Event (ParseData m) = evMsg \<and> GlobalFileName (ParseData m) = k) ms"

lemma add_all_list:
  assumes "log_lines k ms" "local_category c" "message_list c = [(k, v)]"
  shows "message_list (add_all c ms) = [(k, v @ map (\<lambda>m. msg (ParseData m)) ms)]"
  using assms
proof (induction ms arbitrary: c v)
  case (Cons m ms)
  then show ?case
    using AddMessage_msg [of m c]
    by (simp add: add_all_def log_lines_def push_same)
qed (simp add: add_all_def)

lemma add_all_first:
  assumes "log_lines k (m # ms)" "local_category c" "message_list c = []"
  shows "message_list (add_all c (m # ms)) = [(k, map (\<lambda>m. msg (ParseData m)) (m # ms))]"
proof -
  have "message_list (fst (AddMessage c m)) = [(k, [msg (ParseData m)])]"
    "local_category (fst (AddMessage c m))"
    using assms AddMessage_msg [of m c] by (simp_all add: log_lines_def push_message_def)
  then show ?thesis
    using assms(1) add_all_list [of k ms "fst (AddMessage c m)" "[msg (ParseData m)]"]
    by (simp add: add_all_def log_lines_def)
qed

text \<open>Deleting never changes what a file holds.\<close>

lemma FileDelete_keeps:
  "map_of (dir_of (FileDelete f D) p) n = Some x \<Longrightarrow> map_of (dir_of D p) n = Some x"
  by (auto simp: FileDelete_def Let_def dir_of_def map_of_smap_put map_of_smap_del
      split: prod.splits option.splits if_splits)

lemma fold_delete_keeps:
  "map_of (dir_of (fold FileDelete fs D) p) n = Some x \<Longrightarrow> map_of (dir_of D p) n = Some x"
  by (induction fs arbitrary: D) (auto dest: FileDelete_keeps)

section \<open>Properties\<close>

definition open_env :: env where
  "open_env = \<lparr>can_mkdir = (\<lambda>_. True), can_open = (\<lambda>_. True)\<rparr>"

definition demo_msg :: "string \<Rightarrow> tlogmsg" where
  "demo_msg t = TLogMsg_new [(''data_type'', ''logger''), (''domain'', ''d''), (''filename'', ''f.log''),
     (''message'', t)] []"

text \<open>
  Messages for one file arrive complete and in order: the lines that clients add to an empty
  list are, after the next turn of the message thread (by signal or timeout), appended to the file
  in the order in which they came, each with its newline; the list is empty again and no other
  file has changed, as long as the file stays within its size limit.
\<close>

theorem log_lines_arrive:
  assumes "log_lines k (m # ms)" "local_category c" "message_list c = []"
    and "mk = filethread_new folder mx ma True" "folder \<noteq> []"
    and "\<And>d. can_mkdir e d" "can_open e (folder @ k)" "path_split (folder @ k) = (p, n)"
    and "length (content_of (dir_of D p) n @ concat (map (\<lambda>m. msg (ParseData m)) (m # ms))) \<le> mx"
    and "w = Timeout \<or> w = Signalled evMsg"
    and "message_turn e mk w (add_all c (m # ms)) D = (go, c', D')"
  shows "go \<and> message_list c' = [] \<and>
    content_of (dir_of D' p) n =
      content_of (dir_of D p) n @ concat (map (\<lambda>m. m_msg (ParseData m) @ newline) (m # ms)) \<and>
    (\<forall>q j. (q, j) \<noteq> (p, n) \<longrightarrow> map_of (dir_of D' q) j = map_of (dir_of D q) j)"
proof -
  let ?txt = "concat (map (\<lambda>m. msg (ParseData m)) (m # ms))"
  let ?ft = "mk [(k, map (\<lambda>m. msg (ParseData m)) (m # ms))]"
  have ft: "ft_path ?ft = folder" "MaxFileSize ?ft = mx" "local_store ?ft"
    "LogFile.filethread.msg_list ?ft = [(k, map (\<lambda>m. msg (ParseData m)) (m # ms))]"
    using assms(4) by (simp_all add: filethread_new_def)
  have ne: "?txt \<noteq> []" by (simp add: msg_def newline_def)
  have chk: "CheckFileDirectory e ?ft (fst (path_split k))"
    using assms(5,6) ft(1) path_split_dir by (intro CheckFileDirectory_all) auto
  have "D' = RunWork e ?ft D" "go" "message_list c' = []"
    using assms(10,11) add_all_first [OF assms(1-3)]
    by (auto simp: message_turn_def Let_def Msg_to_local_store_def ClearMessageList_def)
  moreover have "RunWork e ?ft D = Write e ?ft k ?txt D"
    using ft chk ne by (simp add: RunWork_def)
  ultimately show ?thesis
    using Write_content [of e ?ft k p n D ?txt] Write_other [of e ?ft k p n D ?txt] ft assms(7-9)
    by (simp add: msg_def)
qed

theorem log_lines_arrive_witness:
  "content_of (dir_of (snd (snd (message_turn open_env (filethread_new ''/log/'' 100 5 True) Timeout
      (add_all (TClientMessage_new True 500 0) [demo_msg ''one'', demo_msg ''two'']) []))) ''/log/d'') ''f.log''
   = [] @ concat (map (\<lambda>m. m_msg (ParseData m) @ newline) [demo_msg ''one'', demo_msg ''two''])"
proof -
  let ?mk = "filethread_new ''/log/'' 100 5 True"
  let ?c = "TClientMessage_new True 500 0"
  obtain go c' D' where t: "message_turn open_env ?mk Timeout
      (add_all ?c [demo_msg ''one'', demo_msg ''two'']) [] = (go, c', D')"
    by (metis prod_cases3)
  have l: "log_lines ''d/f.log'' [demo_msg ''one'', demo_msg ''two'']" by code_simp
  have sp: "path_split (''/log/'' @ ''d/f.log'') = (''/log/d'', ''f.log'')" by code_simp
  have sz: "length (content_of (dir_of [] ''/log/d'') ''f.log'' @
      concat (map (\<lambda>m. msg (ParseData m)) [demo_msg ''one'', demo_msg ''two''])) \<le> 100" by code_simp
  have c: "local_category ?c" "message_list ?c = []" by (simp_all add: TClientMessage_new_def)
  have o: "\<And>d. can_mkdir open_env d" "can_open open_env (''/log/'' @ ''d/f.log'')"
    by (simp_all add: open_env_def)
  have e: "content_of (dir_of [] ''/log/d'') ''f.log'' = []" by (simp add: content_of_def dir_of_def)
  from log_lines_arrive [OF l c refl _ o sp sz _ t]
  show ?thesis using t e by simp
qed

text \<open>
  A delete command destroys waiting messages: the thread's turn for it empties the whole list,
  and every file that is there afterwards was there before with the same contents, so that none of
  the log lines waiting with the command reaches a file.
\<close>

theorem delete_drops_waiting:
  assumes "message_turn e mk (Signalled evDelete) c D = (go, c', D')"
  shows "message_list c' = [] \<and>
    (\<forall>p n x. map_of (dir_of D' p) n = Some x \<longrightarrow> map_of (dir_of D p) n = Some x)"
proof -
  have "D' = TryToDeleteFile (mk (message_list c)) D" "message_list c' = []"
    using assms by (auto simp: message_turn_def Let_def Msg_to_local_store_def ClearMessageList_def)
  then show ?thesis using fold_delete_keeps unfolding TryToDeleteFile_def by metis
qed

theorem delete_drops_waiting_witness:
  "message_list (fst (snd (message_turn open_env (filethread_new ''/log/'' 100 5 True)
     (Signalled evDelete) (add_all (TClientMessage_new True 500 0) [demo_msg ''one'']) []))) = [] \<and>
   message_list (add_all (TClientMessage_new True 500 0) [demo_msg ''one'']) \<noteq> []"
proof -
  obtain go c' D' where t: "message_turn open_env (filethread_new ''/log/'' 100 5 True)
     (Signalled evDelete) (add_all (TClientMessage_new True 500 0) [demo_msg ''one'']) [] = (go, c', D')"
    by (metis prod_cases3)
  have "log_lines ''d/f.log'' [demo_msg ''one'']" by code_simp
  then have "message_list (add_all (TClientMessage_new True 500 0) [demo_msg ''one'']) \<noteq> []"
    using add_all_first [of "''d/f.log''" "demo_msg ''one''" "[]" "TClientMessage_new True 500 0"]
    by (simp add: TClientMessage_new_def)
  then show ?thesis using delete_drops_waiting [OF t] t by simp
qed

text \<open>
  A log name with a directory is written and deleted under different paths: the directory
  stands twice in the name the lines go to, once in the name the delete command removes.
\<close>

theorem directory_doubled:
  assumes "m_filename m = d @ ''/'' @ f" "CHR ''/'' \<notin> set f" "d \<noteq> []" "hd d \<noteq> CHR ''/''"
  shows "GlobalFileName m = m_domain m @ ''/'' @ d @ ''/'' @ d @ ''/'' @ f \<and>
    delete_path ft (m_domain m) (fullfilename m) = ft_path ft @ m_domain m @ ''/'' @ d @ ''/'' @ f \<and>
    ft_path ft @ GlobalFileName m \<noteq> delete_path ft (m_domain m) (fullfilename m)"
proof -
  have "find_last CHR ''/'' (m_filename m) = Some (length d)"
    unfolding assms(1) using find_last_append [OF assms(2), of d] by simp
  moreover have "take (length d) (m_filename m) = d" by (simp add: assms(1))
  ultimately have "FilePath m = m_domain m @ ''/'' @ d @ ''/''"
    using assms(3,4) by (simp add: FilePath_def)
  then have g: "GlobalFileName m = m_domain m @ ''/'' @ d @ ''/'' @ d @ ''/'' @ f"
    by (simp add: GlobalFileName_def filename_def assms(1))
  have "hd (d @ ''/'' @ f) = hd d" using assms(3) by simp
  then have p: "delete_path ft (m_domain m) (fullfilename m) =
      ft_path ft @ m_domain m @ ''/'' @ d @ ''/'' @ f"
    using assms(4) by (simp add: fullfilename_def delete_path_def assms(1))
  have "length (ft_path ft @ GlobalFileName m) \<noteq>
      length (delete_path ft (m_domain m) (fullfilename m))"
    unfolding g p by simp
  then show ?thesis using g p by metis
qed

theorem directory_doubled_witness:
  "GlobalFileName (ParseData (TLogMsg_new [(''domain'', ''site''), (''filename'', ''web/a.log'')] [])) =
     ''site/web/web/a.log''"
proof -
  let ?m = "ParseData (TLogMsg_new [(''domain'', ''site''), (''filename'', ''web/a.log'')] [])"
  have "m_filename ?m = ''web'' @ ''/'' @ ''a.log''" "m_domain ?m = ''site''" by code_simp+
  then have "GlobalFileName ?m = ''site'' @ ''/'' @ ''web'' @ ''/'' @ ''web'' @ ''/'' @ ''a.log''"
    using directory_doubled [of ?m "''web''" "''a.log''" "filethread_new ''/log/'' 100 5 True []"]
    by simp
  then show ?thesis by (simp only: append.simps)
qed

end
