(* ===== verification/Error_Monitor.thy ===== *)
theory Error_Monitor
  imports Prelude
begin

text \<open>
  \<open>logger/errormonitor.cpp\<close>: the monitor that counts the errors of each domain and mails the
  collected messages to the administrators. The thread's queue of signals is the list of
  operations; \<open>now\<close> is the clock at each, \<open>back\<close> the time ten years before it that a new domain
  gets as its last mail. The addresses and the mail itself (\<open>email.cpp\<close>) are outside: a mail is
  its list of messages.
\<close>

section \<open>State\<close>

record tdominfo =
  m_counter :: int
  tm :: int
  m_overflow :: bool
  m_first_owerflow :: bool
  msg_box_size :: int
  msg_box :: "string list"

record terrmon =
  m_error_counter :: int
  m_registered_error_level :: int
  m_reset_error_timeout :: int
  m_email_error_timeout :: int
  m_email_volume :: int
  domain :: "(string, tdominfo) smap"

definition TErrorMonitor_new :: "int \<Rightarrow> int \<Rightarrow> int \<Rightarrow> int \<Rightarrow> int \<Rightarrow> terrmon" where
  "TErrorMonitor_new cnt lvl reset_to email_to volume =
     \<lparr>m_error_counter = cnt, m_registered_error_level = lvl, m_reset_error_timeout = reset_to,
      m_email_error_timeout = email_to, m_email_volume = volume * 1024, domain = []\<rparr>"

section \<open>Operations\<close>

text \<open>\<open>counter_overflow(bool, int \<and>)\<close>: the verdict and the new counter.\<close>

definition counter_overflow :: "terrmon \<Rightarrow> bool \<Rightarrow> int \<Rightarrow> bool \<times> int" where
  "counter_overflow em is_overflow v =
     (let v' = (if is_overflow \<or> v \<ge> m_error_counter em then 0 else v) in (v' = 0, v'))"

definition exceeded_email_timeout :: "terrmon \<Rightarrow> int \<Rightarrow> tdominfo \<Rightarrow> bool \<times> tdominfo" where
  "exceeded_email_timeout em now m =
     (if m_overflow m \<and> now - tm m \<ge> m_email_error_timeout em
      then (True, m\<lparr>m_overflow := False, m_first_owerflow := False, tm := now\<rparr>)
      else (False, m))"

definition evict :: "terrmon \<Rightarrow> string \<Rightarrow> tdominfo \<Rightarrow> tdominfo" where
  "evict em s info =
     (if int (length s) + msg_box_size info > m_email_volume em then
        (case msg_box info of
           [] \<Rightarrow> info
         | b # bs \<Rightarrow> info\<lparr>msg_box_size := msg_box_size info - int (length b), msg_box := bs\<rparr>)
      else info)"

text \<open>\<open>onAdd_error\<close>; the second result is the mail sent, if any.\<close>

definition onAdd_error ::
  "int \<Rightarrow> int \<Rightarrow> terrmon \<Rightarrow> int \<Rightarrow> string \<Rightarrow> string \<Rightarrow> terrmon \<times> string list option" where
  "onAdd_error now back em m_error dm msg =
     (if m_error = 0 \<or> m_error \<le> m_registered_error_level em then (em, None)
      else
        let (fl_email, info) =
              (case map_of (domain em) dm of
                 Some i \<Rightarrow>
                   let (ov, c) = counter_overflow em (m_overflow i) (m_counter i)
                   in exceeded_email_timeout em now (i\<lparr>m_overflow := ov, m_counter := c\<rparr>)
               | None \<Rightarrow>
                   (False, \<lparr>m_counter = 0, tm = back, m_overflow = False,
                            m_first_owerflow = True, msg_box_size = 0, msg_box = []\<rparr>));
            info1 = evict em msg info;
            info2 = info1\<lparr>msg_box := msg_box info1 @ [msg]\<rparr>
        in if fl_email then
             (em\<lparr>domain := smap_put dm (info2\<lparr>msg_box := [], m_counter := 0, msg_box_size := 0\<rparr>)
                            (domain em)\<rparr>, Some (msg_box info2))
           else
             (em\<lparr>domain := smap_put dm
                   (info2\<lparr>m_counter := m_counter info2 + 1,
                          msg_box_size := msg_box_size info2 + int (length msg)\<rparr>)
                   (domain em)\<rparr>, None))"

text \<open>\<open>exceeded_reset_timeout\<close>, after a time without signals.\<close>

definition exceeded_reset_timeout :: "int \<Rightarrow> terrmon \<Rightarrow> terrmon" where
  "exceeded_reset_timeout now em =
     em\<lparr>domain := filter (\<lambda>(s, info). now - tm info < m_reset_error_timeout em) (domain em)\<rparr>"

text \<open>The thread: an error with its time, or a time without errors.\<close>

datatype op = Add int int int string string | Quiet int

fun monitor :: "op list \<Rightarrow> terrmon \<Rightarrow> terrmon \<times> (int \<times> string \<times> string list) list" where
  "monitor [] em = (em, [])"
| "monitor (Quiet now # ops) em = monitor ops (exceeded_reset_timeout now em)"
| "monitor (Add now back err dm msg # ops) em =
     (let (em1, mail) = onAdd_error now back em err dm msg;
          (em2, mails) = monitor ops em1
      in (em2, (case mail of Some box \<Rightarrow> [(now, dm, box)] | None \<Rightarrow> []) @ mails))"

section \<open>Facts\<close>

definition total :: "string list \<Rightarrow> int" where
  "total ms = sum_list (map (\<lambda>s. int (length s)) ms)"

text \<open>The invariant: what is accounted for a domain is what its box holds.\<close>

definition accounted :: "terrmon \<Rightarrow> bool" where
  "accounted em \<longleftrightarrow> (\<forall>dm i. map_of (domain em) dm = Some i \<longrightarrow> msg_box_size i = total (msg_box i))"

lemma evict_total: "msg_box_size i = total (msg_box i) \<Longrightarrow> msg_box_size (evict em s i) = total (msg_box (evict em s i))"
  by (auto simp: evict_def total_def split: list.splits)

lemma evict_fields [simp]: "tm (evict em s i) = tm i" "m_counter (evict em s i) = m_counter i"
  "m_overflow (evict em s i) = m_overflow i"
  by (auto simp: evict_def split: list.splits)

lemma exceeded_fields:
  "exceeded_email_timeout em now i = (fl, i') \<Longrightarrow>
     msg_box i' = msg_box i \<and> msg_box_size i' = msg_box_size i \<and> m_counter i' = m_counter i \<and>
     (fl \<longrightarrow> now - tm i \<ge> m_email_error_timeout em \<and> tm i' = now \<and> m_overflow i) \<and>
     (\<not> fl \<longrightarrow> i' = i)"
  by (auto simp: exceeded_email_timeout_def split: if_splits)

text \<open>What one error does to its domain, and to the others.\<close>

lemma onAdd_error_cases:
  assumes "onAdd_error now back em err dm s = (em', mail)"
  obtains (below) "em' = em" "mail = None" "err = 0 \<or> err \<le> m_registered_error_level em"
  | (mailed) i where "map_of (domain em) dm = Some i" "now - tm i \<ge> m_email_error_timeout em"
      "mail = Some (msg_box (evict em s i) @ [s])"
      "\<exists>i'. em' = em\<lparr>domain := smap_put dm i' (domain em)\<rparr> \<and> tm i' = now \<and> msg_box i' = [] \<and>
         msg_box_size i' = 0 \<and> m_counter i' = 0"
  | (kept) i where "map_of (domain em) dm = Some i" "mail = None"
      "\<exists>i'. em' = em\<lparr>domain := smap_put dm i' (domain em)\<rparr> \<and> tm i' = tm i \<and>
         msg_box i' = msg_box (evict em s i) @ [s] \<and>
         msg_box_size i' = msg_box_size (evict em s i) + int (length s)"
  | (new) "map_of (domain em) dm = None" "mail = None"
      "\<exists>i'. em' = em\<lparr>domain := smap_put dm i' (domain em)\<rparr> \<and> tm i' = back \<and> msg_box i' = [s] \<and>
         msg_box_size i' = int (length s) \<and> m_counter i' = 1"
proof (cases "err = 0 \<or> err \<le> m_registered_error_level em")
  case True
  then show thesis using assms below by (simp add: onAdd_error_def)
next
  case False
  show thesis
  proof (cases "map_of (domain em) dm")
    case None
    then show thesis using assms False by (intro new) (auto simp: onAdd_error_def evict_def Let_def)
  next
    case (Some i)
    obtain ov c where co: "counter_overflow em (m_overflow i) (m_counter i) = (ov, c)" by fastforce
    obtain fl i1 where ex: "exceeded_email_timeout em now (i\<lparr>m_overflow := ov, m_counter := c\<rparr>) = (fl, i1)"
      by fastforce
    note f = exceeded_fields [OF ex]
    have ev: "msg_box (evict em s i1) = msg_box (evict em s i)"
      "msg_box_size (evict em s i1) = msg_box_size (evict em s i)"
      using f by (auto simp: evict_def split: list.splits)
    have t1: "tm i1 = (if fl then now else tm i)" "fl \<longrightarrow> now - tm i \<ge> m_email_error_timeout em"
      using f by auto
    show thesis
    proof (cases fl)
      case True
      define i2 where "i2 = (evict em s i1)\<lparr>msg_box := [], m_counter := 0, msg_box_size := 0\<rparr>"
      have "em' = em\<lparr>domain := smap_put dm i2 (domain em)\<rparr>" "mail = Some (msg_box (evict em s i) @ [s])"
        using assms False Some co ex ev True by (auto simp: onAdd_error_def i2_def)
      then show thesis
        using Some t1 True by (intro mailed [of i] exI [of _ i2]) (auto simp: i2_def)
    next
      case no: False
      define i2 where "i2 = (evict em s i1)\<lparr>msg_box := msg_box (evict em s i1) @ [s],
          m_counter := m_counter i1 + 1, msg_box_size := msg_box_size (evict em s i1) + int (length s)\<rparr>"
      have "em' = em\<lparr>domain := smap_put dm i2 (domain em)\<rparr>" "mail = None"
        using assms False Some co ex no by (auto simp: onAdd_error_def i2_def Let_def)
      then show thesis
        using Some t1 no ev by (intro kept [of i] exI [of _ i2]) (auto simp: i2_def)
    qed
  qed
qed

lemma onAdd_error_settings:
  "onAdd_error now back em err dm s = (em', mail) \<Longrightarrow>
     m_email_error_timeout em' = m_email_error_timeout em \<and> m_email_volume em' = m_email_volume em \<and>
     m_registered_error_level em' = m_registered_error_level em"
  by (erule onAdd_error_cases) auto

lemma onAdd_error_accounted:
  assumes "onAdd_error now back em err dm s = (em', mail)" "accounted em"
  shows "accounted em'"
  using assms(1)
proof (cases rule: onAdd_error_cases)
  case below then show ?thesis using assms(2) by simp
next
  case (mailed i)
  then show ?thesis using assms(2) by (auto simp: accounted_def map_of_smap_put total_def split: if_splits)
next
  case (kept i)
  then have "msg_box_size (evict em s i) = total (msg_box (evict em s i))"
    using assms(2) evict_total by (simp add: accounted_def)
  with kept show ?thesis using assms(2)
    by (auto simp: accounted_def map_of_smap_put total_def split: if_splits)
next
  case new
  then show ?thesis using assms(2) by (auto simp: accounted_def map_of_smap_put total_def split: if_splits)
qed

lemma map_of_filter_sub:
  "distinct (map fst m) \<Longrightarrow> map_of (filter P m) k = Some v \<Longrightarrow> map_of m k = Some v"
  by (metis distinct_map_filter filter_is_subset map_of_SomeD map_of_is_SomeI subsetD)

lemma onAdd_error_ok:
  "onAdd_error now back em err dm s = (em', mail) \<Longrightarrow> smap_ok (domain em) \<Longrightarrow> smap_ok (domain em')"
  by (erule onAdd_error_cases) (auto intro: sm.ok_put)

lemma reset_ok: "smap_ok (domain em) \<Longrightarrow> smap_ok (domain (exceeded_reset_timeout now em))"
  by (auto simp: smap_ok_def exceeded_reset_timeout_def sorted_wrt_map intro: sorted_wrt_filter)

lemma reset_accounted:
  "smap_ok (domain em) \<Longrightarrow> accounted em \<Longrightarrow> accounted (exceeded_reset_timeout now em)"
  unfolding accounted_def exceeded_reset_timeout_def
  using map_of_filter_sub [OF smap_ok_distinct] by fastforce

lemma monitor_accounted:
  "monitor ops em = (em', mails) \<Longrightarrow> smap_ok (domain em) \<Longrightarrow> accounted em \<Longrightarrow>
     accounted em' \<and> smap_ok (domain em')"
proof (induction ops em arbitrary: em' mails rule: monitor.induct)
  case (2 t ops em)
  then show ?case using reset_ok reset_accounted by auto
next
  case (3 t b e d s ops em)
  then show ?case
    using onAdd_error_ok onAdd_error_accounted by (auto split: prod.splits)
qed simp

section \<open>Properties\<close>

text \<open>
  C37. Accounting: whatever errors and quiet times come, the size kept for a domain is the sum of
  the lengths of the messages in its box.
\<close>

theorem box_size_exact:
  assumes "monitor ops (TErrorMonitor_new cnt lvl reset_to email_to vol) = (em, mails)"
    and "map_of (domain em) dm = Some i"
  shows "msg_box_size i = total (msg_box i)"
  using monitor_accounted [OF assms(1)] assms(2)
  by (simp add: TErrorMonitor_new_def accounted_def smap_ok_def)

theorem box_size_exact_witness:
  "\<exists>i. map_of (domain (fst (monitor [Add 100 0 5 ''d'' ''one'', Add 101 1 5 ''d'' ''three'']
      (TErrorMonitor_new 3 1 600 1800 20)))) ''d'' = Some i \<and> msg_box_size i = total (msg_box i) \<and>
    msg_box i = [''one'', ''three'']"
proof -
  let ?r = "monitor [Add 100 0 5 ''d'' ''one'', Add 101 1 5 ''d'' ''three'']
      (TErrorMonitor_new 3 1 600 1800 20)"
  let ?i = "\<lparr>m_counter = 2, tm = 0, m_overflow = False, m_first_owerflow = True, msg_box_size = 8,
      msg_box = [''one'', ''three'']\<rparr>"
  have i: "map_of (domain (fst ?r)) ''d'' = Some ?i" by code_simp
  obtain em mails where r: "?r = (em, mails)" by fastforce
  with i have "map_of (domain em) ''d'' = Some ?i" by simp
  from box_size_exact [OF r this] i show ?thesis by auto
qed

text \<open>Mails of one domain, and what is known of the last one.\<close>

definition mail_times :: "string \<Rightarrow> (int \<times> string \<times> string list) list \<Rightarrow> int list" where
  "mail_times dm mails = map fst (filter (\<lambda>(t, d, b). d = dm) mails)"

lemma monitor_spacing:
  assumes "monitor ops em = (em', mails)" "\<forall>x \<in> set ops. \<exists>n b e d s. x = Add n b e d s"
  shows "successively (\<lambda>t u. u - t \<ge> m_email_error_timeout em) (mail_times dm mails) \<and>
    (\<forall>i t ts. map_of (domain em) dm = Some i \<longrightarrow> mail_times dm mails = t # ts \<longrightarrow>
       t - tm i \<ge> m_email_error_timeout em)"
  using assms
proof (induction ops em arbitrary: em' mails rule: monitor.induct)
  case (3 now bk err d s ops em)
  obtain em1 mail where a: "onAdd_error now bk em err d s = (em1, mail)" by fastforce
  obtain mails2 where m: "monitor ops em1 = (em', mails2)"
    and mails: "mails = (case mail of Some box \<Rightarrow> [(now, d, box)] | None \<Rightarrow> []) @ mails2"
    using "3.prems"(1) a by (auto split: prod.splits)
  have to: "m_email_error_timeout em1 = m_email_error_timeout em"
    using onAdd_error_settings [OF a] by simp
  have ih: "successively (\<lambda>t u. u - t \<ge> m_email_error_timeout em) (mail_times dm mails2)"
    "\<And>i t ts. map_of (domain em1) dm = Some i \<Longrightarrow> mail_times dm mails2 = t # ts \<Longrightarrow>
       t - tm i \<ge> m_email_error_timeout em"
    using "3.IH" [OF a [symmetric] refl m] "3.prems"(2) to by auto
  from a show ?case
  proof (cases rule: onAdd_error_cases)
    case below then show ?thesis using ih mails by simp
  next
    case (mailed i)
    show ?thesis
    proof (cases "d = dm")
      case True
      then have "mail_times dm mails = now # mail_times dm mails2"
        using mailed(3) mails by (simp add: mail_times_def)
      moreover obtain i' where "map_of (domain em1) dm = Some i'" "tm i' = now"
        using mailed(4) True by (auto simp: map_of_smap_put)
      ultimately show ?thesis
        using ih(1) ih(2) [of i'] mailed(1,2) True
        by (cases "mail_times dm mails2") auto
    next
      case False
      then have "mail_times dm mails = mail_times dm mails2"
        "map_of (domain em1) dm = map_of (domain em) dm"
        using mailed(3,4) mails by (auto simp: mail_times_def map_of_smap_put)
      then show ?thesis using ih by auto
    qed
  next
    case (kept i)
    have "mail_times dm mails = mail_times dm mails2" using kept(2) mails by simp
    moreover have "\<exists>j'. map_of (domain em1) dm = Some j' \<and> tm j' = tm j"
      if "map_of (domain em) dm = Some j" for j
      using kept(1,3) that by (cases "d = dm") (auto simp: map_of_smap_put)
    ultimately show ?thesis using ih by metis
  next
    case new
    have "mail_times dm mails = mail_times dm mails2" using new(2) mails by simp
    moreover have "map_of (domain em1) dm = map_of (domain em) dm"
      if "map_of (domain em) dm = Some j" for j
      using new(1,3) that by (cases "d = dm") (auto simp: map_of_smap_put)
    ultimately show ?thesis using ih by metis
  qed
qed (auto simp: mail_times_def)



text \<open>
  After the first mail the threshold is gone: the counter is 0 then, which the check takes for
  an overflow, so that once the timeout is over a single error is mailed, whatever number
  \<open>error_counter\<close> asks for.
\<close>

theorem single_error_mailed:
  assumes "map_of (domain em) dm = Some i" "m_counter i = 0"
    and "m_email_error_timeout em \<le> now - tm i" "err \<noteq> 0" "m_registered_error_level em < err"
  shows "\<exists>box. snd (onAdd_error now back em err dm s) = Some (box @ [s])"
  using assms
  by (simp add: onAdd_error_def counter_overflow_def exceeded_email_timeout_def Let_def)

theorem single_error_mailed_witness:
  "\<exists>box. snd (onAdd_error 5000 0
     (fst (monitor (map (\<lambda>t. Add t 0 5 ''d'' ''m'') [2000, 2001, 2002, 2003]) (TErrorMonitor_new 3 1 600 1800 20)))
     5 ''d'' ''again'') = Some (box @ [''again''])"
proof (rule single_error_mailed)
  let ?em = "fst (monitor (map (\<lambda>t. Add t 0 5 ''d'' ''m'') [2000, 2001, 2002, 2003])
    (TErrorMonitor_new 3 1 600 1800 20))"
  show "map_of (domain ?em) ''d'' = Some \<lparr>m_counter = 0, tm = 2003, m_overflow = False,
      m_first_owerflow = False, msg_box_size = 0, msg_box = []\<rparr>" by code_simp
  show "m_email_error_timeout ?em
      \<le> 5000 - tm \<lparr>m_counter = 0, tm = 2003, m_overflow = False, m_first_owerflow = False,
        msg_box_size = 0, msg_box = []\<rparr>" by code_simp
  show "m_registered_error_level ?em < 5" by code_simp
qed simp_all

end
