(* ===== verification/Remote.thy ===== *)
theory Remote
  imports LogMsg Socket
begin

text \<open>
  \<open>logger/remotethread.cpp\<close>: the thread that passes messages on to another log server. It takes
  the waiting list, keeps the messages in memory up to a limit, sends each over a connection of its
  own, and puts them into a local file when this fails. What the network does for each message is
  an \<open>attempt\<close>.
\<close>

section \<open>State and operations\<close>

record remote =
  r_msg_list :: "string list"
  m_size_in_memo :: int
  fl_local_exists :: bool
  local_file :: string

record attempt =
  a_fd :: int
  a_resolved :: bool
  a_con :: connect_result
  a_sends :: "send_result list"

definition RemoteThread_new :: "int \<Rightarrow> string \<Rightarrow> disk \<Rightarrow> remote" where
  "RemoteThread_new m_size path D =
     (let ml = GetLocalMsgList path D
      in \<lparr>r_msg_list = ml, m_size_in_memo = m_size, fl_local_exists = (ml \<noteq> []), local_file = path\<rparr>)"

text \<open>Before the messages of each file the oldest three quarters go if there are too many.\<close>

definition append_msgs :: "int \<Rightarrow> string list \<Rightarrow> string list \<Rightarrow> string list" where
  "append_msgs limit ms l =
     (let sz = length l in (if int sz > limit then drop (sz * 3 div 4) l else l) @ ms)"

definition remote_append :: "remote \<Rightarrow> mmessagelist \<Rightarrow> remote" where
  "remote_append r ml =
     r\<lparr>r_msg_list := fold (\<lambda>(k, ms). append_msgs (m_size_in_memo r) ms) ml (r_msg_list r)\<rparr>"

text \<open>
  The loop over the messages: \<open>is_ok\<close> is the result of the last \<open>net_send\<close>, a refused connection
  ends the loop. The second result is what each connection has taken.
\<close>

fun send_msgs ::
  "(nat \<Rightarrow> attempt) \<Rightarrow> nat \<Rightarrow> string list \<Rightarrow> bool \<Rightarrow> tclient \<Rightarrow> (bool \<times> string list) option" where
  "send_msgs at i [] is_ok t = Some (is_ok, [])"
| "send_msgs at i (m # ms) is_ok t =
     (let (con_ok, t1) = logger_net_connect (a_fd (at i)) (a_resolved (at i)) (a_con (at i)) t in
      if \<not> con_ok then Some (is_ok, [])
      else
        (case logger_net_send (a_sends (at i)) m [] t1 of
           None \<Rightarrow> None
         | Some (ok, wire, _) \<Rightarrow>
             map_option (\<lambda>(b, ws). (b, wire # ws)) (send_msgs at (Suc i) ms ok (net_close t1))))"

definition unlink_local :: "string \<Rightarrow> disk \<Rightarrow> disk" where
  "unlink_local path D = FileDelete path D"

definition remote_RunWork ::
  "env \<Rightarrow> (nat \<Rightarrow> attempt) \<Rightarrow> remote \<Rightarrow> mmessagelist \<Rightarrow> disk \<Rightarrow> (remote \<times> string list \<times> disk) option"
where
  "remote_RunWork e at r0 ml D =
     (let r = remote_append r0 ml in
      if r_msg_list r = [] then Some (r, [], D)
      else
        (case send_msgs at 0 (r_msg_list r) False (tclient_new 0 0 0 0) of
           None \<Rightarrow> None
         | Some (is_ok, wires) \<Rightarrow>
             Some (r\<lparr>r_msg_list := []\<rparr>, wires,
               if is_ok then (if fl_local_exists r then unlink_local (local_file r) D else D)
               else RunLocal e (local_file r) (r_msg_list r) D)))"

section \<open>Facts\<close>

text \<open>An attempt that goes through for a message, and one that is refused.\<close>

definition goes_through :: "attempt \<Rightarrow> string \<Rightarrow> bool" where
  "goes_through a m \<longleftrightarrow> 0 \<le> a_fd a \<and> a_resolved a \<and> a_con a = Connected \<and>
     Failed \<notin> set (a_sends a) \<and> length m \<le> accepts (a_sends a)"

definition refused :: "attempt \<Rightarrow> bool" where
  "refused a \<longleftrightarrow> 0 \<le> a_fd a \<and> a_resolved a \<and> a_con a \<noteq> Connected"

lemma send_loop_no_fail:
  "Failed \<notin> set cs \<Longrightarrow> send_loop cs m wire = Some (ok, w, cs') \<Longrightarrow> ok"
  by (induction cs m wire rule: send_loop.induct) (auto split: send_result.splits)

lemma goes_through_send:
  assumes "goes_through a m" "\<not> f_connected t"
  shows "\<exists>t1 cs'. logger_net_connect (a_fd a) (a_resolved a) (a_con a) t = (True, t1) \<and>
    logger_net_send (a_sends a) m [] t1 = Some (True, m, cs') \<and> \<not> f_connected (net_close t1)"
proof -
  have "send_loop (a_sends a) m [] \<noteq> None"
    using assms(1) send_loop_returns by (auto simp: goes_through_def)
  then obtain ok w cs' where s: "send_loop (a_sends a) m [] = Some (ok, w, cs')" by auto
  then have "ok" using send_loop_no_fail assms(1) by (auto simp: goes_through_def)
  then have "w = m" using net.sent_all [of "a_sends a" m "[]" w cs'] s by simp
  then show ?thesis using assms s \<open>ok\<close>
    by (auto simp: goes_through_def logger_net_connect_def logger_net_send_def net_close_def)
qed

lemma send_msgs_through:
  assumes "\<forall>j < length ms. goes_through (at (i + j)) (ms ! j)" "\<not> f_connected t"
  shows "\<exists>t'. \<not> f_connected t' \<and> send_msgs at i (ms @ rest) b t =
    map_option (\<lambda>(c, ws). (c, ms @ ws)) (send_msgs at (i + length ms) rest (b \<or> ms \<noteq> []) t')"
  using assms
proof (induction ms arbitrary: i b t)
  case Nil
  then show ?case by (intro exI [of _ t]) (simp add: option.map_ident case_prod_unfold)
next
  case (Cons m ms)
  have "goes_through (at i) m" using Cons.prems(1) by auto
  then obtain t1 cs' where s: "logger_net_connect (a_fd (at i)) (a_resolved (at i)) (a_con (at i)) t = (True, t1)"
    "logger_net_send (a_sends (at i)) m [] t1 = Some (True, m, cs')" "\<not> f_connected (net_close t1)"
    using goes_through_send Cons.prems(2) by blast
  have "\<forall>j < length ms. goes_through (at (Suc i + j)) (ms ! j)"
    using Cons.prems(1) by (metis Suc_less_eq add_Suc_shift length_Cons nth_Cons_Suc)
  from Cons.IH [OF this s(3), of True] obtain t' where t': "\<not> f_connected t'"
    "send_msgs at (Suc i) (ms @ rest) True (net_close t1) =
      map_option (\<lambda>(c, ws). (c, ms @ ws)) (send_msgs at (Suc i + length ms) rest True t')"
    by auto
  then show ?case using s
    by (intro exI [of _ t']) (simp add: option.map_comp o_def case_prod_unfold)
qed

lemma refused_stops: "refused (at i) \<Longrightarrow> send_msgs at i (m # ms) b t = Some (b, [])"
  by (simp add: refused_def logger_net_connect_def)

lemma new_not_connected: "\<not> f_connected (tclient_new a b c d)"
  by (simp add: tclient_new_def)

lemma append_msgs_suffix: "suffix (append_msgs lim ms l) (l @ ms)"
  by (auto simp: append_msgs_def Let_def suffix_drop)

lemma fold_append_suffix:
  "suffix (fold (\<lambda>(k, ms). append_msgs lim ms) ml l) (l @ concat (map snd ml))"
proof (induction ml arbitrary: l)
  case (Cons e ml)
  obtain k ms where e: "e = (k, ms)" by (cases e)
  have "suffix (append_msgs lim ms l @ concat (map snd ml)) ((l @ ms) @ concat (map snd ml))"
    using append_msgs_suffix [of lim ms l] by (auto simp: suffix_def)
  with Cons [of "append_msgs lim ms l"] show ?case
    using e suffix_order.trans by fastforce
qed simp

section \<open>Properties\<close>


definition good_attempt :: attempt where
  "good_attempt = \<lparr>a_fd = 3, a_resolved = True, a_con = Connected, a_sends = [Sent 1, Again, Sent 9]\<rparr>"

definition demo_remote :: remote where
  "demo_remote = \<lparr>r_msg_list = [''a''], m_size_in_memo = 100, fl_local_exists = False,
     local_file = ''/log/LogFile.log''\<rparr>"

lemma demo_append: "r_msg_list (remote_append demo_remote [(''d/f'', [''bc'', ''d''])]) = [''a'', ''bc'', ''d'']"
  by code_simp


text \<open>
  A connection that is refused after some messages have gone out loses the rest: the verdict
  still is the success of the message before, so the list is cleared and nothing is saved.
\<close>

theorem remote_loses_rest:
  assumes "r_msg_list (remote_append r ml) = ms @ m # lost" "ms \<noteq> []"
    and "\<forall>j < length ms. goes_through (at j) (ms ! j)" "refused (at (length ms))"
    and "\<not> fl_local_exists r"
  shows "remote_RunWork e at r ml D = Some ((remote_append r ml)\<lparr>r_msg_list := []\<rparr>, ms, D)"
proof -
  have "send_msgs at 0 (ms @ m # lost) False (tclient_new 0 0 0 0) = Some (True, ms)"
    using send_msgs_through [of ms at 0 "tclient_new 0 0 0 0" "m # lost" False]
      refused_stops [of at "length ms"] assms(2-4) new_not_connected by auto
  moreover have "\<not> fl_local_exists (remote_append r ml)" using assms(5) by (simp add: remote_append_def)
  ultimately show ?thesis using assms(1) by (simp add: remote_RunWork_def Let_def)
qed

theorem remote_loses_rest_witness:
  "\<exists>r'. remote_RunWork open_env (\<lambda>i. if i = 0 then good_attempt else good_attempt\<lparr>a_con := Refused\<rparr>)
     demo_remote [(''d/f'', [''bc'', ''d''])] [] = Some (r', [''a''], []) \<and> r_msg_list r' = []"
proof -
  have "r_msg_list (remote_append demo_remote [(''d/f'', [''bc'', ''d''])]) = [''a''] @ ''bc'' # [''d'']"
    using demo_append by simp
  from remote_loses_rest [OF this, of "\<lambda>i. if i = 0 then good_attempt else good_attempt\<lparr>a_con := Refused\<rparr>"
      open_env "[]"]
  show ?thesis
    by (simp add: goes_through_def refused_def good_attempt_def demo_remote_def)
qed

text \<open>
  What does not fit in memory is dropped oldest first: the messages kept are the last of the
  old ones followed by the new ones, in order.
\<close>

theorem remote_keeps_newest:
  "suffix (r_msg_list (remote_append r ml)) (r_msg_list r @ concat (map snd ml))"
  by (simp add: remote_append_def fold_append_suffix)

lemma lines_of_append:
  "CHR 0x0A \<notin> set m \<Longrightarrow> lines_of cur (m @ newline @ s) = (rev cur @ m) # lines_of [] s"
  by (induction m arbitrary: cur) (auto simp: newline_def)

lemma lines_of_concat:
  "\<forall>m \<in> set ms. CHR 0x0A \<notin> set m \<Longrightarrow> lines_of [] (concat (map (\<lambda>m. m @ newline) ms)) = ms"
proof (induction ms)
  case (Cons m ms)
  then show ?case using lines_of_append [of m "[]"] by simp
qed simp



end
