(* ===== verification/Logger_Config.thy ===== *)
theory Logger_Config
  imports Ini LogMsg Error_Monitor
begin

text \<open>
  \<open>logger/config.cpp\<close>, \<open>config.h\<close> and the start of \<open>Logger_V1.X.cpp\<close>: the settings of the log
  server, and how its process begins. The constructor sets three members and leaves the others;
  those that are not strings or maps hold what \<open>new\<close> found in memory, the argument \<open>raw\<close>. The
  types of the members cut what the file says: \<open>uint\<close> to 32 bits, \<open>ulong\<close> and \<open>size_t\<close> to 64.
\<close>

section \<open>Types of the members\<close>

definition to_uint :: "int \<Rightarrow> nat" where "to_uint x = nat (x mod 2 ^ 32)"
definition to_ulong :: "int \<Rightarrow> nat" where "to_ulong x = nat (x mod 2 ^ 64)"

lemma to_uint_less: "to_uint x < 2 ^ 32"
proof -
  have "x mod 2 ^ 32 < (2 ^ 32 :: int)" by simp
  then have "nat (x mod 2 ^ 32) < nat (2 ^ 32)" by (subst nat_less_eq_zless) simp_all
  then show ?thesis by (simp add: to_uint_def)
qed

lemma to_uint_id: "0 \<le> x \<Longrightarrow> x < 2 ^ 32 \<Longrightarrow> to_uint x = nat x"
  by (simp add: to_uint_def)

text \<open>\<open>tcStore\<close> is kept as its number, since memory may hold any.\<close>

definition EMPTY_STORE :: nat where "EMPTY_STORE = 0"
definition LOCAL_STORE :: nat where "LOCAL_STORE = 1"
definition REMOTE_STORE :: nat where "REMOTE_STORE = 2"

record logger_store =
  store_port :: nat
  store_address :: string

record logger_config =
  lc_CurrentStoreType :: nat
  lc_ConfigStatus :: bool
  lc_cfg_error :: int
  lc_Category_Store :: "(string, logger_store) smap"
  lc_max_list_size :: nat
  lc_logfile :: string
  lc_folder :: string
  lc_max_file_size :: nat
  lc_max_local_size :: nat
  lc_max_archive_count :: nat
  lc_checkperiod :: nat
  lc_loglevel :: nat
  lc_close_descriptors_period :: nat
  lc_retry_interval :: nat
  lc_logsize :: int
  lc_owner_user :: string
  lc_owner_group :: string
  lc_mode_dir :: string
  lc_mode_file :: string
  lc_error_counter :: nat
  lc_registered_error_level :: nat
  lc_reset_error_timeout :: nat
  lc_email_error_timeout :: nat
  lc_emails_error :: "string list"
  lc_email_volume :: nat
  lc_header :: string
  lc_is_daemon :: bool
  lc_size_in_memo :: int

section \<open>Addresses\<close>

text \<open>
  \<open>emails_error\<close>: the text is cut at blanks, empty parts are left out; \<open>is_valid_email\<close> accepts
  every address. The position is given by what is left of the text, and the loop is over when
  nothing is.
\<close>

definition is_valid_email :: "string \<Rightarrow> bool" where "is_valid_email v \<longleftrightarrow> True"

function emails_loop :: "string \<Rightarrow> string list" where
  "emails_loop left =
     (let len = (case find_chr CHR '' '' left of None \<Rightarrow> length left | Some i \<Rightarrow> i);
          s = take len left;
          found = (if s \<noteq> [] \<and> is_valid_email s then [s] else []);
          left' = drop (Suc len) left
      in if left' = [] then found else found @ emails_loop left')"
  by pat_completeness auto
termination
  by (relation "measure length") (auto simp: Let_def split: option.splits)

definition emails_error :: "string \<Rightarrow> string list" where
  "emails_error m_mails = (if m_mails = [] then [] else emails_loop m_mails)"

declare emails_loop.simps [simp del]

section \<open>Reading the file\<close>

text \<open>\<open>new tconfig\<close>: the members before the file is read.\<close>

definition tconfig_new :: "logger_config \<Rightarrow> logger_config" where
  "tconfig_new raw = raw\<lparr>lc_cfg_error := 0, lc_is_daemon := False, lc_Category_Store := [],
     lc_logfile := [], lc_folder := [], lc_owner_user := [], lc_owner_group := [],
     lc_mode_dir := [], lc_mode_file := [], lc_emails_error := [], lc_header := []\<rparr>"

definition read_local :: "ini_map \<Rightarrow> logger_config \<Rightarrow> logger_config" where
  "read_local r c =
     (let mails = emails_error (Get r ''LOCAL'' ''emails_error'' []);
          volume = to_uint (GetInteger r ''LOCAL'' ''error_volume'' 20)
      in c\<lparr>lc_max_file_size := to_ulong (GetInteger r ''LOCAL'' ''max_file_size'' 200000),
           lc_max_archive_count := to_uint (GetInteger r ''LOCAL'' ''max_archive_count'' 10),
           lc_error_counter := (if mails = [] then 0 else to_uint (GetInteger r ''LOCAL'' ''error_counter'' 0)),
           lc_registered_error_level :=
             (if mails = [] then 0 else to_uint (GetInteger r ''LOCAL'' ''registered_error_level'' 0)),
           lc_reset_error_timeout := to_uint (GetInteger r ''LOCAL'' ''reset_error_timeout'' 10),
           lc_email_error_timeout := to_uint (GetInteger r ''LOCAL'' ''email_error_timeout'' 30),
           lc_emails_error := mails,
           lc_email_volume := (if volume > 20 then 20 else volume)\<rparr>)"

definition read_store :: "ini_map \<Rightarrow> string \<Rightarrow> logger_store" where
  "read_store r sec =
     \<lparr>store_port = to_ulong (GetInteger r sec ''port'' 0), store_address = Get r sec ''address'' []\<rparr>"

definition store_given :: "logger_store \<Rightarrow> bool" where
  "store_given ls \<longleftrightarrow> store_port ls \<noteq> 0 \<and> store_address ls \<noteq> []"

definition put_store :: "string \<Rightarrow> logger_store \<Rightarrow> logger_config \<Rightarrow> logger_config" where
  "put_store k ls c = c\<lparr>lc_Category_Store := smap_put k ls (lc_Category_Store c)\<rparr>"

definition read_remote :: "ini_map \<Rightarrow> logger_config \<Rightarrow> logger_config" where
  "read_remote r c =
     (if \<not> SectionExists r ''REMOTE'' then c
      else
       (let ls = read_store r ''REMOTE'';
            c1 = c\<lparr>lc_retry_interval := to_uint (GetInteger r ''REMOTE'' ''retry_interval'' 2),
                   lc_max_local_size := to_ulong (GetInteger r ''REMOTE'' ''max_local_size'' 3000000000),
                   lc_size_in_memo := c_int (GetInteger r ''REMOTE'' ''size_in_memo'' 100)\<rparr>
        in if store_given ls then put_store ''REMOTE'' ls c1 else c1\<lparr>lc_cfg_error := 1\<rparr>))"

definition read_common :: "ini_map \<Rightarrow> logger_config \<Rightarrow> logger_config" where
  "read_common r c =
     c\<lparr>lc_is_daemon := GetBoolean r ''COMMON'' ''daemon'' False,
       lc_folder := Get r ''COMMON'' ''folder'' ''./'',
       lc_logfile := Get r ''COMMON'' ''logfile'' [],
       lc_max_list_size := to_ulong (GetInteger r ''COMMON'' ''max_list_size'' 500),
       lc_checkperiod := to_uint (GetInteger r ''COMMON'' ''check_period'' 5),
       lc_loglevel := to_uint (GetInteger r ''COMMON'' ''loglevel'' 2),
       lc_close_descriptors_period :=
         to_uint (GetInteger r ''COMMON'' ''check_descriptors_period'' 60),
       lc_logsize := (if GetBoolean r ''COMMON'' ''logsize'' False then 1 else 0),
       lc_owner_user := Get r ''COMMON'' ''owner_user'' [],
       lc_owner_group := Get r ''COMMON'' ''owner_group'' [],
       lc_mode_dir := Get r ''COMMON'' ''mode_dir'' ''775'',
       lc_mode_file := Get r ''COMMON'' ''mode_file'' ''665''\<rparr>"

definition IsStoreExists :: "logger_config \<Rightarrow> string \<Rightarrow> bool" where
  "IsStoreExists c k \<longleftrightarrow> map_of (lc_Category_Store c) k \<noteq> None"

text \<open>The type of store is not changed once there is one, whichever memory held.\<close>

definition choose_store :: "logger_config \<Rightarrow> logger_config" where
  "choose_store c =
     (let st = (if IsStoreExists c ''REMOTE'' then REMOTE_STORE else LOCAL_STORE) in
      if lc_CurrentStoreType c \<noteq> EMPTY_STORE \<and> lc_CurrentStoreType c \<noteq> st
      then c\<lparr>lc_ConfigStatus := (lc_CurrentStoreType c \<noteq> EMPTY_STORE)\<rparr>
      else c\<lparr>lc_CurrentStoreType := st, lc_ConfigStatus := (st \<noteq> EMPTY_STORE),
             lc_header := ''Hello World'' @ newline\<rparr>)"

definition logger_ReadIni :: "string option \<Rightarrow> logger_config \<Rightarrow> logger_config" where
  "logger_ReadIni file_text c =
     (let (v, r) = ini_parse file_text in
      if v \<noteq> 0 then c\<lparr>lc_cfg_error := 1\<rparr>
      else
       (let ls = read_store r ''LOCAL''; c1 = read_local r c in
        if store_port ls = 0 \<or> store_address ls = [] then c1\<lparr>lc_cfg_error := 1\<rparr>
        else choose_store (read_common r (read_remote r (put_store ''LOCAL'' ls c1)))))"

text \<open>\<open>InitLogSystemSetup\<close>: the settings, if the status says that there are any.\<close>

definition InitLogSystemSetup :: "string option \<Rightarrow> logger_config \<Rightarrow> logger_config option" where
  "InitLogSystemSetup file_text raw =
     (let c = logger_ReadIni file_text (tconfig_new raw) in
      if lc_ConfigStatus c then Some c else None)"

section \<open>What the others ask for\<close>

definition GetStore :: "logger_config \<Rightarrow> string \<Rightarrow> logger_store" where
  "GetStore c k =
     (case map_of (lc_Category_Store c) k of
        Some s \<Rightarrow> s | None \<Rightarrow> \<lparr>store_port = 0, store_address = []\<rparr>)"

definition LocalPort :: "logger_config \<Rightarrow> nat" where
  "LocalPort c = store_port (GetStore c ''LOCAL'')"
definition LocalAddress :: "logger_config \<Rightarrow> string" where
  "LocalAddress c = store_address (GetStore c ''LOCAL'')"
definition RemotePort :: "logger_config \<Rightarrow> nat" where
  "RemotePort c = store_port (GetStore c ''REMOTE'')"
definition RemoteAddress :: "logger_config \<Rightarrow> string" where
  "RemoteAddress c = store_address (GetStore c ''REMOTE'')"

definition CheckPeriod :: "logger_config \<Rightarrow> nat" where
  "CheckPeriod c = lc_checkperiod c * 1000 mod 2 ^ 32"

text \<open>\<open>Folder\<close> keeps what it has added. The character at 0 of an empty text is the end mark.\<close>

definition Folder :: "logger_config \<Rightarrow> string \<times> logger_config" where
  "Folder c =
     (let f = lc_folder c;
          f1 = (if f = [] \<or> (hd f \<noteq> CHR ''/'' \<and> hd f \<noteq> CHR ''.'') then CHR ''/'' # f else f);
          f2 = (if last f1 \<noteq> CHR ''/'' then f1 @ ''/'' else f1)
      in (f2, c\<lparr>lc_folder := f2\<rparr>))"

definition max_archive_count :: "logger_config \<Rightarrow> nat" where
  "max_archive_count c = (if lc_max_archive_count c > 0 then lc_max_archive_count c else 10)"

definition logger_get_loglevel :: "logger_config \<Rightarrow> nat \<times> logger_config" where
  "logger_get_loglevel c =
     (let l = (if lc_loglevel c > 2 then 2 else lc_loglevel c) in (l, c\<lparr>lc_loglevel := l\<rparr>))"

text \<open>The first factor is cast to \<open>ulong\<close>, so nothing is cut.\<close>

definition close_descriptors_period :: "logger_config \<Rightarrow> nat" where
  "close_descriptors_period c = lc_close_descriptors_period c * 60 * 1000"

definition ConvertToDecFromOct :: "string \<Rightarrow> int" where
  "ConvertToDecFromOct s =
     (let t = lskip s;
          v = (case t of
                 [] \<Rightarrow> 0
               | x # xs \<Rightarrow> if x = CHR ''-'' then - base_digits 8 0 xs
                           else if x = CHR ''+'' then base_digits 8 0 xs else base_digits 8 0 t)
      in max (- (2 ^ 63)) (min (2 ^ 63 - 1) v))"

definition mode_dir_local :: "logger_config \<Rightarrow> nat" where
  "mode_dir_local c = to_uint (ConvertToDecFromOct (lc_mode_dir c))"
definition mode_file_local :: "logger_config \<Rightarrow> nat" where
  "mode_file_local c = to_uint (ConvertToDecFromOct (lc_mode_file c))"

definition IsNeedToCheckErrors :: "logger_config \<Rightarrow> bool" where
  "IsNeedToCheckErrors c \<longleftrightarrow>
     lc_error_counter c > 0 \<and> lc_registered_error_level c > 0 \<and> lc_emails_error c \<noteq> []"

text \<open>Minutes in the file, seconds for the monitor; zero stands for the default.\<close>

definition reset_error_timeout :: "logger_config \<Rightarrow> nat \<times> logger_config" where
  "reset_error_timeout c =
     (let t = (if lc_reset_error_timeout c = 0 then 10 else lc_reset_error_timeout c)
      in (t * 60, c\<lparr>lc_reset_error_timeout := t\<rparr>))"

definition email_error_timeout :: "logger_config \<Rightarrow> nat \<times> logger_config" where
  "email_error_timeout c =
     (let t = (if lc_email_error_timeout c = 0 then 30 else lc_email_error_timeout c)
      in (t * 60, c\<lparr>lc_email_error_timeout := t\<rparr>))"

section \<open>The start of the program\<close>

datatype logger_cmd =
  lcEmpty | lcStart | lcVersion | lcInfo | lcStop | lcState | lcPid | lcReconfig | lcPause | lcResume

definition logger_GetCmd :: "string \<Rightarrow> logger_cmd" where
  "logger_GetCmd ss =
     (let s = xstrlower ss in
      if s = ''-c'' then lcStart
      else if s = ''stop'' \<or> s = ''exit'' then lcStop
      else if s = ''-v'' \<or> s = ''version'' then lcVersion
      else if s = ''-i'' \<or> s = ''info'' then lcInfo
      else if s = ''-s'' \<or> s = ''state'' then lcState
      else if s = ''-p'' \<or> s = ''pid'' then lcPid
      else if s = ''reconfig'' then lcReconfig
      else if s = ''pause'' then lcPause
      else if s = ''resume'' then lcResume
      else lcEmpty)"

text \<open>\<open>getPid\<close>: the program ends when there is no file; else the number in its first 16 bytes.\<close>

definition logger_getPid :: "string option \<Rightarrow> int option" where
  "logger_getPid pid_file = map_option (\<lambda>s. c_atoi (take 16 s)) pid_file"

datatype logger_signal = SIGUSR1 | SIGTERM | SIGHUP | SIGTSTP | SIGCONT

definition signal_of :: "logger_cmd \<Rightarrow> logger_signal option" where
  "signal_of cmd =
     (case cmd of
        lcState \<Rightarrow> Some SIGUSR1 | lcStop \<Rightarrow> Some SIGTERM | lcReconfig \<Rightarrow> Some SIGHUP
      | lcPause \<Rightarrow> Some SIGTSTP | lcResume \<Rightarrow> Some SIGCONT | _ \<Rightarrow> None)"

text \<open>
  How far the program comes: it ends with a code; it sends a signal and ends; it works on something
  that is not there (a name without a slash, a thread that was never made); it serves, with
  its settings, its list of messages, and whether the threads for mails and for the other
  server have been started.
\<close>

datatype logger_start =
    LExit int
  | LSignal int logger_signal
  | LUndefined
  | LServe logger_config tclientmessage bool bool

definition logger_serve :: "logger_config \<Rightarrow> logger_start" where
  "logger_serve c0 =
     (let c = snd (logger_get_loglevel c0);
          st = lc_CurrentStoreType c;
          errs = (st = LOCAL_STORE \<and> IsNeedToCheckErrors c)
      in LServe c
           (TClientMessage_new (st = LOCAL_STORE) (lc_max_list_size c)
              (if IsNeedToCheckErrors c then lc_registered_error_level c else 0))
           errs (\<not> errs \<and> st = REMOTE_STORE))"

definition logger_main ::
  "string list \<Rightarrow> (string \<Rightarrow> string option) \<Rightarrow> (string \<Rightarrow> bool) \<Rightarrow> bool \<Rightarrow> logger_config \<Rightarrow> logger_start"
where
  "logger_main args contents there daemon_ok raw =
     (if length args < 2 then LExit 1
      else
       (case find_last CHR ''/'' (hd args) of
          None \<Rightarrow> LUndefined
        | Some i \<Rightarrow>
           (let pidfile_name = ''./'' @ drop (Suc i) (hd args) @ ''.pid'';
                cmd = logger_GetCmd (args ! 1) in
            if cmd \<noteq> lcStart then
              (case logger_getPid (contents pidfile_name) of
                 None \<Rightarrow> LExit (- 1)
               | Some m_pid \<Rightarrow>
                   (case signal_of cmd of None \<Rightarrow> LExit 0 | Some sg \<Rightarrow> LSignal m_pid sg))
            else if length args < 3 \<or> \<not> there (args ! 2) then LExit 1
            else
              (case InitLogSystemSetup (contents (args ! 2)) raw of
                 None \<Rightarrow> LUndefined
               | Some c \<Rightarrow> if lc_is_daemon c \<and> \<not> daemon_ok then LUndefined else logger_serve c))))"

section \<open>Facts\<close>

text \<open>Addresses with blanks between them.\<close>

fun blank_joined :: "string list \<Rightarrow> string" where
  "blank_joined [] = []"
| "blank_joined [e] = e"
| "blank_joined (e # es) = e @ '' '' @ blank_joined es"

definition plain_address :: "string \<Rightarrow> bool" where
  "plain_address e \<longleftrightarrow> e \<noteq> [] \<and> CHR '' '' \<notin> set e"

lemma emails_loop_last: "plain_address e \<Longrightarrow> emails_loop e = [e]"
  by (subst emails_loop.simps) (simp add: plain_address_def is_valid_email_def find_chr_None [THEN iffD2])

lemma emails_loop_next:
  "plain_address e \<Longrightarrow> s \<noteq> [] \<Longrightarrow> emails_loop (e @ CHR '' '' # s) = e # emails_loop s"
  by (subst emails_loop.simps) (simp add: plain_address_def is_valid_email_def find_chr_append)

lemma emails_loop_joined:
  "list_all plain_address es \<Longrightarrow> es \<noteq> [] \<Longrightarrow> emails_loop (blank_joined es) = es"
proof (induction es rule: blank_joined.induct)
  case (3 e e2 es)
  have "blank_joined (e2 # es) \<noteq> []" using 3(2) by (cases es) (auto simp: plain_address_def)
  then show ?case using 3 by (simp add: emails_loop_next)
qed (simp_all add: emails_loop_last)

text \<open>Every address found is one without blanks.\<close>

lemma emails_loop_plain: "list_all plain_address (emails_loop s)"
proof (induction s rule: emails_loop.induct)
  case (1 s)
  let ?len = "case find_chr CHR '' '' s of None \<Rightarrow> length s | Some i \<Rightarrow> i"
  have p: "CHR '' '' \<notin> set (take ?len s)"
    by (cases "CHR '' '' \<in> set s") (auto simp: find_chr_None [THEN iffD2] dest: in_set_takeD
        dest!: split_list_first simp: find_chr_append)
  let ?found = "if take ?len s \<noteq> [] \<and> is_valid_email (take ?len s) then [take ?len s] else []"
  have f: "list_all plain_address ?found" using p by (simp add: plain_address_def)
  show ?case
  proof (cases "drop (Suc ?len) s = []")
    case True
    then show ?thesis using f by (subst emails_loop.simps) (simp add: Let_def)
  next
    case False
    then have "list_all plain_address (emails_loop (drop (Suc ?len) s))"
      using 1 [OF refl refl refl refl] by simp
    then show ?thesis using f False by (subst emails_loop.simps) (simp add: Let_def)
  qed
qed

lemma choose_store_keeps [simp]:
  "lc_Category_Store (choose_store c) = lc_Category_Store c"
  "lc_emails_error (choose_store c) = lc_emails_error c"
  "lc_email_volume (choose_store c) = lc_email_volume c"
  "lc_max_list_size (choose_store c) = lc_max_list_size c"
  by (simp_all add: choose_store_def Let_def)

lemma read_remote_keeps [simp]:
  "lc_CurrentStoreType (read_remote r c) = lc_CurrentStoreType c"
  "lc_ConfigStatus (read_remote r c) = lc_ConfigStatus c"
  "lc_emails_error (read_remote r c) = lc_emails_error c"
  "lc_email_volume (read_remote r c) = lc_email_volume c"
  by (simp_all add: read_remote_def put_store_def Let_def)

lemma read_remote_stores:
  "map_of (lc_Category_Store (read_remote r c)) =
     (if SectionExists r ''REMOTE'' \<and> store_given (read_store r ''REMOTE'')
      then (map_of (lc_Category_Store c))(''REMOTE'' \<mapsto> read_store r ''REMOTE'')
      else map_of (lc_Category_Store c))"
  by (simp add: read_remote_def put_store_def Let_def map_of_smap_put)

section \<open>Properties\<close>

text \<open>
  The addresses for the mails are read back: a list of addresses without blanks, written with a
  blank between any two, is the list the server gets.
\<close>

theorem addresses_read_back:
  "list_all plain_address es \<Longrightarrow> emails_error (blank_joined es) = es"
  using emails_loop_joined [of es]
  by (cases es rule: blank_joined.cases) (auto simp: emails_error_def plain_address_def)

lemma addresses_read_back_witness: "emails_error ''a@b.c d@e.f'' = [''a@b.c'', ''d@e.f'']"
  using addresses_read_back [of "[''a@b.c'', ''d@e.f'']"] by (simp add: plain_address_def)

text \<open>A start with clean memory: refused, or taken as it is read.\<close>

definition read_all :: "ini_map \<Rightarrow> logger_config \<Rightarrow> logger_config" where
  "read_all r raw = read_common r (read_remote r
     (put_store ''LOCAL'' (read_store r ''LOCAL'') (read_local r (tconfig_new raw))))"

lemma setup_refused:
  assumes "\<not> lc_ConfigStatus raw" "ini_parse f = (v, r)" "v \<noteq> 0 \<or> \<not> store_given (read_store r ''LOCAL'')"
  shows "InitLogSystemSetup f raw = None"
  using assms
  by (auto simp: InitLogSystemSetup_def logger_ReadIni_def store_given_def Let_def tconfig_new_def read_local_def)

lemma read_all_type: "lc_CurrentStoreType (read_all r raw) = lc_CurrentStoreType raw"
  by (simp add: read_all_def read_common_def put_store_def read_local_def tconfig_new_def Let_def)

lemma setup_taken:
  assumes "lc_CurrentStoreType raw = EMPTY_STORE" "ini_parse f = (0, r)" "store_given (read_store r ''LOCAL'')"
  shows "InitLogSystemSetup f raw = Some (choose_store (read_all r raw))"
  using assms read_all_type [of r raw]
  by (simp add: InitLogSystemSetup_def logger_ReadIni_def store_given_def Let_def choose_store_def
      EMPTY_STORE_def REMOTE_STORE_def LOCAL_STORE_def flip: read_all_def)

lemma choose_store_type:
  "lc_CurrentStoreType c = EMPTY_STORE \<Longrightarrow> lc_CurrentStoreType (choose_store c) =
     (if IsStoreExists c ''REMOTE'' then REMOTE_STORE else LOCAL_STORE)"
  by (simp add: choose_store_def EMPTY_STORE_def Let_def)

lemma read_all_stores:
  "map_of (lc_Category_Store (read_all r raw)) =
     (if SectionExists r ''REMOTE'' \<and> store_given (read_store r ''REMOTE'')
      then [''LOCAL'' \<mapsto> read_store r ''LOCAL'', ''REMOTE'' \<mapsto> read_store r ''REMOTE'']
      else [''LOCAL'' \<mapsto> read_store r ''LOCAL''])"
  using read_remote_stores [of r "put_store ''LOCAL'' (read_store r ''LOCAL'') (read_local r (tconfig_new raw))"]
  by (simp add: read_all_def read_common_def put_store_def read_local_def tconfig_new_def Let_def)

lemma setup_cases:
  assumes "lc_CurrentStoreType raw = EMPTY_STORE" "\<not> lc_ConfigStatus raw"
    and "InitLogSystemSetup f raw = Some c"
  obtains r where "ini_parse f = (0, r)" "store_given (read_store r ''LOCAL'')" "c = choose_store (read_all r raw)"
proof -
  obtain v r where p: "ini_parse f = (v, r)" by (cases "ini_parse f")
  have "v = 0" "store_given (read_store r ''LOCAL'')"
    using setup_refused [OF assms(2) p] assms(3) by auto
  then show ?thesis using that setup_taken [OF assms(1)] p assms(3) by auto
qed

text \<open>
  C21. Started with clean memory, the log server accepts exactly the files that parse and name a port
  and an address for its own socket, and takes these; it passes messages on if a section for
  the other server names both as well, and writes them itself if not.
\<close>

theorem setup_accepts:
  assumes "lc_CurrentStoreType raw = EMPTY_STORE" "\<not> lc_ConfigStatus raw" "ini_parse f = (v, r)"
  shows "(InitLogSystemSetup f raw = None \<longleftrightarrow> v \<noteq> 0 \<or> \<not> store_given (read_store r ''LOCAL'')) \<and>
    (\<forall>c. InitLogSystemSetup f raw = Some c \<longrightarrow>
       LocalPort c = store_port (read_store r ''LOCAL'') \<and>
       LocalAddress c = store_address (read_store r ''LOCAL'') \<and>
       lc_CurrentStoreType c =
         (if SectionExists r ''REMOTE'' \<and> store_given (read_store r ''REMOTE'')
          then REMOTE_STORE else LOCAL_STORE) \<and>
       (lc_CurrentStoreType c = REMOTE_STORE \<longrightarrow>
          RemotePort c = store_port (read_store r ''REMOTE'') \<and>
          RemoteAddress c = store_address (read_store r ''REMOTE'')))"
proof (cases "v = 0 \<and> store_given (read_store r ''LOCAL'')")
  case False
  then show ?thesis using setup_refused [OF assms(2,3)] by auto
next
  case True
  then have "InitLogSystemSetup f raw = Some (choose_store (read_all r raw))"
    using setup_taken [OF assms(1)] assms(3) by simp
  then show ?thesis
    using True choose_store_type [of "read_all r raw"] read_all_type [of r raw] read_all_stores [of r raw] assms(1)
    by (auto simp: LocalPort_def LocalAddress_def RemotePort_def RemoteAddress_def GetStore_def
        IsStoreExists_def REMOTE_STORE_def LOCAL_STORE_def)
qed

definition clean :: logger_config where
  "clean = \<lparr>lc_CurrentStoreType = 0, lc_ConfigStatus = False, lc_cfg_error = 0,
     lc_Category_Store = [], lc_max_list_size = 0, lc_logfile = [], lc_folder = [],
     lc_max_file_size = 0, lc_max_local_size = 0, lc_max_archive_count = 0, lc_checkperiod = 0,
     lc_loglevel = 0, lc_close_descriptors_period = 0, lc_retry_interval = 0, lc_logsize = 0,
     lc_owner_user = [], lc_owner_group = [], lc_mode_dir = [], lc_mode_file = [],
     lc_error_counter = 0, lc_registered_error_level = 0, lc_reset_error_timeout = 0,
     lc_email_error_timeout = 0, lc_emails_error = [], lc_email_volume = 0, lc_header = [],
     lc_is_daemon = False, lc_size_in_memo = 0\<rparr>"

definition demo_logger_ini :: string where
  "demo_logger_ini = concat (map (\<lambda>l. l @ newline)
     [''[LOCAL]'', ''port=3333'', ''address=home''])"

definition demo_logger_map :: ini_map where
  "demo_logger_map =
     [(''local=address'', ''home''), (''local=port'', ''3333'')]"

lemma demo_logger_parsed: "ini_parse (Some demo_logger_ini) = (0, demo_logger_map)"
  by code_simp

lemma demo_logger_values:
  "store_port (read_store demo_logger_map ''LOCAL'') = 3333"
  "store_address (read_store demo_logger_map ''LOCAL'') = ''home''"
  "\<not> SectionExists demo_logger_map ''REMOTE''"
  "\<not> GetBoolean demo_logger_map ''COMMON'' ''daemon'' False"
  by code_simp+

lemma demo_logger_taken:
  "InitLogSystemSetup (Some demo_logger_ini) clean = Some (choose_store (read_all demo_logger_map clean))"
  "lc_CurrentStoreType (choose_store (read_all demo_logger_map clean)) = LOCAL_STORE"
  "\<not> lc_is_daemon (choose_store (read_all demo_logger_map clean))"
proof -
  have c: "lc_CurrentStoreType clean = EMPTY_STORE" by (simp add: clean_def EMPTY_STORE_def)
  show "InitLogSystemSetup (Some demo_logger_ini) clean = Some (choose_store (read_all demo_logger_map clean))"
    using setup_taken [OF c demo_logger_parsed] demo_logger_values by (simp add: store_given_def)
  show "lc_CurrentStoreType (choose_store (read_all demo_logger_map clean)) = LOCAL_STORE"
    using c read_all_stores [of demo_logger_map clean] demo_logger_values
    by (simp add: choose_store_type read_all_type IsStoreExists_def)
  show "\<not> lc_is_daemon (choose_store (read_all demo_logger_map clean))"
    using demo_logger_values by (simp add: choose_store_def read_all_def read_common_def Let_def)
qed

theorem setup_accepts_witness:
  "\<exists>c. InitLogSystemSetup (Some demo_logger_ini) clean = Some c \<and>
     LocalPort c = 3333 \<and> LocalAddress c = ''home'' \<and> lc_CurrentStoreType c = LOCAL_STORE"
  using setup_accepts [of clean "Some demo_logger_ini" 0 demo_logger_map] demo_logger_parsed
    demo_logger_values demo_logger_taken(1)
  by (simp add: clean_def EMPTY_STORE_def)

text \<open>
  Two members that decide whether a configuration is accepted are never set before: with other
  memory a file that cannot be read is accepted, and the server runs with the type
  of store and the sizes that memory holds, without a socket of its own, and with its folder at
  the root of the disk.
\<close>

theorem bad_file_accepted:
  assumes "ini_parse f = (v, r)" "v \<noteq> 0" "lc_ConfigStatus raw"
  shows "\<exists>c. InitLogSystemSetup f raw = Some c \<and>
    lc_CurrentStoreType c = lc_CurrentStoreType raw \<and> lc_max_list_size c = lc_max_list_size raw \<and>
    LocalPort c = 0 \<and> LocalAddress c = [] \<and> fst (Folder c) = ''/''"
  using assms
  by (simp add: InitLogSystemSetup_def logger_ReadIni_def tconfig_new_def LocalPort_def LocalAddress_def
      GetStore_def Folder_def Let_def)

lemma bad_file_accepted_witness:
  "\<exists>c. InitLogSystemSetup None (clean\<lparr>lc_ConfigStatus := True, lc_CurrentStoreType := 77\<rparr>) = Some c \<and>
     lc_CurrentStoreType c = 77 \<and> fst (Folder c) = ''/''"
  using bad_file_accepted [of None "- 1" "[]" "clean\<lparr>lc_ConfigStatus := True, lc_CurrentStoreType := 77\<rparr>"]
  by (auto simp: ini_parse_def)

text \<open>
  Whatever the file says and memory held, what the server asks its settings for is in range: the
  level of its own log, the number of archives, the folder with slashes where they are needed
  (and the same when asked again); and from a file that was read the size of a mail and
  addresses without blanks.
\<close>

theorem settings_in_range:
  assumes "InitLogSystemSetup f raw = Some c"
  shows "fst (logger_get_loglevel c) \<le> 2 \<and> 0 < max_archive_count c \<and>
    last (fst (Folder c)) = CHR ''/'' \<and> hd (fst (Folder c)) \<in> {CHR ''/'', CHR ''.''} \<and>
    fst (Folder (snd (Folder c))) = fst (Folder c) \<and>
    (fst (ini_parse f) = 0 \<longrightarrow> lc_email_volume c \<le> 20 \<and> list_all plain_address (lc_emails_error c))"
proof -
  have folder: "last (fst (Folder d)) = CHR ''/''" "hd (fst (Folder d)) \<in> {CHR ''/'', CHR ''.''}"
    "fst (Folder (snd (Folder d))) = fst (Folder d)" for d
    by (auto simp: Folder_def Let_def)
  have mails: "list_all plain_address (emails_error s)" for s
    using emails_loop_plain [of s] by (simp add: emails_error_def)
  have l: "lc_email_volume (read_local r d) \<le> 20" "list_all plain_address (lc_emails_error (read_local r d))"
    for r d using mails by (simp_all add: read_local_def Let_def)
  have "lc_email_volume c \<le> 20 \<and> list_all plain_address (lc_emails_error c)" if "fst (ini_parse f) = 0"
    using assms that l
    by (auto simp: InitLogSystemSetup_def logger_ReadIni_def Let_def read_common_def put_store_def
        split: prod.splits if_splits)
  then show ?thesis using folder
    by (simp add: logger_get_loglevel_def max_archive_count_def Let_def)
qed

theorem settings_in_range_witness:
  "\<exists>c. InitLogSystemSetup (Some demo_logger_ini) clean = Some c \<and> lc_email_volume c \<le> 20 \<and>
     last (fst (Folder c)) = CHR ''/''"
proof -
  have p: "fst (ini_parse (Some demo_logger_ini)) = 0" using demo_logger_parsed by simp
  obtain c where "InitLogSystemSetup (Some demo_logger_ini) clean = Some c"
    using demo_logger_taken(1) by blast
  from settings_in_range [OF this] this p show ?thesis by auto
qed

text \<open>
  The file with the process number is read for every command and written by no one: without it
  each command but the start ends with an error, unknown ones too, and with an empty one
  the signal goes to process 0, which is the whole group of the caller.
\<close>

theorem commands_need_pid_file:
  assumes "args = app # cmd # rest" "find_last CHR ''/'' app = Some i" "logger_GetCmd cmd \<noteq> lcStart"
    and "pid = ''./'' @ drop (Suc i) app @ ''.pid''"
  shows "(contents pid = None \<longrightarrow> logger_main args contents there ok raw = LExit (- 1)) \<and>
    (contents pid = Some [] \<longrightarrow> logger_main args contents there ok raw =
       (case signal_of (logger_GetCmd cmd) of None \<Rightarrow> LExit 0 | Some sg \<Rightarrow> LSignal 0 sg))"
proof -
  have "logger_getPid (Some []) = Some 0" by code_simp
  then show ?thesis using assms by (auto simp: logger_main_def logger_getPid_def [of None] Let_def)
qed

lemma commands_need_pid_file_witness:
  "logger_main [''./logger'', ''STOP''] (\<lambda>_. None) (\<lambda>_. True) True clean = LExit (- 1)"
proof -
  have "find_last CHR ''/'' ''./logger'' = Some 1" "logger_GetCmd ''STOP'' \<noteq> lcStart" by code_simp+
  from commands_need_pid_file [OF refl this refl, of "\<lambda>_. None"] show ?thesis by simp
qed

lemma logger_main_serves:
  assumes "logger_main args contents there ok raw = LServe c m errs rem"
  shows "\<exists>c0. InitLogSystemSetup (contents (args ! 2)) raw = Some c0 \<and> length args \<ge> 3 \<and>
    logger_serve c0 = LServe c m errs rem"
  using assms unfolding logger_main_def Let_def by (simp split: if_splits option.splits)

text \<open>
  A server that serves has its settings from an accepted file: with a clean memory its list takes
  the size of the file, cut to 16 bits, the threads fit the type of its store, and it counts
  errors only if the file names a count, a level and an address.
\<close>

theorem logger_serves:
  assumes "logger_main args contents there ok raw = LServe c m errs rem"
    and "lc_CurrentStoreType raw = EMPTY_STORE" "\<not> lc_ConfigStatus raw"
  shows "\<exists>c0. InitLogSystemSetup (contents (args ! 2)) raw = Some c0 \<and> c = snd (logger_get_loglevel c0) \<and>
    length args \<ge> 3 \<and> message_list m = [] \<and> MaxStoreListSize m = lc_max_list_size c mod 65536 \<and>
    (local_category m \<longleftrightarrow> lc_CurrentStoreType c = LOCAL_STORE) \<and>
    (rem \<longleftrightarrow> \<not> local_category m) \<and> (errs \<longleftrightarrow> local_category m \<and> 0 < ErrorLevel m)"
proof -
  obtain c0 where c0: "InitLogSystemSetup (contents (args ! 2)) raw = Some c0" "length args \<ge> 3"
    "logger_serve c0 = LServe c m errs rem"
    using logger_main_serves [OF assms(1)] by blast
  obtain r where r: "c0 = choose_store (read_all r raw)" using setup_cases [OF assms(2,3) c0(1)] by blast
  have t: "lc_CurrentStoreType c0 = REMOTE_STORE \<or> lc_CurrentStoreType c0 = LOCAL_STORE"
    unfolding r using choose_store_type [of "read_all r raw"] read_all_type [of r raw] assms(2) by simp
  have ne: "REMOTE_STORE \<noteq> LOCAL_STORE" by (simp add: REMOTE_STORE_def LOCAL_STORE_def)
  have c: "c = snd (logger_get_loglevel c0)" "m = TClientMessage_new (lc_CurrentStoreType c = LOCAL_STORE)
        (lc_max_list_size c) (if IsNeedToCheckErrors c then lc_registered_error_level c else 0)"
    "errs = (lc_CurrentStoreType c = LOCAL_STORE \<and> IsNeedToCheckErrors c)"
    "rem = (\<not> errs \<and> lc_CurrentStoreType c = REMOTE_STORE)"
    using c0(3) unfolding logger_serve_def Let_def logger_start.inject by (blast, blast, blast, blast)
  have ct: "lc_CurrentStoreType c = lc_CurrentStoreType c0"
    by (simp add: c(1) logger_get_loglevel_def Let_def)
  have e: "IsNeedToCheckErrors c \<Longrightarrow> 0 < lc_registered_error_level c"
    by (simp add: IsNeedToCheckErrors_def)
  have m: "message_list m = []" "MaxStoreListSize m = lc_max_list_size c mod 65536"
    "local_category m = (lc_CurrentStoreType c = LOCAL_STORE)"
    "ErrorLevel m = (if IsNeedToCheckErrors c then lc_registered_error_level c else 0)"
    by (simp_all add: c(2) TClientMessage_new_def)
  have k: "rem = (\<not> local_category m)" using t ne unfolding c(3,4) m(3) ct by auto
  have "errs = (local_category m \<and> 0 < ErrorLevel m)" using e unfolding c(3) m(3,4) by auto
  then show ?thesis using c0(1,2) c(1) m(1-3) k by blast
qed

theorem logger_serves_witness:
  "\<exists>c m errs rem. logger_main [''./logger'', ''-c'', ''l.ini''] (\<lambda>_. Some demo_logger_ini) (\<lambda>_. True) True clean
      = LServe c m errs rem \<and> message_list m = [] \<and> local_category m"
proof -
  let ?run = "logger_main [''./logger'', ''-c'', ''l.ini''] (\<lambda>_. Some demo_logger_ini) (\<lambda>_. True) True clean"
  let ?c0 = "choose_store (read_all demo_logger_map clean)"
  have "find_last CHR ''/'' ''./logger'' = Some 1" "logger_GetCmd ''-c'' = lcStart" by code_simp+
  then have "?run = logger_serve ?c0" using demo_logger_taken(1,3) by (simp add: logger_main_def Let_def)
  then obtain c m errs rem where run: "?run = LServe c m errs rem" by (simp add: logger_serve_def Let_def)
  from logger_serves [OF run] demo_logger_taken(1,2) show ?thesis
    using run by (auto simp: clean_def EMPTY_STORE_def logger_get_loglevel_def)
qed

end
