(* ===== verification/Logger_Server.thy ===== *)
theory Logger_Server
  imports Logger_Config Socket
begin

unbundle bit_operations_syntax

text \<open>
  \<open>logger/tclientsocket.cpp\<close> (the accepting loop and the thread of a client) and \<open>email.cpp\<close>: how a
  record comes into the log server. What \<open>msgpack\<close> makes of the bytes of a client is the
  argument \<open>unpack\<close>: a map, or \<open>None\<close> where it throws; no one catches that, so the server
  ends. What the kernel gives to \<open>recv\<close> is a list of results, as in \<open>Socket\<close>.
\<close>

section \<open>The thread of a client\<close>

definition ERROR_HEADER_FORMAT :: nat where
  "ERROR_HEADER_FORMAT = ERROR_EMPTY_DOMAIN OR ERROR_EMPTY_FILENAME"

text \<open>
  The thread still waits, it ends the server, or it has answered: its text, and the record if it
  goes to the list.
\<close>

datatype client_end = Waiting | Uncaught | Served string "tlogmsg option"

definition handler_client_thread :: "(string \<Rightarrow> tdata_map option) \<Rightarrow> recv_result list \<Rightarrow> client_end" where
  "handler_client_thread unpack rs =
     (case recv_loop rs [] of
        None \<Rightarrow> Waiting
      | Some (str, _) \<Rightarrow>
          (case unpack str of
             None \<Rightarrow> Uncaught
           | Some result \<Rightarrow>
               let SocketMessage = TLogMsg_new result str;
                   v = m_ErrorHeadersValue SocketMessage
               in Served (show_nat v)
                    (if v AND ERROR_HEADER_FORMAT = 0 then Some SocketMessage else None)))"

text \<open>The list of messages after a client; \<open>None\<close> when the server has ended.\<close>

definition serve_client ::
  "(string \<Rightarrow> tdata_map option) \<Rightarrow> recv_result list \<Rightarrow> tclientmessage
     \<Rightarrow> (string list \<times> tclientmessage \<times> signal list) option" where
  "serve_client unpack rs c =
     (case handler_client_thread unpack rs of
        Waiting \<Rightarrow> Some ([], c, [])
      | Uncaught \<Rightarrow> None
      | Served reply mo \<Rightarrow>
          (case mo of
             None \<Rightarrow> Some ([reply], c, [])
           | Some m \<Rightarrow> let (c', sg) = AddMessage c m in Some ([reply], c', sg)))"

primrec serve_clients ::
  "(string \<Rightarrow> tdata_map option) \<Rightarrow> recv_result list list \<Rightarrow> tclientmessage
     \<Rightarrow> (string list \<times> tclientmessage \<times> signal list) option" where
  "serve_clients unpack [] c = Some ([], c, [])"
| "serve_clients unpack (rs # rss) c =
     (case serve_client unpack rs c of
        None \<Rightarrow> None
      | Some (a, c1, sg) \<Rightarrow>
          (case serve_clients unpack rss c1 of
             None \<Rightarrow> None
           | Some (b, c2, sg') \<Rightarrow> Some (a @ b, c2, sg @ sg')))"

text \<open>The files a server writes, by its settings.\<close>

definition configured_filethread :: "logger_config \<Rightarrow> mmessagelist \<Rightarrow> filethread" where
  "configured_filethread lc =
     filethread_new (fst (Folder lc)) (lc_max_file_size lc) (max_archive_count lc)
       (lc_CurrentStoreType lc = LOCAL_STORE)"

section \<open>The accepting loop\<close>

text \<open>
  \<open>do_accept\<close> gives each new thread the address of its own variable \<open>clientfd\<close>, which lies at the
  same place in every turn; the thread reads it when it gets to run. \<open>slot\<close> is what stands
  there, \<open>started\<close> the number of threads that have not read it, \<open>taken\<close> what the others have
  found. A turn accepts a client, or fails to, or accepts one that cannot be set up.
\<close>

record acceptor =
  slot :: int
  started :: nat
  accepted :: "int list"
  taken :: "int list"

definition acceptor_new :: "int \<Rightarrow> acceptor" where
  "acceptor_new v = \<lparr>slot = v, started = 0, accepted = [], taken = []\<rparr>"

inductive accept_step :: "acceptor \<Rightarrow> acceptor \<Rightarrow> bool" where
  accept_ok: "0 \<le> fd \<Longrightarrow>
    accept_step s (s\<lparr>slot := fd, started := Suc (started s), accepted := accepted s @ [fd]\<rparr>)"
| accept_failed: "accept_step s (s\<lparr>slot := - 1\<rparr>)"
| fcntl_failed: "0 \<le> fd \<Longrightarrow> accept_step s (s\<lparr>slot := fd\<rparr>)"
| thread_reads: "started s = Suc n \<Longrightarrow> accept_step s (s\<lparr>started := n, taken := taken s @ [slot s]\<rparr>)"

inductive_cases accept_stepE: "accept_step s t"

inductive accept_run :: "acceptor \<Rightarrow> acceptor \<Rightarrow> bool" where
  run_here: "accept_run s s"
| run_next: "accept_run s t \<Longrightarrow> accept_step t u \<Longrightarrow> accept_run s u"

section \<open>The mail\<close>

text \<open>
  \<open>TEMail::send_mail\<close>: what goes into the pipe of the mail program for each address, up to the
  first pipe that cannot be opened.
\<close>

definition mail_text :: "string \<Rightarrow> string list \<Rightarrow> string" where
  "mail_text address msgs =
     ''To: '' @ address @ newline @ ''From: Logger'' @ newline @
     ''Subject: Logger Error Notification'' @ newline @ newline @
     concat (map (\<lambda>m. m @ ''.'' @ newline) msgs)"

primrec send_mail_loop :: "(nat \<Rightarrow> bool) \<Rightarrow> nat \<Rightarrow> string list \<Rightarrow> string list \<Rightarrow> string list" where
  "send_mail_loop opens i [] msgs = []"
| "send_mail_loop opens i (a # as) msgs =
     (if opens i then mail_text a msgs # send_mail_loop opens (Suc i) as msgs else [])"

definition send_mail :: "(nat \<Rightarrow> bool) \<Rightarrow> string list \<Rightarrow> string list \<Rightarrow> string list" where
  "send_mail opens emails msgs =
     (if emails = [] \<or> msgs = [] then [] else send_mail_loop opens 0 emails msgs)"

section \<open>Facts\<close>

text \<open>A client that sends its bytes in pieces and closes.\<close>

definition sends :: "string list \<Rightarrow> recv_result list" where
  "sends ps = map Got ps @ [Closed]"

lemma recv_loop_sends: "[] \<notin> set ps \<Longrightarrow> recv_loop (sends ps) str = Some (str @ concat ps, [])"
  by (induction ps arbitrary: str) (auto simp: sends_def)

lemma recv_loop_again: "[] \<notin> set ps \<Longrightarrow> recv_loop (map Got ps @ RecvAgain # rs) str = Some (str @ concat ps, rs)"
  by (induction ps arbitrary: str) auto

text \<open>The value of the headers of a record, and what of it keeps the record from the list.\<close>

lemma header_bits:
  "v AND ERROR_HEADER_FORMAT = v mod 4"
proof -
  have "ERROR_HEADER_FORMAT = mask 2"
    by (simp add: ERROR_HEADER_FORMAT_def ERROR_EMPTY_DOMAIN_def ERROR_EMPTY_FILENAME_def mask_eq_exp_minus_1)
  then have "v AND ERROR_HEADER_FORMAT = take_bit 2 v" by (simp only: take_bit_eq_mask)
  then show ?thesis by (simp add: take_bit_eq_mod)
qed

definition record_for :: "string \<Rightarrow> string \<Rightarrow> string \<Rightarrow> tdata_map \<Rightarrow> bool" where
  "record_for d f t dm \<longleftrightarrow> map_of dm ''data_type'' = Some ''logger'' \<and> map_of dm ''domain'' = Some d \<and>
     map_of dm ''filename'' = Some f \<and> map_of dm ''message'' = Some t \<and> map_of dm ''command'' = None"

lemma record_accepted:
  assumes "record_for d f t dm"
  shows "m_ErrorHeadersValue (TLogMsg_new dm str) = 0"
  using assms by (auto simp: record_for_def TLogMsg_new_def CheckLoggerData_def OK_HEADER_def)

lemma record_parsed:
  assumes "record_for d f t dm"
  shows "m_Event (ParseData (TLogMsg_new dm str)) = evMsg" "m_msg (ParseData (TLogMsg_new dm str)) = t"
    "m_domain (ParseData (TLogMsg_new dm str)) = d" "m_filename (ParseData (TLogMsg_new dm str)) = f"
  using assms by (simp_all add: record_for_def ParseData_def TLogMsg_new_def header_of_def Let_def SetEvent_def)

text \<open>Where the lines for a file of a domain go.\<close>

definition global_name :: "string \<Rightarrow> string \<Rightarrow> string" where
  "global_name d f = GlobalFileName (ParseData (TLogMsg_new
     [(''data_type'', ''logger''), (''domain'', d), (''filename'', f), (''message'', ''x'')] []))"

lemma GlobalFileName_cong:
  "m_domain m = m_domain m' \<Longrightarrow> m_filename m = m_filename m' \<Longrightarrow> GlobalFileName m = GlobalFileName m'"
  by (simp add: GlobalFileName_def FilePath_def filename_def)

lemma record_goes_to:
  "record_for d f t dm \<Longrightarrow> GlobalFileName (ParseData (TLogMsg_new dm str)) = global_name d f"
  unfolding global_name_def using record_parsed [of d f t dm str]
  by (intro GlobalFileName_cong) (simp_all add: ParseData_def TLogMsg_new_def header_of_def Let_def)

lemma show_zero: "show_nat 0 = ''0''" by code_simp

lemma serve_record:
  assumes "[] \<notin> set ps" "unpack (concat ps) = Some dm" "record_for d f t dm"
  shows "serve_client unpack (sends ps) c =
    Some ([''0''], fst (AddMessage c (TLogMsg_new dm (concat ps))), snd (AddMessage c (TLogMsg_new dm (concat ps))))"
  using assms show_zero record_accepted [OF assms(3)] recv_loop_sends [OF assms(1), of "[]"]
  by (simp add: serve_client_def handler_client_thread_def header_bits Let_def split: prod.splits)

lemma add_all_Cons: "add_all c (m # ms) = add_all (fst (AddMessage c m)) ms"
  by (simp add: add_all_def)

text \<open>Clients one after the other: each one's pieces with the text of its record.\<close>

definition good_client :: "(string \<Rightarrow> tdata_map option) \<Rightarrow> string \<Rightarrow> string \<Rightarrow> string list \<times> string \<Rightarrow> bool" where
  "good_client unpack d f = (\<lambda>(ps, t). [] \<notin> set ps \<and> (\<exists>dm. unpack (concat ps) = Some dm \<and> record_for d f t dm))"

lemma serve_good_clients:
  assumes "list_all (good_client unpack d f) cs"
  shows "\<exists>ms sg. serve_clients unpack (map (sends \<circ> fst) cs) c = Some (replicate (length cs) ''0'', add_all c ms, sg) \<and>
    log_lines (global_name d f) ms \<and> map (\<lambda>m. m_msg (ParseData m)) ms = map snd cs"
  using assms
proof (induction cs arbitrary: c)
  case Nil
  then show ?case by (intro exI [of _ "[]"]) (simp add: add_all_def log_lines_def)
next
  case (Cons x cs)
  obtain ps t where x: "x = (ps, t)" by (cases x)
  then obtain dm where dm: "[] \<notin> set ps" "unpack (concat ps) = Some dm" "record_for d f t dm"
    using Cons.prems by (auto simp: good_client_def)
  let ?m = "TLogMsg_new dm (concat ps)"
  have "list_all (good_client unpack d f) cs" using Cons.prems by simp
  then obtain ms sg where ih: "serve_clients unpack (map (sends \<circ> fst) cs) (fst (AddMessage c ?m)) =
      Some (replicate (length cs) ''0'', add_all (fst (AddMessage c ?m)) ms, sg)"
    "log_lines (global_name d f) ms" "map (\<lambda>m. m_msg (ParseData m)) ms = map snd cs"
    using Cons.IH [of "fst (AddMessage c ?m)"] by blast
  have "serve_clients unpack (map (sends \<circ> fst) (x # cs)) c =
      Some (replicate (length (x # cs)) ''0'', add_all c (?m # ms), snd (AddMessage c ?m) @ sg)"
    using ih(1) serve_record [of ps unpack dm d f t, OF dm] by (cases "AddMessage c ?m") (simp add: x add_all_Cons)
  moreover have "log_lines (global_name d f) (?m # ms)"
    using ih(2) record_parsed(1) [OF dm(3)] record_goes_to [OF dm(3)] by (simp add: log_lines_def)
  moreover have "map (\<lambda>m. m_msg (ParseData m)) (?m # ms) = map snd (x # cs)"
    using ih(3) record_parsed(2) [OF dm(3)] by (simp add: x)
  ultimately show ?case by blast
qed

text \<open>The loop of the threads: one reading for each client, at most.\<close>

lemma accept_step_count:
  "accept_step s t \<Longrightarrow> started s + length (taken s) = length (accepted s) \<Longrightarrow>
     started t + length (taken t) = length (accepted t)"
  by (cases rule: accept_step.cases) auto

text \<open>Every thread reads before the loop goes on.\<close>

inductive prompt_run :: "acceptor \<Rightarrow> acceptor \<Rightarrow> bool" where
  prompt_here: "prompt_run s s"
| prompt_next: "prompt_run s t \<Longrightarrow> accept_step t u \<Longrightarrow> started t = 0 \<or> started u = 0 \<Longrightarrow> prompt_run s u"

lemma prompt_step:
  assumes "accept_step t u" "started t = 0 \<or> started u = 0" "started t \<le> 1"
    and "accepted t = taken t @ (if started t = 1 then [slot t] else [])"
  shows "started u \<le> 1 \<and> accepted u = taken u @ (if started u = 1 then [slot u] else [])"
  using assms by (cases rule: accept_step.cases) auto

section \<open>Properties\<close>

text \<open>
  From the socket to the file: clients that connect one after the other, each with a record for the
  same file that it sends in pieces of any size, are all told 0, and after the next turn of the
  message thread the file has their texts, each on a line of its own and in the order of the clients;
  no other file has changed, and nothing is left in the list.
\<close>

theorem clients_logged:
  assumes "list_all (good_client unpack d f) cs" "cs \<noteq> []" "local_category c" "message_list c = []"
    and "folder \<noteq> []" "\<And>x. can_mkdir e x" "can_open e (folder @ global_name d f)"
    and "path_split (folder @ global_name d f) = (p, n)"
    and "length (content_of (dir_of D p) n @ concat (map (\<lambda>(ps, t). t @ newline) cs)) \<le> mx"
    and "w = Timeout \<or> w = Signalled evMsg"
    and "serve_clients unpack (map (sends \<circ> fst) cs) c = Some (replies, c1, sg)"
    and "message_turn e (filethread_new folder mx ma True) w c1 D = (go, c2, D')"
  shows "replies = replicate (length cs) ''0'' \<and> go \<and> message_list c2 = [] \<and>
    content_of (dir_of D' p) n = content_of (dir_of D p) n @ concat (map (\<lambda>(ps, t). t @ newline) cs) \<and>
    (\<forall>q j. (q, j) \<noteq> (p, n) \<longrightarrow> map_of (dir_of D' q) j = map_of (dir_of D q) j)"
proof -
  obtain ms where ms: "c1 = add_all c ms" "log_lines (global_name d f) ms"
    "map (\<lambda>m. m_msg (ParseData m)) ms = map snd cs" "replies = replicate (length cs) ''0''"
    using serve_good_clients [OF assms(1), of c] assms(11) by auto
  have "map (\<lambda>t. t @ newline) (map (\<lambda>m. m_msg (ParseData m)) ms) = map (\<lambda>t. t @ newline) (map snd cs)"
    by (simp only: ms(3))
  then have written: "concat (map (\<lambda>m. m_msg (ParseData m) @ newline) ms) = concat (map (\<lambda>(ps, t). t @ newline) cs)"
    by (simp add: comp_def split_def)
  obtain m ms' where m: "ms = m # ms'" using ms(3) assms(2) by (cases ms) auto
  have all: "concat (map (\<lambda>m. msg (ParseData m)) (m # ms')) = concat (map (\<lambda>(ps, t). t @ newline) cs)"
    using written unfolding msg_def m .
  have sz: "length (content_of (dir_of D p) n @ concat (map (\<lambda>m. msg (ParseData m)) (m # ms'))) \<le> mx"
    unfolding all by (rule assms(9))
  have turn: "message_turn e (filethread_new folder mx ma True) w (add_all c (m # ms')) D = (go, c2, D')"
    using assms(12) unfolding ms(1) m .
  show ?thesis
    using log_lines_arrive [OF ms(2) [unfolded m] assms(3,4) refl assms(5-8) sz assms(10) turn]
      written [unfolded m] ms(4) by simp
qed

lemma Folder_nonempty: "fst (Folder lc) \<noteq> []"
  by (auto simp: Folder_def Let_def)

text \<open>
  C4. The log server from its command line to the lines of a file: whatever file of settings it is
  started with, if it serves and is not to pass its messages on, then clients that connect one
  after the other, each with a record for the same file that it sends in pieces of any size,
  are all told 0; and after the next turn of the message thread the file, below the folder of the
  settings, has their texts, each on a line of its own and in the order of the clients, as long as
  it stays within the size of the settings. No other file has changed, and the list is empty.
\<close>

theorem logger_logs_clients:
  assumes "logger_main args contents there ok raw = LServe lc c errs rem" "\<not> rem"
    and "lc_CurrentStoreType raw = EMPTY_STORE" "\<not> lc_ConfigStatus raw"
    and "list_all (good_client unpack d f) cs" "cs \<noteq> []"
    and "\<And>x. can_mkdir e x" "can_open e (fst (Folder lc) @ global_name d f)"
    and "path_split (fst (Folder lc) @ global_name d f) = (p, n)"
    and "length (content_of (dir_of D p) n @ concat (map (\<lambda>(ps, t). t @ newline) cs)) \<le> lc_max_file_size lc"
    and "w = Timeout \<or> w = Signalled evMsg"
  shows "\<exists>c1 sg go c2 D'.
    serve_clients unpack (map (sends \<circ> fst) cs) c = Some (replicate (length cs) ''0'', c1, sg) \<and>
    message_turn e (configured_filethread lc) w c1 D = (go, c2, D') \<and> message_list c2 = [] \<and>
    content_of (dir_of D' p) n = content_of (dir_of D p) n @ concat (map (\<lambda>(ps, t). t @ newline) cs) \<and>
    (\<forall>q j. (q, j) \<noteq> (p, n) \<longrightarrow> map_of (dir_of D' q) j = map_of (dir_of D q) j)"
proof -
  have c: "message_list c = []" "local_category c" "lc_CurrentStoreType lc = LOCAL_STORE"
    using logger_serves [OF assms(1,3,4)] assms(2) by blast+
  obtain c1 sg where s: "serve_clients unpack (map (sends \<circ> fst) cs) c = Some (replicate (length cs) ''0'', c1, sg)"
    using serve_good_clients [OF assms(5), of c] by blast
  obtain go c2 D' where t: "message_turn e (configured_filethread lc) w c1 D = (go, c2, D')"
    by (metis prod_cases3)
  have mk: "configured_filethread lc =
      filethread_new (fst (Folder lc)) (lc_max_file_size lc) (max_archive_count lc) True"
    using c(3) by (simp add: configured_filethread_def)
  show ?thesis
    using clients_logged [OF assms(5,6) c(2,1) Folder_nonempty assms(7-11) s t [unfolded mk]] s t by blast
qed

definition text_record :: "string \<Rightarrow> tdata_map option" where
  "text_record s = Some [(''data_type'', ''logger''), (''domain'', ''d''), (''filename'', ''f.log''), (''message'', s)]"

lemma settings_kept:
  "lc_folder (snd (logger_get_loglevel c)) = lc_folder c"
  "lc_max_file_size (snd (logger_get_loglevel c)) = lc_max_file_size c"
  "lc_folder (choose_store c) = lc_folder c"
  "lc_max_file_size (choose_store c) = lc_max_file_size c"
  "lc_folder (read_common r c) = Get r ''COMMON'' ''folder'' ''./''"
  "lc_max_file_size (read_common r c) = lc_max_file_size c"
  "lc_max_file_size (read_remote r c) = lc_max_file_size c"
  "lc_max_file_size (put_store k ls c) = lc_max_file_size c"
  "lc_max_file_size (read_local r c) = to_ulong (GetInteger r ''LOCAL'' ''max_file_size'' 200000)"
  by (simp_all add: logger_get_loglevel_def choose_store_def read_common_def read_remote_def put_store_def
      read_local_def Let_def)

lemma demo_logger_files:
  "fst (Folder (snd (logger_get_loglevel (choose_store (read_all demo_logger_map clean))))) = ''./''"
  "lc_max_file_size (snd (logger_get_loglevel (choose_store (read_all demo_logger_map clean)))) = 200000"
proof -
  have g: "Get demo_logger_map ''COMMON'' ''folder'' ''./'' = ''./''"
    "Get demo_logger_map ''LOCAL'' ''max_file_size'' [] = []" "c_strtol0 [] = None" by code_simp+
  show "fst (Folder (snd (logger_get_loglevel (choose_store (read_all demo_logger_map clean))))) = ''./''"
    unfolding Folder_def settings_kept read_all_def g(1) by (simp add: Let_def)
  show "lc_max_file_size (snd (logger_get_loglevel (choose_store (read_all demo_logger_map clean)))) = 200000"
    unfolding settings_kept read_all_def GetInteger_def g by (simp add: to_ulong_def)
qed

lemma demo_logger_serves:
  "\<exists>c errs. logger_main [''./logger'', ''-c'', ''l.ini''] (\<lambda>_. Some demo_logger_ini) (\<lambda>_. True) True clean =
     LServe (snd (logger_get_loglevel (choose_store (read_all demo_logger_map clean)))) c errs False"
proof -
  let ?lc = "snd (logger_get_loglevel (choose_store (read_all demo_logger_map clean)))"
  have "lc_CurrentStoreType ?lc = LOCAL_STORE"
    using demo_logger_taken(2) by (simp add: logger_get_loglevel_def Let_def)
  moreover have "find_last CHR ''/'' ''./logger'' = Some 1" "logger_GetCmd ''-c'' = lcStart" by code_simp+
  ultimately show ?thesis
    using demo_logger_taken(1,3)
    by (simp add: logger_main_def logger_serve_def Let_def LOCAL_STORE_def REMOTE_STORE_def)
qed

lemma logger_logs_clients_witness:
  "\<exists>lc c errs c1 sg go c2 D'.
     logger_main [''./logger'', ''-c'', ''l.ini''] (\<lambda>_. Some demo_logger_ini) (\<lambda>_. True) True clean =
       LServe lc c errs False \<and>
     serve_clients text_record (map (sends \<circ> fst) [([''on'', ''e''], ''one''), ([''two''], ''two'')]) c =
       Some ([''0'', ''0''], c1, sg) \<and>
     message_turn open_env (configured_filethread lc) Timeout c1 [] = (go, c2, D') \<and>
     content_of (dir_of D' ''./d'') ''f.log'' = ''one'' @ newline @ ''two'' @ newline"
proof -
  let ?cs = "[([''on'', ''e''], ''one''), ([''two''], ''two'')]"
  let ?lc = "snd (logger_get_loglevel (choose_store (read_all demo_logger_map clean)))"
  obtain c errs where run: "logger_main [''./logger'', ''-c'', ''l.ini''] (\<lambda>_. Some demo_logger_ini) (\<lambda>_. True) True clean =
      LServe ?lc c errs False" using demo_logger_serves by blast
  have cl: "lc_CurrentStoreType clean = EMPTY_STORE" "\<not> lc_ConfigStatus clean"
    by (simp_all add: clean_def EMPTY_STORE_def)
  have g: "list_all (good_client text_record ''d'' ''f.log'') ?cs"
    by (simp add: good_client_def text_record_def record_for_def)
  have sp: "path_split (fst (Folder ?lc) @ global_name ''d'' ''f.log'') = (''./d'', ''f.log'')"
    unfolding demo_logger_files by code_simp
  have e: "content_of (dir_of [] ''./d'') ''f.log'' = []" by (simp add: content_of_def dir_of_def)
  have o: "\<And>x. can_mkdir open_env x" "can_open open_env (fst (Folder ?lc) @ global_name ''d'' ''f.log'')"
    by (simp_all add: open_env_def)
  have sz: "length (content_of (dir_of [] ''./d'') ''f.log'' @ concat (map (\<lambda>(ps, t). t @ newline) ?cs))
      \<le> lc_max_file_size ?lc"
    unfolding demo_logger_files by (simp add: e newline_def)
  from logger_logs_clients [OF run _ cl g _ o sp sz, of Timeout]
  obtain c1 sg go c2 D' where
    "serve_clients text_record (map (sends \<circ> fst) ?cs) c = Some ([''0'', ''0''], c1, sg)"
    "message_turn open_env (configured_filethread ?lc) Timeout c1 [] = (go, c2, D')"
    "content_of (dir_of D' ''./d'') ''f.log'' = ''one'' @ newline @ ''two'' @ newline"
    using e by (auto simp: numeral_2_eq_2)
  then show ?thesis using run by blast
qed

text \<open>
  C20. A pause ends the record: the socket does not block, and the loop goes on to its test when there
  is nothing to read, so that what comes later is not read; if the part that came is not a
  whole record, the exception ends the server, and no client after it is served.
\<close>

theorem pause_ends_server:
  assumes "[] \<notin> set ps" "unpack (concat ps) = None"
  shows "serve_clients unpack ((map Got ps @ RecvAgain # rest) # others) c = None"
  using assms recv_loop_again [OF assms(1), of rest "[]"]
  by (simp add: serve_client_def handler_client_thread_def)

lemma pause_ends_server_witness:
  "serve_clients (\<lambda>s. if length s < 5 then None else text_record s)
     [[Got ''abc'', RecvAgain, Got ''def'', Closed], [Got ''abcdef'', Closed]] (TClientMessage_new True 500 0) = None"
  using pause_ends_server [of "[''abc'']" "\<lambda>s. if length s < 5 then None else text_record s"
      "[Got ''def'', Closed]" "[[Got ''abcdef'', Closed]]" "TClientMessage_new True 500 0"]
  by simp

text \<open>
  What keeps a record out is only a missing domain or file name. One without a type is told 32 and
  one without text and command 12, and both go to the list all the same: the second as an
  empty line of the file.
\<close>

theorem refused_records_logged:
  assumes "[] \<notin> set ps" "unpack (concat ps) = Some dm" "dm \<noteq> []" "local_category c"
    and "map_of dm ''command'' = None" "map_of dm ''domain'' = Some d" "map_of dm ''filename'' = Some f"
    and "map_of dm ''data_type'' = None \<and> map_of dm ''message'' = Some t \<and> reply = ''32'' \<or>
      map_of dm ''data_type'' = Some ''logger'' \<and> map_of dm ''message'' = None \<and> t = [] \<and> reply = ''12''"
  shows "\<exists>c' sg. serve_client unpack (sends ps) c = Some ([reply], c', sg) \<and>
    message_list c' = push_message (global_name d f) (t @ newline) (message_list c)"
proof -
  let ?m = "TLogMsg_new dm (concat ps)"
  have v: "m_ErrorHeadersValue ?m = (if reply = ''32'' then 32 else 12)" "reply = ''32'' \<or> reply = ''12''"
    using assms(3,5-8)
    by (auto simp: TLogMsg_new_def CheckLoggerData_def ERROR_DATA_TYPE_def ERROR_EMPTY_MESSAGE_def ERROR_EMPTY_COMMAND_def)
  have sh: "show_nat 32 = ''32''" "show_nat 12 = ''12''" by code_simp+
  have ev: "m_Event (ParseData ?m) = evMsg" "m_msg (ParseData ?m) = t"
    using assms(5,8) by (auto simp: ParseData_def TLogMsg_new_def header_of_def Let_def SetEvent_def)
  have g: "GlobalFileName (ParseData ?m) = global_name d f"
    unfolding global_name_def using assms(6,7)
    by (intro GlobalFileName_cong) (simp_all add: ParseData_def TLogMsg_new_def header_of_def Let_def)
  have "serve_client unpack (sends ps) c = Some ([reply], fst (AddMessage c ?m), snd (AddMessage c ?m))"
    using assms(2) v sh recv_loop_sends [OF assms(1), of "[]"]
    by (auto simp: serve_client_def handler_client_thread_def header_bits Let_def split: prod.splits)
  then show ?thesis
    using AddMessage_msg(1) [OF ev(1) assms(4)] ev(2) g
    by (intro exI [of _ "fst (AddMessage c ?m)"] exI [of _ "snd (AddMessage c ?m)"]) (simp add: msg_def)
qed

lemma refused_records_logged_witness:
  "\<exists>c' sg. serve_client (\<lambda>s. Some [(''data_type'', ''logger''), (''domain'', ''d''), (''filename'', s)])
      (sends [''f.log'']) (TClientMessage_new True 500 0) = Some ([''12''], c', sg) \<and>
    message_list c' = push_message (global_name ''d'' ''f.log'') newline []"
  using refused_records_logged [of "[''f.log'']" "\<lambda>s. Some [(''data_type'', ''logger''), (''domain'', ''d''), (''filename'', s)]"
      "[(''data_type'', ''logger''), (''domain'', ''d''), (''filename'', ''f.log'')]"
      "TClientMessage_new True 500 0" "''d''" "''f.log''" "[]" "''12''"]
  by (simp add: TClientMessage_new_def)



text \<open>
  C19. A client that comes before the thread of the one in front has run takes its place: both threads
  read the number of the second, and the first is accepted and never served.
\<close>

theorem client_lost:
  assumes "0 \<le> a" "0 \<le> b"
  shows "\<exists>s. accept_run (acceptor_new v) s \<and> accepted s = [a, b] \<and> taken s = [b, b] \<and> started s = 0"
proof -
  let ?s0 = "acceptor_new v"
  let ?s1 = "?s0\<lparr>slot := a, started := 1, accepted := [a]\<rparr>"
  let ?s2 = "?s1\<lparr>slot := b, started := 2, accepted := [a, b]\<rparr>"
  let ?s3 = "?s2\<lparr>started := 1, taken := [b]\<rparr>"
  let ?s4 = "?s3\<lparr>started := 0, taken := [b, b]\<rparr>"
  have "accept_step ?s0 ?s1" using accept_ok [OF assms(1), of ?s0] by (simp add: acceptor_new_def)
  moreover have "accept_step ?s1 ?s2" using accept_ok [OF assms(2), of ?s1] by (simp add: acceptor_new_def numeral_2_eq_2)
  moreover have "accept_step ?s2 ?s3" using thread_reads [of ?s2 1] by (simp add: acceptor_new_def)
  moreover have "accept_step ?s3 ?s4" using thread_reads [of ?s3 0] by (simp add: acceptor_new_def)
  ultimately have "accept_run ?s0 ?s4" by (meson run_here run_next)
  then show ?thesis by (intro exI [of _ ?s4]) simp
qed

theorem client_lost_witness:
  "\<exists>s. accept_run (acceptor_new 0) s \<and> accepted s = [5, 6] \<and> 5 \<notin> set (taken s)"
  using client_lost [of 5 6 0] by force

text \<open>
  Every text that comes to the mail ends with the end of a line, and the full stop that is printed
  after it then stands on a line of its own, which the mail program takes for the end of the mail.
\<close>

lemma mail_lone_stop:
  "\<exists>rest. mail_text a ((t @ newline) # ms) = ''To: '' @ a @ newline @ ''From: Logger'' @ newline @
     ''Subject: Logger Error Notification'' @ newline @ newline @ t @ newline @ ''.'' @ newline @ rest"
  by (simp add: mail_text_def)

lemma error_text_ends_line:
  "ToErrorMonitor e d s \<in> set (snd (AddMessage c m)) \<Longrightarrow> \<exists>t. s = t @ newline"
  by (auto simp: AddMessage_def Let_def Message_def OnReadyTransmitMessage_def split: event.splits if_splits)

end
