(* ===== verification/Music_Request.thy ===== *)
theory Music_Request
  imports Ini
begin

text \<open>
  \<open>musicgo_alias/Parameters.cpp\<close>, first half: the request of a listener. The buffer is cut in place
  with \<open>strtok\<close>, once into lines and again, inside a line, into parameters, so the model keeps
  the buffer with the zero bytes that \<open>strtok\<close> writes; its last character is the zero byte of
  the C string. Reading behind it is \<open>None\<close>.
\<close>

section \<open>Cutting the buffer\<close>

definition NUL :: char where "NUL = CHR 0x00"

text \<open>
  \<open>strtok\<close> from position \<open>p\<close>: the start and the length of the token, the buffer after it, and
  where the next call with a null pointer goes on.
\<close>

definition strtok :: "string \<Rightarrow> string \<Rightarrow> nat \<Rightarrow> (nat \<times> nat \<times> string \<times> nat) option" where
  "strtok delims b p =
     (let s = p + length (takeWhile (\<lambda>c. c \<in> set delims) (drop p b));
          l = length (takeWhile (\<lambda>c. c \<notin> set delims \<and> c \<noteq> NUL) (drop s b))
      in if l = 0 then None
         else Some (s, l, b[s + l := NUL], if b ! (s + l) = NUL then s + l else s + l + 1))"

lemma strtok_next:
  assumes "strtok delims b p = Some (s, l, b', q)"
  shows "p < length b" "p < q" "length b' = length b" "0 < l"
proof -
  have l: "l = length (takeWhile (\<lambda>c. c \<notin> set delims \<and> c \<noteq> NUL) (drop s b))" "l \<noteq> 0"
    "s = p + length (takeWhile (\<lambda>c. c \<in> set delims) (drop p b))" "b' = b[s + l := NUL]"
    "q = (if b ! (s + l) = NUL then s + l else s + l + 1)"
    using assms by (auto simp: strtok_def Let_def split: if_splits)
  have "drop s b \<noteq> []" using l(1,2) by auto
  then show "p < length b" "p < q" "length b' = length b" "0 < l" using l by auto
qed

lemma strtok_measure:
  "strtok delims b p = Some (s, l, b', q) \<Longrightarrow>
     length b' - q < length b - p \<and> length b' - Suc (Suc (p + l)) < length b - p"
  using strtok_next [of delims b p s l b' q] by auto

section \<open>The parameters\<close>

record mdata =
  is_aac :: bool
  is_mp3 :: bool
  m_http :: "string option"
  m_id :: int
  m_module :: "string option"
  m_date :: "string option"
  m_hash :: "string option"
  m_token :: "string option"
  m_alias :: "string option"
  mRange :: "(int, int) smap"
  m_username :: "string option"
  m_userpass :: "string option"
  m_request :: "string option"
  m_user_agent :: "string option"
  m_referer :: "string option"

definition no_data :: mdata where
  "no_data =
     \<lparr>is_aac = False, is_mp3 = False, m_http = None, m_id = 0, m_module = None, m_date = None,
      m_hash = None, m_token = None, m_alias = None, mRange = [], m_username = None,
      m_userpass = None, m_request = None, m_user_agent = None, m_referer = None\<rparr>"

definition TOKEN_SIZE :: nat where "TOKEN_SIZE = 32"

text \<open>The text behind the first \<open>k\<close> in a token.\<close>

definition behind :: "string \<Rightarrow> string \<Rightarrow> string option" where
  "behind k t = map_option (\<lambda>i. drop (i + length k) t) (find_sub k t)"

text \<open>How many characters \<open>strtol\<close> reads.\<close>

definition strtol_end :: "string \<Rightarrow> nat" where
  "strtol_end s =
     (let sp = length (takeWhile c_isspace s); t = drop sp s;
          sg = (if t \<noteq> [] \<and> (hd t = CHR ''-'' \<or> hd t = CHR ''+'') then 1 else 0);
          d = length (takeWhile c_isdigit (drop sg t))
      in if d = 0 then 0 else sp + sg + d)"

text \<open>
  \<open>bytes=\<close>: the first number, and the second one behind the character that ended it. \<open>mem\<close> is the
  memory from the token on.
\<close>

definition byte_range :: "string \<Rightarrow> string \<Rightarrow> (int \<times> int) option" where
  "byte_range t mem =
     (case find_sub ''bytes='' t of
        None \<Rightarrow> None
      | Some i \<Rightarrow>
          let s = drop (i + 6) t; k = i + 6 + strtol_end s + 1
          in if length mem \<le> k then None
             else Some (c_int (c_strtol s), c_int \<bar>c_strtol (takeWhile (\<lambda>c. c \<noteq> NUL) (drop k mem))\<bar>))"

definition replace_slash :: "string \<Rightarrow> string" where
  "replace_slash ds =
     (case find_sub ''%2F'' ds of None \<Rightarrow> ds | Some i \<Rightarrow> take i ds @ ''/'' @ drop (i + 3) ds)"

text \<open>One token; a token of the listener counts from 32 characters on.\<close>

definition handle_token :: "string \<Rightarrow> string \<Rightarrow> mdata \<Rightarrow> mdata option" where
  "handle_token t mem d =
     (case behind ''token='' t of
        Some v \<Rightarrow> Some (d\<lparr>m_token := (if length v < TOKEN_SIZE then None else Some v)\<rparr>)
      | None \<Rightarrow>
     (if behind ''start='' t \<noteq> None then Some d
      else
     (case behind ''id='' t of
        Some v \<Rightarrow> Some (d\<lparr>m_id := c_atoi v, is_aac := True\<rparr>)
      | None \<Rightarrow>
     (case behind ''module='' t of
        Some v \<Rightarrow> Some (d\<lparr>m_module := Some v\<rparr>)
      | None \<Rightarrow>
     (case behind ''date='' t of
        Some v \<Rightarrow> Some (d\<lparr>m_date := Some (replace_slash v), is_mp3 := True\<rparr>)
      | None \<Rightarrow>
     (case behind ''hash='' t of
        Some v \<Rightarrow> Some (d\<lparr>m_hash := Some v\<rparr>)
      | None \<Rightarrow>
     (if find_sub ''bytes='' t \<noteq> None
      then map_option (\<lambda>(f, l). d\<lparr>mRange := smap_put f l (mRange d)\<rparr>) (byte_range t mem)
      else
     (case behind ''alias='' t of
        Some v \<Rightarrow> Some (d\<lparr>m_alias := Some v\<rparr>)
      | None \<Rightarrow>
     (case behind ''login='' t of
        Some v \<Rightarrow> Some (d\<lparr>m_username := Some v\<rparr>)
      | None \<Rightarrow>
     (case behind ''password='' t of
        Some v \<Rightarrow> Some (d\<lparr>m_userpass := Some v\<rparr>)
      | None \<Rightarrow>
     (case behind ''HTTP/'' t of
        Some v \<Rightarrow> Some (d\<lparr>m_http := Some v\<rparr>)
      | None \<Rightarrow> Some d)))))))))))"

function get_file_data :: "string \<Rightarrow> nat \<Rightarrow> mdata \<Rightarrow> (string \<times> mdata) option" where
  "get_file_data b p d =
     (case strtok '' ?&'' b p of
        None \<Rightarrow> Some (b, d)
      | Some (s, l, b', q) \<Rightarrow>
          (case handle_token (take l (drop s b)) (drop s b') d of
             None \<Rightarrow> None
           | Some d' \<Rightarrow> get_file_data b' q d'))"
  by pat_completeness auto
termination
  by (relation "measure (\<lambda>(b, p, d). length b - p)")
    (auto dest: strtok_measure)

declare get_file_data.simps [simp del]

lemma get_file_data_length: "get_file_data b p d = Some (b', d') \<Longrightarrow> length b' = length b"
proof (induction b p d rule: get_file_data.induct)
  case (1 b p d)
  show ?case
  proof (cases "strtok '' ?&'' b p")
    case None
    then show ?thesis using "1.prems" by (simp add: get_file_data.simps)
  next
    case (Some r)
    obtain s l b1 q where r: "r = (s, l, b1, q)" by (metis prod_cases4)
    obtain d1 where d1: "handle_token (take l (drop s b)) (drop s b1) d = Some d1"
      "get_file_data b1 q d1 = Some (b', d')"
      using "1.prems" Some r by (subst (asm) get_file_data.simps) (auto split: option.splits)
    then show ?thesis
      using "1.IH" [OF Some _ _ _ d1] r strtok_next(3) Some by fastforce
  qed
qed

section \<open>The lines\<close>

definition cr_lf :: string where "cr_lf = [CHR 0x0D, CHR 0x0A]"

text \<open>One line, which \<open>strtok\<close> found at \<open>p\<close>: what is left of the buffer, and the parameters.\<close>

definition handle_line :: "string \<Rightarrow> nat \<Rightarrow> string \<Rightarrow> mdata \<Rightarrow> (string \<times> mdata) option" where
  "handle_line b p line d =
     (case find_sub ''GET /'' line of
        Some i \<Rightarrow> get_file_data b (p + i) (d\<lparr>m_request := Some (drop i line)\<rparr>)
      | None \<Rightarrow>
     (case find_sub ''Range:'' line of
        Some i \<Rightarrow> get_file_data b (p + i) d
      | None \<Rightarrow>
     (case find_sub ''User-Agent:'' line of
        Some i \<Rightarrow> Some (b, d\<lparr>m_user_agent := Some (drop i line)\<rparr>)
      | None \<Rightarrow>
     (case find_sub ''Referer:'' line of
        Some i \<Rightarrow> Some (b, d\<lparr>m_referer := Some (drop i line)\<rparr>)
      | None \<Rightarrow> Some (b, d)))))"

lemma handle_line_length: "handle_line b p line d = Some (b', d') \<Longrightarrow> length b' = length b"
  by (auto simp: handle_line_def dest: get_file_data_length split: option.split_asm)

text \<open>
  The loop of \<open>sparse\<close>: \<open>pshift\<close> moves by the length of a line and 2, whatever stood between
  the lines.
\<close>

function sparse_loop :: "string \<Rightarrow> nat \<Rightarrow> mdata \<Rightarrow> mdata option" where
  "sparse_loop b pshift d =
     (if length b \<le> pshift then None
      else
       (case strtok cr_lf b pshift of
          None \<Rightarrow> Some d
        | Some (s, l, b', _) \<Rightarrow>
           (case handle_line b' s (take l (drop s b)) d of
              None \<Rightarrow> None
            | Some (b2, d2) \<Rightarrow> sparse_loop b2 (pshift + l + 2) d2)))"
  by pat_completeness auto
termination
  by (relation "measure (\<lambda>(b, p, d). length b - p)")
    (auto dest!: handle_line_length dest: strtok_measure)

declare sparse_loop.simps [simp del]

section \<open>The file asked for\<close>

text \<open>\<open>aliases[...]\<close> is the empty text for a name that is not there.\<close>

definition DEFAULT_ALIAS :: string where "DEFAULT_ALIAS = ''101.ru''"

definition alias_path :: "(string \<times> string) list \<Rightarrow> mdata \<Rightarrow> string" where
  "alias_path aliases d =
     (case map_of aliases (case m_alias d of None \<Rightarrow> DEFAULT_ALIAS | Some a \<Rightarrow> a) of
        None \<Rightarrow> [] | Some v \<Rightarrow> v)"

definition STATUS_EMPTY :: int where "STATUS_EMPTY = 1"
definition STATUS_ID_MODULE :: int where "STATUS_ID_MODULE = 6"

definition media_file :: "(string \<times> string) list \<Rightarrow> mdata \<Rightarrow> string" where
  "media_file aliases d =
     (if is_aac d
      then alias_path aliases d @ the (m_module d) @ ''/'' @ GetSubPath (m_id d) @ ''/'' @
             show_int (m_id d) @ ''.aac''
      else alias_path aliases d @ the (m_date d) @ ''/'' @ the (m_hash d) @ ''.mp3'')"

text \<open>What the parameters come to: \<open>pid_status\<close> and the file, empty when the status is not 0.\<close>

definition sparse_file :: "(string \<times> string) list \<Rightarrow> mdata \<Rightarrow> int \<times> string \<times> mdata" where
  "sparse_file aliases d0 =
     (let d1 = (if m_http d0 = None then d0\<lparr>m_http := Some ''1.1''\<rparr> else d0) in
      if \<not> is_aac d1 \<and> \<not> is_mp3 d1 then (STATUS_EMPTY, [], d1)
      else if is_aac d1 \<and> (m_id d1 = 0 \<or> m_module d1 = None) then (STATUS_ID_MODULE, [], d1)
      else
        let d2 = (if is_aac d1 \<and> mRange d1 = [] then d1\<lparr>mRange := [(0, 0)]\<rparr> else d1) in
        if is_mp3 d2 \<and> (m_date d2 = None \<or> m_hash d2 = None) then (STATUS_ID_MODULE, [], d2)
        else (0, media_file aliases d2, d2))"

definition sparse :: "(string \<times> string) list \<Rightarrow> string \<Rightarrow> (int \<times> string \<times> mdata) option" where
  "sparse aliases recv_str =
     map_option (sparse_file aliases) (sparse_loop (recv_str @ [NUL]) 0 no_data)"

end
