(* ===== verification/Music_Segment.thy ===== *)
theory Music_Segment
  imports Aac Mpx
begin

text \<open>
  \<open>musicgo_alias/aacbitrate.cpp\<close> and \<open>mp3bitrate.cpp\<close>: where a listener without a token begins and
  how much he gets. A file is scanned for its bit rate, and a start and a length in seconds become
  a position and a length in bytes. The headers are those the player reads; the calls on a
  descriptor are those of \<open>Frames\<close>.

  \<open>None\<close>: the loop over the headers has not ended in the number of turns given. \<open>Undefined\<close>: an
  integer division by zero, or the conversion of an infinite quotient.
\<close>

datatype 'a outcome = Undefined | Done 'a

section \<open>AAC\<close>

text \<open>The check of a header: whether it is valid, the length and the sampling frequency it leaves.\<close>

definition aac_header :: "byte list \<Rightarrow> bool \<times> int \<times> int" where
  "aac_header h =
     (if Aac.syncword (h ! 0) (h ! 1) \<noteq> 0x0FFF then (False, 0, 0)
      else if Aac.profile (h ! 2) = 3 then (False, 0, 0)
      else
        let rate = Aac.sftable ! nat (frequency_index (h ! 2)) in
        if rate = 0 then (False, 0, 0)
        else
          let len = get_frame_length (h ! 3) (h ! 4) (h ! 5)
          in (0 \<le> len \<and> len \<le> 5000, len, rate))"

function aac_start_scan :: "byte list \<Rightarrow> nat \<Rightarrow> int" where
  "aac_start_scan buf i =
     (if i < length buf then
        if i + 10 \<le> length buf \<and> Aac.syncword (buf ! i) (buf ! (i + 1)) = 0x0FFF \<and>
           fst (aac_header (drop i buf))
        then int i
        else aac_start_scan buf (i + 1)
      else 0)"
  by pat_completeness auto
termination by (relation "measure (\<lambda>(buf, i). length buf - i)") auto

declare aac_start_scan.simps [simp del]

definition get_start_pos :: "cfile \<Rightarrow> int \<times> cfile" where
  "get_start_pos f = (let (buf, f1) = fread 50000 f in (aac_start_scan buf 0, f1))"

text \<open>The loop: \<open>None\<close> inside when the file ended inside a header, else frames, frequency.\<close>

fun aac_loop ::
  "nat \<Rightarrow> int \<Rightarrow> cfile \<Rightarrow> int \<Rightarrow> int \<Rightarrow> ((int \<times> int) option \<times> cfile) option" where
  "aac_loop 0 file_size f frame next_pos = None"
| "aac_loop (Suc n) file_size f frame next_pos =
     (let (h, f1) = fread 7 f in
      if length h < 7 then Some (None, f1)
      else
        let (valid, len, rate) = aac_header h in
        if \<not> valid then Some (Some (frame, rate), f1)
        else if next_pos + len < file_size
        then aac_loop n file_size (seek_cur (len - 7) f1) (frame + 1) (next_pos + len)
        else Some (Some (frame + 1, rate), f1))"

text \<open>
  \<open>aac_SeekForFirstFrame\<close>, which finds the bit rate in bytes a second; \<open>rnd\<close> rounds to a
  \<open>float\<close>.
\<close>

definition aac_SeekForFirstFrame ::
  "(rat \<Rightarrow> rat) \<Rightarrow> nat \<Rightarrow> int \<Rightarrow> cfile \<Rightarrow> (bool \<times> int \<times> cfile) outcome option" where
  "aac_SeekForFirstFrame rnd n start f =
     (let size = c_int (int (length (content f))) in
      case aac_loop n size (seek_to start f) 0 0 of
        None \<Rightarrow> None
      | Some (None, f1) \<Rightarrow> Some (Done (False, 0, f1))
      | Some (Some (frame, rate), f1) \<Rightarrow>
          if frame = 0 then Some (Done (False, 0, f1))
          else if rate = 0 then Some Undefined
          else
            let t = \<lfloor>play_time rnd frame rate\<rfloor> in
            if t = 0 then Some Undefined
            else Some (Done (c_div size t \<noteq> 0, c_div size t, f1)))"

text \<open>
  The segment of a file whose descriptor stands at its start: the verdict, the first byte, the
  number of bytes, and the descriptor. A file that is refused leaves start and length as they
  were given.
\<close>

definition aac_file_segment ::
  "(rat \<Rightarrow> rat) \<Rightarrow> nat \<Rightarrow> cfile \<Rightarrow> int \<Rightarrow> int \<Rightarrow> (bool \<times> int \<times> int \<times> cfile) outcome option" where
  "aac_file_segment rnd n f m_start m_stop =
     (let (start_pos, f1) = get_start_pos f in
      case aac_SeekForFirstFrame rnd n start_pos f1 of
        None \<Rightarrow> None
      | Some Undefined \<Rightarrow> Some Undefined
      | Some (Done (ok, bitrate, f2)) \<Rightarrow>
          if \<not> ok then Some (Done (False, m_start, m_stop, f2))
          else
            let at_second = c_int (m_start * bitrate + start_pos);
                (found, f3) = get_start_pos (seek_to at_second (seek_to start_pos f2))
            in Some (Done (True, c_int (at_second + found), c_int (m_stop * bitrate), f3)))"

section \<open>MP3\<close>

definition mp3_frame_size :: "byte list \<Rightarrow> int" where
  "mp3_frame_size h = (if mpx_IsValidFrameHeader h then mpx_GetFrameSize h else 0)"

definition calc_bitrate :: "byte list \<Rightarrow> int" where
  "calc_bitrate h = (if layer h = 0 then 0 else mpx_bitrate h)"

text \<open>
  The scan for two headers in a row: the position of the first, and the second header. A second
  header that would lie behind the buffer ends the search.
\<close>

function mp3_scan :: "byte list \<Rightarrow> nat \<Rightarrow> (int \<times> byte list) option" where
  "mp3_scan buf p =
     (if p < length buf then
        if buf ! p = 0xFF \<and> p + 1 < length buf \<and> uint (buf ! (p + 1)) AND 0xE0 = 0xE0 then
          if length buf < p + 10 then None
          else
            let n = mp3_frame_size (take 4 (drop p buf)) in
            if n = 0 then mp3_scan buf (p + 1)
            else if int (length buf) < int p + n + 4 then None
            else
              let h = take 4 (drop (nat (int p + n)) buf) in
              if mp3_frame_size h \<noteq> 0 then Some (int p, h) else mp3_scan buf (p + 1)
        else mp3_scan buf (p + 1)
      else None)"
  by pat_completeness auto
termination by (relation "measure (\<lambda>(buf, p). length buf - p)") auto

declare mp3_scan.simps [simp del]

text \<open>\<open>mp3_SeekForFirstFrame\<close> from where the descriptor stands; the bit rate stays when nothing is found.\<close>

definition mp3_SeekForFirstFrame :: "int \<Rightarrow> int \<Rightarrow> cfile \<Rightarrow> bool \<times> int \<times> int \<times> cfile" where
  "mp3_SeekForFirstFrame start_pos bitrate f =
     (let (buf, f1) = fread 50000 f in
      case mp3_scan buf 0 of
        None \<Rightarrow> (False, start_pos, bitrate, f1)
      | Some (p, h) \<Rightarrow> (True, start_pos + p, calc_bitrate h, f1))"

definition mp3_GetStartPos :: "cfile \<Rightarrow> int \<times> cfile" where
  "mp3_GetStartPos f0 =
     (let (p, f1) = fread 10 (seek_to 0 f0) in
      if length p < 10 then (- 1, f1)
      else if take 3 p = ID3 then
        (uint (p ! 9) OR push_bit 7 (uint (p ! 8)) OR push_bit 14 (uint (p ! 7))
           OR push_bit 21 (uint (p ! 6)), f1)
      else (0, snd (fread 10 (seek_end (- 128) f1))))"

definition mp3_file_segment :: "cfile \<Rightarrow> int \<Rightarrow> int \<Rightarrow> bool \<times> int \<times> int \<times> cfile" where
  "mp3_file_segment f m_start m_stop =
     (let (start_pos, f1) = mp3_GetStartPos f;
          (ok, pos1, rate, f2) = mp3_SeekForFirstFrame start_pos 0 (seek_to start_pos f1)
      in if \<not> ok then (False, m_start, m_stop, f2)
         else
           let at_second = c_int (m_start * c_div rate 8 + pos1);
               (ok2, pos2, rate2, f3) = mp3_SeekForFirstFrame at_second rate (seek_to at_second f2)
           in (True, if ok2 then pos2 else 0, c_int (m_stop * c_div rate2 8), f3))"

end
