(* ===== verification/Music_Answer.thy ===== *)
theory Music_Answer
  imports Music_Request Music_Segment Socket
begin

text \<open>
  \<open>musicgo_alias/Parameters.cpp\<close>, second half, with \<open>mqueue.cpp\<close> and the child of
  \<open>tclientsocket.cpp\<close>: the answer to a request, its line in the log, and the process that serves
  one listener. The listener's connection is the script of \<open>Socket\<close>; the file system gives for a
  path what \<open>access\<close>, \<open>open\<close> and \<open>read\<close> see.

  \<open>None\<close>: a loop has not ended within the turns or the script given. \<open>Undefined\<close>: the code does
  something C++ gives no meaning to.
\<close>

section \<open>The replies\<close>

datatype stored = Missing | Unreadable | Readable "byte list"

definition MARKER_EMPTY :: string where "MARKER_EMPTY = ''-''"
definition BUFFER_SIZE :: nat where "BUFFER_SIZE = 1024"

definition nn :: string where "nn = [CHR 0x0A]"

definition BADREQUEST :: "string \<Rightarrow> string" where
  "BADREQUEST http = ''HTTP/'' @ http @ '' 405 Method Not Allowed'' @ nn @ nn"

definition NOTFOUND :: "string \<Rightarrow> string" where
  "NOTFOUND http = ''HTTP/'' @ http @ '' 404 Not Found'' @ nn @ nn"

definition FORBIDDEN :: "string \<Rightarrow> string" where
  "FORBIDDEN http = ''HTTP/'' @ http @ '' 403 Forbidden'' @ nn @ nn"

definition RESPONSE206 :: "string \<Rightarrow> string \<Rightarrow> int \<Rightarrow> int \<Rightarrow> int \<Rightarrow> int \<Rightarrow> string \<Rightarrow> string" where
  "RESPONSE206 http date first stop entire count type =
     ''HTTP/'' @ http @ '' 206 Partial Content'' @ nn @
     ''Date: '' @ date @ '' GMT'' @ nn @
     ''Content-Range: bytes '' @ show_int first @ ''-'' @ show_int stop @ ''/'' @ show_int entire @ nn @
     ''Content-Length: '' @ show_int count @ nn @
     ''Connection: keep-alive'' @ nn @
     ''Content-Type: audio/'' @ type @ '';q=0.9,audio/mpeg,*/*;q=0.8'' @ nn @
     ''Access-Control-Allow-Origin: *'' @ nn @
     ''Cache-Control: no-cache, no-store, max-age=0'' @ nn @
     ''Pragma: no-cache'' @ nn @
     ''Keep-Alive: timeout=3'' @ nn @ nn"

text \<open>What the answer leaves in \<open>msg_log\<close>, and whether it counts as given.\<close>

record answer =
  given :: bool
  response :: int
  header_size :: int
  response_size :: int
  file_size :: int
  range_start :: int
  range_stop :: int

definition no_answer :: answer where
  "no_answer =
     \<lparr>given = False, response = 206, header_size = 0, response_size = 0, file_size = 0,
      range_start = 0, range_stop = 0\<rparr>"

type_synonym wired = "answer \<times> string \<times> send_result list"

text \<open>A reply without a file: printed into 1024 bytes, then sent, with what success does not matter.\<close>

definition reply ::
  "int \<Rightarrow> string \<Rightarrow> send_result list \<Rightarrow> string \<Rightarrow> wired outcome option" where
  "reply n text cs wire =
     (if 1024 \<le> length text then Some Undefined
      else
       (case send_loop cs text wire of
          None \<Rightarrow> None
        | Some (_, wire', cs') \<Rightarrow>
            Some (Done (no_answer\<lparr>response := n, response_size := int (length text)\<rparr>, wire', cs'))))"

text \<open>
  The loop over the file: \<open>data_end\<close> counts what is left to send. \<open>bsend\<close> sends nothing when its
  length is negative, and says that all is well.
\<close>

function body_loop ::
  "send_result list \<Rightarrow> string \<Rightarrow> byte list \<Rightarrow> int \<Rightarrow> int \<Rightarrow> (int \<times> string \<times> send_result list) option"
where
  "body_loop cs wire bs data_end so_far =
     (if bs = [] then Some (so_far, wire, cs)
      else
        let data = take BUFFER_SIZE bs; m_len = min (int (length data)) data_end in
        case send_loop cs (chars (take (nat m_len) data)) wire of
          None \<Rightarrow> None
        | Some (ok, wire', cs') \<Rightarrow>
            if \<not> ok then Some (so_far, wire', cs')
            else if data_end - m_len = 0 then Some (so_far + m_len, wire', cs')
            else body_loop cs' wire' (drop BUFFER_SIZE bs) (data_end - m_len) (so_far + m_len))"
  by pat_completeness auto
termination
  by (relation "measure (\<lambda>(cs, wire, bs, data_end, so_far). length bs)") (auto simp: BUFFER_SIZE_def)

declare body_loop.simps [simp del]

section \<open>The answer\<close>

record music_config =
  start_position :: int
  duration :: int
  aliases :: "(string \<times> string) list"

definition pFileSegment ::
  "(rat \<Rightarrow> rat) \<Rightarrow> nat \<Rightarrow> bool \<Rightarrow> byte list \<Rightarrow> int \<Rightarrow> int \<Rightarrow> (bool \<times> int \<times> int \<times> cfile) outcome option"
where
  "pFileSegment rnd n aac bs m_start m_stop =
     (if aac then aac_file_segment rnd n (opened bs) m_start m_stop
      else Some (Done (mp3_file_segment (opened bs) m_start m_stop)))"

text \<open>
  Where the file is read from and how long it counts as, for a listener with and without a
  token: a file whose segment is not found keeps \<open>start_position\<close>, which is in seconds, as a
  position in bytes.
\<close>

definition preview ::
  "(rat \<Rightarrow> rat) \<Rightarrow> nat \<Rightarrow> music_config \<Rightarrow> mdata \<Rightarrow> byte list \<Rightarrow> (int \<times> int \<times> cfile) outcome option" where
  "preview rnd n cfg d bs =
     (let m_len = c_int (int (length bs)) in
      if m_token d \<noteq> None then Some (Done (0, m_len, opened bs))
      else
       (case pFileSegment rnd n (is_aac d) bs (start_position cfg) (duration cfg) of
          None \<Rightarrow> None
        | Some Undefined \<Rightarrow> Some Undefined
        | Some (Done (ok, start_pos, stop_pos, f)) \<Rightarrow>
            Some (Done (start_pos, if ok then min m_len stop_pos else m_len, f))))"

text \<open>The last byte: a second number that is missing or 0 stands for the end of what is counted.\<close>

definition answer_stop :: "int \<Rightarrow> int \<Rightarrow> int" where
  "answer_stop last_byte m_len = (if last_byte = 0 then m_len - 1 else last_byte)"

definition answer_header :: "string \<Rightarrow> mdata \<Rightarrow> int \<Rightarrow> int \<Rightarrow> int \<Rightarrow> string" where
  "answer_header now d data_begin data_end m_len =
     RESPONSE206 (the (m_http d)) now data_begin data_end m_len (c_int (data_end - data_begin + 1))
       (if is_aac d then ''aac'' else ''mpeg'')"

text \<open>From the header on; \<open>bs\<close> is what the descriptor stands before.\<close>

definition transfer ::
  "answer \<Rightarrow> string \<Rightarrow> byte list \<Rightarrow> int \<Rightarrow> send_result list \<Rightarrow> string \<Rightarrow> wired outcome option" where
  "transfer noted header bs data_end cs wire =
     (if BUFFER_SIZE < length header then Some Undefined
      else
       (case send_loop cs header wire of
          None \<Rightarrow> None
        | Some (ok, wire', cs') \<Rightarrow>
            if \<not> ok then Some (Done (noted, wire', cs'))
            else
             (case body_loop cs' wire' bs (c_int (data_end + 1)) 0 of
                None \<Rightarrow> None
              | Some (so_far, wire'', cs'') \<Rightarrow>
                  Some (Done (noted\<lparr>given := True, header_size := int (length header),
                                    response_size := so_far\<rparr>, wire'', cs'')))))"

text \<open>\<open>create_answer\<close> from the open file on. The first entry of an empty \<open>mRange\<close> does not exist.\<close>

definition send_file ::
  "(rat \<Rightarrow> rat) \<Rightarrow> nat \<Rightarrow> music_config \<Rightarrow> string \<Rightarrow> mdata \<Rightarrow> byte list \<Rightarrow> send_result list \<Rightarrow> string
     \<Rightarrow> wired outcome option"
where
  "send_file rnd n cfg now d bs cs wire =
     (case mRange d of
        [] \<Rightarrow> Some Undefined
      | (data_begin, last_byte) # _ \<Rightarrow>
     (case preview rnd n cfg d bs of
        None \<Rightarrow> None
      | Some Undefined \<Rightarrow> Some Undefined
      | Some (Done (start_pos, m_len, f)) \<Rightarrow>
          (let data_end = answer_stop last_byte m_len;
               f1 = seek_to (c_int (start_pos + data_begin)) f;
               noted = no_answer\<lparr>file_size := c_int (int (length bs)), range_start := data_begin,
                         range_stop := last_byte\<rparr>
           in transfer noted (answer_header now d data_begin data_end m_len) (rest f1) data_end cs wire)))"

definition create_answer ::
  "(rat \<Rightarrow> rat) \<Rightarrow> nat \<Rightarrow> music_config \<Rightarrow> (string \<Rightarrow> stored) \<Rightarrow> string \<Rightarrow> string \<Rightarrow> send_result list
     \<Rightarrow> string \<Rightarrow> (mdata \<times> wired) outcome option"
where
  "create_answer rnd n cfg disk now recv_str cs wire =
     (case sparse (aliases cfg) recv_str of
        None \<Rightarrow> Some Undefined
      | Some (pid_status, path, d) \<Rightarrow>
          let http = the (m_http d);
              r = (if pid_status \<noteq> 0 \<or> path = [] then reply 405 (BADREQUEST http) cs wire
                   else case disk path of
                     Missing \<Rightarrow> reply 404 (NOTFOUND http) cs wire
                   | Unreadable \<Rightarrow> reply 403 (FORBIDDEN http) cs wire
                   | Readable bs \<Rightarrow> send_file rnd n cfg now d bs cs wire)
          in map_option (\<lambda>x. case x of Undefined \<Rightarrow> Undefined | Done w \<Rightarrow> Done (d, w)) r)"

text \<open>
  \<open>bsendfile\<close>, and \<open>create_answer1\<close>, which sends a whole file with it. \<open>sendfile\<close> moves the offset
  by what it has sent, and the loop moves it back.
\<close>

primrec sendfile_loop ::
  "send_result list \<Rightarrow> byte list \<Rightarrow> int \<Rightarrow> int \<Rightarrow> int \<Rightarrow> string \<Rightarrow> (bool \<times> string \<times> send_result list) option"
where
  "sendfile_loop [] bs off so_far m_len wire = (if so_far < m_len then None else Some (True, wire, []))"
| "sendfile_loop (c # cs) bs off so_far m_len wire =
     (if \<not> so_far < m_len then Some (True, wire, c # cs)
      else
       (case c of
          Failed \<Rightarrow> Some (False, wire, cs)
        | Again \<Rightarrow> sendfile_loop cs bs off so_far m_len wire
        | Sent k \<Rightarrow>
            if off < 0 then Some (False, wire, cs)
            else
             (let part = take (min k (nat (m_len - so_far))) (drop (nat off) bs);
                  m_out = int (length part); off' = off + m_out
              in sendfile_loop cs bs (off' - m_out) (so_far + m_out) m_len (wire @ chars part))))"

definition bsendfile ::
  "send_result list \<Rightarrow> byte list \<Rightarrow> int \<Rightarrow> int \<Rightarrow> string \<Rightarrow> (bool \<times> string \<times> send_result list) option" where
  "bsendfile cs bs m_begin m_length wire = sendfile_loop cs bs m_begin 0 (m_length - m_begin) wire"

definition send_file1 ::
  "string \<Rightarrow> mdata \<Rightarrow> byte list \<Rightarrow> send_result list \<Rightarrow> string \<Rightarrow> (bool \<times> string \<times> send_result list) outcome option"
where
  "send_file1 now d bs cs wire =
     (case mRange d of
        [] \<Rightarrow> Some Undefined
      | (data_begin, _) # _ \<Rightarrow>
         (let m_len = c_int (int (length bs));
              header = RESPONSE206 (the (m_http d)) now data_begin (m_len - 1) m_len (c_int (m_len - data_begin))
                         (if is_aac d then ''aac'' else ''mpeg'')
          in if BUFFER_SIZE < length header then Some Undefined
             else
              (case send_loop cs header wire of
                 None \<Rightarrow> None
               | Some (False, wire', cs') \<Rightarrow> Some (Done (False, wire', cs'))
               | Some (True, wire', cs') \<Rightarrow>
                   map_option (\<lambda>(_, wire'', cs''). Done (True, wire'', cs''))
                     (bsendfile cs' bs data_begin m_len wire'))))"

section \<open>The line in the log\<close>

definition or_marker :: "string option \<Rightarrow> string" where
  "or_marker s = (case s of None \<Rightarrow> MARKER_EMPTY | Some v \<Rightarrow> v)"

text \<open>
  \<open>get_log_str\<close>: a null \<open>request\<close> breaks the stream, which takes nothing more. \<open>response_time\<close> is
  printed by the library: its text is an argument.
\<close>

definition get_log_str :: "string \<Rightarrow> string \<Rightarrow> string \<Rightarrow> mdata \<Rightarrow> answer \<Rightarrow> string" where
  "get_log_str ip now response_time d a =
     (let front = ip @ '' '' @ or_marker (m_username d) @ '' '' @ or_marker (m_userpass d) @ '' '' @
                  ''['' @ now @ '']'' @ '' ''
      in case m_request d of
           None \<Rightarrow> front
         | Some r \<Rightarrow>
             front @ r @ '' '' @ show_int (response a) @ '' '' @
             show_int (c_int (header_size a + response_size a)) @ '' '' @
             or_marker (m_referer d) @ '' '' @ or_marker (m_user_agent d) @ '' '' @ response_time @ '' '' @
             ''( '' @ show_int (header_size a) @ '' '' @ show_int (response_size a) @ '' '' @
             show_int (file_size a) @ '' '' @ show_int (range_start a) @ '' '' @
             show_int (range_stop a) @ '')'' @ nn)"

text \<open>
  The destructor frees \<open>alias\<close>, also when it is the constant \<open>sparse\<close> puts there when the listener
  names none.
\<close>

definition frees_constant :: "(string \<times> string) list \<Rightarrow> string \<Rightarrow> bool" where
  "frees_constant al recv_str =
     (case sparse al recv_str of
        None \<Rightarrow> False
      | Some (pid_status, _, d) \<Rightarrow> pid_status = 0 \<and> m_alias d = None)"

text \<open>\<open>query_parameters\<close>: what was sent, and the line for the log if the destructor returns.\<close>

definition query_parameters ::
  "(rat \<Rightarrow> rat) \<Rightarrow> nat \<Rightarrow> music_config \<Rightarrow> (string \<Rightarrow> stored) \<Rightarrow> string \<Rightarrow> string \<Rightarrow> string \<Rightarrow> string
     \<Rightarrow> send_result list \<Rightarrow> string \<Rightarrow> (wired \<times> string outcome) outcome option"
where
  "query_parameters rnd n cfg disk ip now response_time m_str cs wire =
     (case create_answer rnd n cfg disk now m_str cs wire of
        None \<Rightarrow> None
      | Some Undefined \<Rightarrow> Some Undefined
      | Some (Done (d, w)) \<Rightarrow>
          Some (Done (w, if frees_constant (aliases cfg) m_str then Undefined
                         else Done (get_log_str ip now response_time d (fst w)))))"

section \<open>The process of a listener\<close>

definition MSG_SIZE :: nat where "MSG_SIZE = 4096"

text \<open>
  \<open>msg_send\<close> copies the text, whatever its length, into 4096 bytes; \<open>taken\<close> is whether the kernel
  takes the message. The queue is the list of the messages in it.
\<close>

definition msg_send :: "bool \<Rightarrow> bool \<Rightarrow> string list \<Rightarrow> string \<Rightarrow> (bool \<times> string list) outcome" where
  "msg_send qexist taken queue m_msg =
     (if \<not> qexist then Done (False, queue)
      else if MSG_SIZE < length m_msg then Undefined
      else if taken then Done (True, queue @ [m_msg @ replicate (MSG_SIZE - length m_msg) NUL])
      else Done (False, queue))"

text \<open>
  \<open>msg_recv\<close> gives the address of a local array, which is no longer there when the caller reads it.
  \<open>sighandler\<close> reaps the children and writes their lines: \<open>waits\<close> is what \<open>waitpid\<close> answers.
\<close>

definition msg_recv :: "bool \<Rightarrow> string list \<Rightarrow> string option outcome \<times> string list" where
  "msg_recv qexist queue =
     (if \<not> qexist \<or> queue = [] then (Done None, queue) else (Undefined, tl queue))"

definition qcount :: "bool \<Rightarrow> string list \<Rightarrow> nat" where
  "qcount qexist queue = (if qexist then length queue else 0)"

datatype wait = Reaped | Interrupted | NoChildren | NoneDone

fun sighandler :: "bool \<Rightarrow> wait list \<Rightarrow> string list \<Rightarrow> string list outcome option" where
  "sighandler qexist [] queue = None"
| "sighandler qexist (w # waits) queue =
     (case w of
        Interrupted \<Rightarrow> sighandler qexist waits queue
      | NoChildren \<Rightarrow> Some (Done queue)
      | NoneDone \<Rightarrow> Some (Done queue)
      | Reaped \<Rightarrow>
          if qcount qexist queue = 0 then sighandler qexist waits queue
          else if fst (msg_recv qexist queue) = Undefined then Some Undefined
          else sighandler qexist waits (snd (msg_recv qexist queue)))"

text \<open>
  The child that \<open>do_accept\<close> forks: a request of at most 10 characters is not answered. The
  result is the wire and the queue to the parent.
\<close>

definition serve_listener ::
  "(rat \<Rightarrow> rat) \<Rightarrow> nat \<Rightarrow> music_config \<Rightarrow> (string \<Rightarrow> stored) \<Rightarrow> string \<Rightarrow> string \<Rightarrow> string \<Rightarrow> bool \<Rightarrow> bool
     \<Rightarrow> recv_result list \<Rightarrow> send_result list \<Rightarrow> string list \<Rightarrow> (string \<times> string list outcome) outcome option"
where
  "serve_listener rnd n cfg disk ip now response_time qexist taken rs cs queue =
     (case recv_loop rs [] of
        None \<Rightarrow> None
      | Some (m_str, _) \<Rightarrow>
          if length m_str \<le> 10 then Some (Done ([], Done queue))
          else
           (case query_parameters rnd n cfg disk ip now response_time
                   (takeWhile (\<lambda>c. c \<noteq> NUL) m_str) cs [] of
              None \<Rightarrow> None
            | Some Undefined \<Rightarrow> Some Undefined
            | Some (Done ((_, wire, _), line)) \<Rightarrow>
                Some (Done (wire,
                 (case line of
                    Undefined \<Rightarrow> Undefined
                  | Done s_mess \<Rightarrow>
                      if s_mess = [] then Done queue
                      else
                       (case msg_send qexist taken queue s_mess of
                          Undefined \<Rightarrow> Undefined
                        | Done (_, queue') \<Rightarrow> Done queue'))))))"

end
