(* ===== verification/Music_Config.thy ===== *)
theory Music_Config
  imports Music_Answer
begin

text \<open>
  \<open>musicgo_alias/config.cpp\<close>, \<open>INIReader::GetSection\<close> and the start of \<open>musicgo_alias.cpp\<close>: the
  settings of the music server, and how its process begins.
\<close>

section \<open>INIReader::GetSection\<close>

text \<open>
  The keys of the values are \<open>section=name\<close> in lower case; the section is looked for anywhere in
  them, and the name is what follows the first equals sign.
\<close>

definition after_equals :: "string \<Rightarrow> string" where
  "after_equals s = (case find_chr CHR ''='' s of None \<Rightarrow> [] | Some i \<Rightarrow> drop (Suc i) s)"

definition GetSection :: "ini_map \<Rightarrow> string \<Rightarrow> (string, string) smap" where
  "GetSection values sec =
     fold (\<lambda>(key, value) v.
        if find_sub (MakeKey sec []) key \<noteq> None then smap_put (after_equals key) value v else v)
       values []"

section \<open>The settings\<close>

text \<open>\<open>parse_host\<close>: the port is read behind the colon, and behind the end when there is none (\<open>None\<close>).\<close>

definition parse_host :: "string \<Rightarrow> (string \<times> int) option" where
  "parse_host p =
     (case find_chr CHR '':'' p of
        None \<Rightarrow> if p = [] then Some ([], 0) else None
      | Some i \<Rightarrow> if i = 0 then Some ([], 0) else Some (take i p, c_atoi (drop (Suc i) p)))"

record music_settings =
  s_host :: string
  s_port :: int
  s_transmit_timeout :: int
  s_start_position :: int
  s_duration :: int
  s_token_lifetime :: int
  s_logfile :: string
  s_logsize :: int
  s_loglevel :: int
  s_daemon :: bool
  s_aliases :: "(string, string) smap"

datatype music_error = NoIni int | NoHost | NoAliases

definition music_ReadIni :: "string option \<Rightarrow> (music_error + music_settings) option" where
  "music_ReadIni file_text =
     (let (parse_error, r) = ini_parse file_text in
      if parse_error \<noteq> 0 then Some (Inl (NoIni parse_error))
      else
       (case parse_host (Get r ''server'' ''host'' ''127.0.0.1:4545'') of
          None \<Rightarrow> None
        | Some (m_host, m_port) \<Rightarrow>
            if m_port = 0 then Some (Inl NoHost)
            else
             (let m = GetSection r ''PATH_MEDIA'' in
              if m = [] then Some (Inl NoAliases)
              else Some (Inr
                \<lparr>s_host = m_host, s_port = m_port,
                 s_transmit_timeout = c_int (GetInteger r ''server'' ''transmit_timeout'' 10),
                 s_start_position = c_int (GetInteger r ''track'' ''start_position'' 10),
                 s_duration = c_int (GetInteger r ''track'' ''duration'' 40),
                 s_token_lifetime = c_int (GetInteger r ''track'' ''token_lifetime'' 180),
                 s_logfile = Get r ''common'' ''logfile'' ''./log/log.txt'',
                 s_logsize = c_int (GetInteger r ''common'' ''logsize'' 10),
                 s_loglevel = GetInteger r ''common'' ''loglevel'' 2,
                 s_daemon = GetBoolean r ''common'' ''daemon'' False,
                 s_aliases = m\<rparr>))))"

definition music_get_logsize :: "music_settings \<Rightarrow> int" where
  "music_get_logsize s = c_int (s_logsize s * 1024)"

text \<open>The enumeration is compared as an unsigned number, and the member keeps the result.\<close>

definition music_get_loglevel :: "music_settings \<Rightarrow> int \<times> music_settings" where
  "music_get_loglevel s =
     (let l = s_loglevel s mod 2 ^ 32; l' = (if l > 2 then 2 else l) in (l', s\<lparr>s_loglevel := l'\<rparr>))"

text \<open>The list of proxies, one to a line.\<close>

definition split_lines :: "string \<Rightarrow> string list" where
  "split_lines s = filter (\<lambda>l. l \<noteq> []) (rev (map rev (fold (\<lambda>c ls.
     if c = CHR 0x0A then [] # ls else (c # hd ls) # tl ls) s [[]])))"

fun add_hosts :: "string list \<Rightarrow> (string, int) smap \<Rightarrow> (string, int) smap option" where
  "add_hosts [] hosts = Some hosts"
| "add_hosts (p # ps) hosts =
     (case parse_host p of
        None \<Rightarrow> None
      | Some (s, m_port) \<Rightarrow>
          add_hosts ps (if s \<noteq> [] \<and> 0 < m_port then smap_put s m_port hosts else hosts))"

definition make_host :: "string option \<Rightarrow> (string, int) smap \<Rightarrow> (bool \<times> (string, int) smap) option" where
  "make_host m_str hosts =
     (case m_str of
        None \<Rightarrow> Some (False, hosts)
      | Some t \<Rightarrow> map_option (\<lambda>h. (h \<noteq> [], h)) (add_hosts (split_lines t) hosts))"

text \<open>What the child of a listener takes from the settings.\<close>

definition listener_config :: "music_settings \<Rightarrow> music_config" where
  "listener_config s =
     \<lparr>start_position = s_start_position s, duration = s_duration s, aliases = s_aliases s\<rparr>"

section \<open>The start\<close>

datatype music_start =
    NotEnough
  | NoDelimiter
  | StopSent "int option"
  | NoConfigFile
  | Refused_config music_error
  | Bad_host
  | Serving music_settings

definition music_is_stop :: "string \<Rightarrow> bool" where
  "music_is_stop s \<longleftrightarrow> s = ''stop'' \<or> s = ''exit''"

text \<open>
  \<open>main\<close> up to the accepting loop. A name of the program without a slash makes \<open>f_pid\<close> the address
  1, which is not null and is read (\<open>NoDelimiter\<close>). \<open>running\<close> is the process the pid file names.
\<close>

definition music_main :: "string list \<Rightarrow> (string \<Rightarrow> string option) \<Rightarrow> int \<Rightarrow> music_start" where
  "music_main argv D running =
     (if length argv < 2 then NotEnough
      else if CHR ''/'' \<notin> set (argv ! 0) then NoDelimiter
      else if music_is_stop (argv ! 1) then StopSent (if running \<noteq> 0 then Some running else None)
      else if D (argv ! 1) = None then NoConfigFile
      else
       (case music_ReadIni (D (argv ! 1)) of
          None \<Rightarrow> Bad_host
        | Some (Inl e) \<Rightarrow> Refused_config e
        | Some (Inr s) \<Rightarrow> Serving s))"

section \<open>Names in lower case\<close>

definition lower :: "string \<Rightarrow> bool" where
  "lower s \<longleftrightarrow> map c_tolower s = s"

definition lower_keys :: "(string, 'v) smap \<Rightarrow> bool" where
  "lower_keys m \<longleftrightarrow> (\<forall>k \<in> set (map fst m). lower k)"

lemma lower_MakeKey: "lower (MakeKey sec name)"
proof -
  have "c_tolower (c_tolower c) = c_tolower c" for c
    by (auto simp: c_tolower_def c_isupper_def code_char_of)
  then show ?thesis by (simp add: lower_def MakeKey_def)
qed

lemma lower_keys_put: "lower k \<Longrightarrow> lower_keys m \<Longrightarrow> lower_keys (smap_put k v m)"
  by (auto simp: lower_keys_def simp del: set_map simp add: smap_put_keys)

lemma lower_keys_value: "lower_keys (ini_values st) \<Longrightarrow> lower_keys (ini_values (ValueHandler sec n v st))"
  by (simp add: ValueHandler_def Let_def lower_keys_put lower_MakeKey)

lemma ini_values_same [simp]:
  "ini_values (set_error st) = ini_values st" "ini_values (st\<lparr>lineno := i\<rparr>) = ini_values st"
  by (simp_all add: set_error_def)

lemma lower_keys_line: "lower_keys (ini_values st) \<Longrightarrow> lower_keys (ini_values (ini_line st l))"
  unfolding ini_line_def Let_def
  by (simp add: lower_keys_value case_prod_beta)

lemma lower_keys_parse: "ini_parse f = (e, m) \<Longrightarrow> lower_keys m"
proof -
  have "lower_keys (ini_values st) \<Longrightarrow> lower_keys (ini_values (foldl ini_line st ls))" for st ls
    by (induction ls arbitrary: st) (simp_all add: lower_keys_line)
  from this [of ini_start] show "ini_parse f = (e, m) \<Longrightarrow> lower_keys m"
    by (auto simp: ini_parse_def Let_def ini_start_def lower_keys_def split: option.splits)
qed

lemma lower_after_equals: "lower k \<Longrightarrow> lower (after_equals k)"
  by (auto simp: lower_def after_equals_def drop_map [symmetric] split: option.splits)

lemma lower_keys_section: "lower_keys m \<Longrightarrow> lower_keys (GetSection m sec)"
proof -
  have cons: "lower_keys ((k, x) # m) \<longleftrightarrow> lower k \<and> lower_keys m" for k x and m :: "(string, string) smap"
    by (simp add: lower_keys_def)
  have "lower_keys m \<Longrightarrow> lower_keys v \<Longrightarrow>
      lower_keys (fold (\<lambda>(key, value) v. if find_sub (MakeKey sec []) key \<noteq> None
        then smap_put (after_equals key) value v else v) m v)" for v
    by (induction m arbitrary: v)
      (auto simp: cons lower_keys_put lower_after_equals)
  from this [of "[]"] show "lower_keys m \<Longrightarrow> lower_keys (GetSection m sec)"
    by (auto simp: GetSection_def lower_keys_def)
qed

section \<open>Properties\<close>

text \<open>
  A name of a directory that is written with a capital letter is never found, whatever the
  configuration says; the file is then looked for at the path the listener gives, anywhere on the
  disk.
\<close>

theorem capital_alias_reads_anywhere:
  assumes "music_ReadIni file_text = Some (Inr s)"
    and "m_alias d = Some a" "c \<in> set a" "c_isupper c"
    and "\<not> is_aac d" "is_mp3 d" "m_date d = Some date" "m_hash d = Some hash"
  shows "fst (snd (sparse_file (aliases (listener_config s)) d)) = date @ ''/'' @ hash @ ''.mp3''"
proof -
  obtain e r where r: "ini_parse file_text = (e, r)" by force
  then have "s_aliases s = GetSection r ''PATH_MEDIA''"
    using assms(1) by (auto simp: music_ReadIni_def Let_def split: if_splits option.splits)
  then have low: "lower_keys (s_aliases s)" using lower_keys_section [OF lower_keys_parse [OF r]] by simp
  have "c_tolower c \<noteq> c" using assms(4) by (auto simp: c_tolower_def c_isupper_def code_char_of dest: arg_cong [of _ _ code])
  then have "\<not> lower a" using assms(3) map_eq_conv [of c_tolower a id] by (auto simp: lower_def)
  then have "map_of (s_aliases s) a = None"
    using low by (auto simp: lower_keys_def map_of_eq_None_iff)
  then show ?thesis
    using assms(2,5-8)
    by (simp add: sparse_file_def Let_def media_file_def alias_path_def listener_config_def)
qed

definition demo_music_ini :: string where
  "demo_music_ini = ''[PATH_MEDIA]'' @ [CHR 0x0A] @ ''MDB=/ssd/'' @ [CHR 0x0A]"

lemma demo_music_ini_accepted: "\<exists>s. music_ReadIni (Some demo_music_ini) = Some (Inr s) \<and> s_aliases s = [(''mdb'', ''/ssd/'')]"
proof -
  have "map_option (\<lambda>x. case x of Inl _ \<Rightarrow> [] | Inr s \<Rightarrow> s_aliases s) (music_ReadIni (Some demo_music_ini)) =
      Some [(''mdb'', ''/ssd/'')]"
    by code_simp
  then obtain x where x: "music_ReadIni (Some demo_music_ini) = Some x"
    "(case x of Inl _ \<Rightarrow> [] | Inr s \<Rightarrow> s_aliases s) = [(''mdb'', ''/ssd/'')]" by auto
  then show ?thesis by (cases x) auto
qed

lemma capital_alias_reads_anywhere_witness:
  "\<exists>s. music_ReadIni (Some demo_music_ini) = Some (Inr s) \<and>
     fst (snd (sparse_file (aliases (listener_config s))
       (no_data\<lparr>is_mp3 := True, m_alias := Some ''MDB'', m_date := Some ''/home/irina'', m_hash := Some ''a''\<rparr>)))
     = ''/home/irina/a.mp3''"
proof -
  obtain s where s: "music_ReadIni (Some demo_music_ini) = Some (Inr s)"
    using demo_music_ini_accepted by blast
  show ?thesis
    using capital_alias_reads_anywhere [OF s, of "no_data\<lparr>is_mp3 := True, m_alias := Some ''MDB'',
        m_date := Some ''/home/irina'', m_hash := Some ''a''\<rparr>" "''MDB''" "CHR ''M''" "''/home/irina''" "''a''"] s
    by (simp add: no_data_def c_isupper_def code_def)
qed

end
