(* ===== verification/Music_Tune.thy ===== *)
theory Music_Tune
  imports Music_Segment
begin

text \<open>
  The segment of a tune: what the scan of \<open>Music_Segment\<close> finds in a file of whole frames, and when
  it ends.
\<close>

lemma aac_header_front: "6 \<le> k \<Longrightarrow> aac_header (take k h) = aac_header h"
  by (simp add: aac_header_def Let_def)

text \<open>A frame of a tune, with a header of rate \<open>r\<close> and its own length.\<close>

definition tune_frame :: "int \<Rightarrow> byte list \<Rightarrow> bool" where
  "tune_frame r fr \<longleftrightarrow> 7 \<le> length fr \<and> aac_header fr = (True, int (length fr), r)"

lemma aac_loop_tune:
  "list_all (tune_frame r) frs \<Longrightarrow> frs \<noteq> [] \<Longrightarrow> rest f = concat frs \<Longrightarrow>
     file_size = p + int (length (concat frs)) \<Longrightarrow> length frs \<le> n \<Longrightarrow>
     \<exists>f'. aac_loop n file_size f k p = Some (Some (k + int (length frs), r), f') \<and> content f' = content f"
proof (induction frs arbitrary: n f k p)
  case (Cons fr frs)
  obtain m where n: "n = Suc m" using Cons.prems(5) by (cases n) auto
  have fr: "7 \<le> length fr" "aac_header fr = (True, int (length fr), r)" "list_all (tune_frame r) frs"
    using Cons.prems(1) by (simp_all add: tune_frame_def [of r fr])
  have "rest f = take 7 fr @ (drop 7 fr @ concat frs)" using Cons.prems(3) by simp
  from fread_exact [OF this] fr(1) obtain f1 where f1: "fread 7 f = (take 7 fr, f1)"
    "rest f1 = drop 7 fr @ concat frs" "content f1 = content f" by auto
  have h: "aac_header (take 7 fr) = (True, int (length fr), r)" using fr(2) aac_header_front [of 7 fr] by simp
  have sk: "seek_cur (int (length fr) - 7) f1 = seek_cur (int (length (drop 7 fr))) f1"
    using fr(1) by (simp add: of_nat_diff)
  show ?case
  proof (cases "frs = []")
    case True
    then show ?thesis using f1 fr h Cons.prems(4) by (simp add: n)
  next
    case False
    then have "0 < length (concat frs)"
      using fr(3) by (cases frs) (auto simp: tune_frame_def)
    then have others: "p + int (length fr) < file_size" using Cons.prems(4) by simp
    have f2: "rest (seek_cur (int (length (drop 7 fr))) f1) = concat frs"
      "content (seek_cur (int (length (drop 7 fr))) f1) = content f"
      using seek_cur_exact [OF f1(2)] f1(3) by auto
    obtain f' where "aac_loop m file_size (seek_cur (int (length (drop 7 fr))) f1) (k + 1) (p + int (length fr)) =
        Some (Some (k + 1 + int (length frs), r), f')" "content f' = content f"
      using Cons.IH [OF fr(3) False f2(1), of "p + int (length fr)" m "k + 1"] Cons.prems(4,5) f2(2)
      by (auto simp: n)
    moreover have "aac_loop n file_size f k p =
        aac_loop m file_size (seek_cur (int (length (drop 7 fr))) f1) (k + 1) (p + int (length fr))"
      using f1(1) h others fr(1) unfolding n sk [symmetric] by simp
    ultimately show ?thesis by (intro exI [of _ f']) simp
  qed
qed simp

lemma seek_content [simp]: "content (seek_to p f) = content f" "content (seek_cur p f) = content f"
  "content (seek_end p f) = content f"
  by (simp_all add: seek_to_def seek_cur_def seek_end_def)

lemma get_start_pos_content: "get_start_pos f = (p, f') \<Longrightarrow> content f' = content f"
  by (auto simp: get_start_pos_def dest: fread_content split: prod.splits)

lemma aac_loop_content: "aac_loop n sz f k p = Some (r, f') \<Longrightarrow> content f' = content f"
proof (induction n sz f k p rule: aac_loop.induct)
  case (2 n sz f k p)
  obtain h f1 where h: "fread 7 f = (h, f1)" by force
  obtain v l rt where v: "aac_header h = (v, l, rt)" by (metis prod_cases3)
  show ?case using 2 fread_content [OF h] h v by (auto simp: Let_def split: if_splits)
qed simp

lemma aac_seek_content:
  "aac_SeekForFirstFrame rnd n start f = Some (Done (ok, rate, f')) \<Longrightarrow> content f' = content f"
  by (auto simp: aac_SeekForFirstFrame_def Let_def dest!: aac_loop_content
      split: option.splits if_splits)

lemma aac_segment_content:
  "aac_file_segment rnd n f s e = Some (Done (ok, s', e', f')) \<Longrightarrow> content f' = content f"
  by (auto simp: aac_file_segment_def Let_def dest!: aac_seek_content get_start_pos_content
      split: option.splits outcome.splits prod.splits if_splits)

lemma mp3_seek_content: "mp3_SeekForFirstFrame s r f = (ok, p, r', f') \<Longrightarrow> content f' = content f"
  by (auto simp: mp3_SeekForFirstFrame_def dest: fread_content split: prod.splits option.splits)

lemma mp3_start_content: "mp3_GetStartPos f = (p, f') \<Longrightarrow> content f' = content f"
  by (auto simp: mp3_GetStartPos_def Let_def dest!: fread_content split: prod.splits if_splits)
    (metis fread_content prod.collapse seek_content)+

lemma mp3_segment_content: "mp3_file_segment f s e = (ok, s', e', f') \<Longrightarrow> content f' = content f"
  by (auto simp: mp3_file_segment_def Let_def dest!: mp3_seek_content mp3_start_content
      split: prod.splits if_splits)

lemma aac_start_scan_bounds: "0 \<le> aac_start_scan buf i \<and> aac_start_scan buf i \<le> int (length buf)"
proof (induction buf i rule: aac_start_scan.induct)
  case (1 buf i)
  then show ?case by (subst (1 2) aac_start_scan.simps) auto
qed

lemma get_start_pos_bounds:
  "get_start_pos f = (p, f') \<Longrightarrow> 0 \<le> p \<and> p \<le> 50000"
proof -
  assume g: "get_start_pos f = (p, f')"
  obtain buf f1 where r: "fread 50000 f = (buf, f1)" by force
  then have "length buf \<le> 50000" using fread_length [OF _ r] by simp
  then show ?thesis using g r aac_start_scan_bounds [of buf 0] by (simp add: get_start_pos_def)
qed

lemma get_start_pos_header:
  assumes "rest f = bs" "10 \<le> length bs" "aac_header bs = (True, len, r)"
  shows "\<exists>f'. get_start_pos f = (0, f') \<and> content f' = content f"
proof -
  obtain buf f1 where b: "fread 50000 f = (buf, f1)" by force
  have "buf = take 50000 (rest f)" using b by (auto simp: fread_def rest_def Let_def split: if_splits)
  then have "buf = take 50000 bs" using assms(1) by simp
  then have len: "10 \<le> length buf" and h: "aac_header buf = (True, len, r)"
    using assms(2,3) aac_header_front [of 50000 bs] by simp_all
  then have "Aac.syncword (buf ! 0) (buf ! 1) = 0x0FFF" by (auto simp: aac_header_def split: if_splits)
  then have "aac_start_scan buf 0 = 0" using len h by (subst aac_start_scan.simps) simp
  then show ?thesis using b fread_content [OF b] by (simp add: get_start_pos_def)
qed

lemma fread_header:
  "fread 7 f = (h, f1) \<Longrightarrow> 7 \<le> length h \<Longrightarrow> h = take 7 (drop (pos f) (content f)) \<and> pos f + 7 \<le> length (content f)"
  by (auto simp: fread_def Let_def split: if_splits)

lemma aac_loop_returns:
  assumes "\<And>q. q + 7 \<le> length bs \<Longrightarrow> \<forall>r. aac_header (take 7 (drop q bs)) \<noteq> (True, 0, r)"
    and "content f = bs" "file_size - next_pos < int n" "0 < n"
  shows "aac_loop n file_size f k next_pos \<noteq> None"
  using assms(2-)
proof (induction n arbitrary: f k next_pos)
  case (Suc n)
  obtain h f1 where h: "fread 7 f = (h, f1)" by force
  obtain v l r where v: "aac_header h = (v, l, r)" by (metis prod_cases3)
  show ?case
  proof (cases "7 \<le> length h \<and> v \<and> next_pos + l < file_size")
    case False
    then show ?thesis using h v by (auto simp: Let_def)
  next
    case True
    have "h = take 7 (drop (pos f) bs)" "pos f + 7 \<le> length bs"
      using fread_header [OF h] True Suc.prems(1) by auto
    then have "l \<noteq> 0" using assms(1) [of "pos f"] v True by auto
    moreover have "0 \<le> l" using v True by (auto simp: aac_header_def Let_def split: if_splits)
    ultimately have "file_size - (next_pos + l) < int n" "0 < n" using Suc.prems(2) True by linarith+
    moreover have "content (seek_cur (l - 7) f1) = bs"
      using fread_content [OF h] Suc.prems(1) by (simp add: seek_cur_def seek_to_def)
    ultimately have "aac_loop n file_size (seek_cur (l - 7) f1) (k + 1) (next_pos + l) \<noteq> None"
      using Suc.IH by blast
    then show ?thesis using h v True by (simp add: Let_def)
  qed
qed simp

lemma aac_loop_hangs:
  assumes "aac_header (take 7 (drop q bs)) = (True, 0, r)" "q + 7 \<le> length bs" "next_pos < file_size"
  shows "content f = bs \<Longrightarrow> pos f = q \<Longrightarrow> aac_loop n file_size f k next_pos = None"
proof (induction n arbitrary: f k)
  case (Suc n)
  obtain h f1 where h: "fread 7 f = (h, f1)" by force
  have 1: "h = take 7 (drop q bs)" "length h = 7" "pos f1 = q + 7" "content f1 = bs"
    using h Suc.prems assms(2) by (auto simp: fread_def Let_def split: if_splits)
  have "content (seek_cur (0 - 7) f1) = bs" "pos (seek_cur (0 - 7) f1) = q"
    using 1 by (auto simp: seek_cur_def seek_to_def)
  then have "aac_loop n file_size (seek_cur (0 - 7) f1) (k + 1) (next_pos + 0) = None"
    using Suc.IH by simp
  then show ?case using h 1 assms(1,3) by (simp add: Let_def)
qed simp

section \<open>Properties\<close>



text \<open>The demonstration: 32 frames of 8 bytes, 4 seconds at 8 kHz.\<close>

definition demo_frame :: "byte list" where
  "demo_frame = [0xFF, 0xF1, 0x6C, 0x00, 0x01, 0x00, 0x00, 0x00]"

definition demo_tune :: "byte list" where
  "demo_tune = concat (replicate 32 demo_frame)"

lemma demo_tune_length: "length demo_tune = 256"
  by code_simp


text \<open>
  C17. The scan of a file for its bit rate ends, after at most as many headers as it has bytes,
  unless a header that gives the length 0 stands somewhere; when the first header does, the
  process of the listener never gets past it.
\<close>

theorem segment_scan_ends:
  assumes "int (length bs) < 2 ^ 31"
  shows "((\<forall>q. q + 7 \<le> length bs \<longrightarrow> (\<forall>r. aac_header (take 7 (drop q bs)) \<noteq> (True, 0, r))) \<and>
        length bs < n \<longrightarrow> aac_file_segment rnd n (opened bs) s e \<noteq> None) \<and>
     (10 \<le> length bs \<and> aac_header bs = (True, 0, r) \<longrightarrow> aac_file_segment rnd n (opened bs) s e = None)"
proof (intro conjI impI; elim conjE)
  obtain p f1 where g: "get_start_pos (opened bs) = (p, f1)" by force
  have c: "content f1 = bs" using get_start_pos_content [OF g] by (simp add: opened_def)
  assume "\<forall>q. q + 7 \<le> length bs \<longrightarrow> (\<forall>r. aac_header (take 7 (drop q bs)) \<noteq> (True, 0, r))" "length bs < n"
  then have "aac_loop n (c_int (int (length bs))) (seek_to p f1) 0 0 \<noteq> None"
    using aac_loop_returns [of bs "seek_to p f1" "c_int (int (length bs))" 0 n 0] c assms
    by (simp add: c_int_id int_range_def)
  then have "aac_SeekForFirstFrame rnd n p f1 \<noteq> None"
    using c by (auto simp: aac_SeekForFirstFrame_def Let_def split: option.splits)
  then show "aac_file_segment rnd n (opened bs) s e \<noteq> None"
    using g by (auto simp: aac_file_segment_def Let_def split: outcome.splits prod.splits)
next
  assume h: "10 \<le> length bs" "aac_header bs = (True, 0, r)"
  obtain f1 where g: "get_start_pos (opened bs) = (0, f1)" "content f1 = bs"
    using get_start_pos_header [of "opened bs" bs] h by (auto simp: opened_def rest_def)
  have "aac_loop n (c_int (int (length bs))) (seek_to 0 f1) 0 0 = None"
    using aac_loop_hangs [of 0 bs r 0 "c_int (int (length bs))" "seek_to 0 f1" n 0] h g(2) assms
      aac_header_front [of 7 bs]
    by (cases "bs = []") (simp_all add: c_int_id int_range_def seek_to_def)
  then show "aac_file_segment rnd n (opened bs) s e = None"
    using g by (simp add: aac_file_segment_def aac_SeekForFirstFrame_def Let_def)
qed

lemma segment_scan_ends_witness:
  "aac_file_segment id 300 (opened demo_frame) 1 2 \<noteq> None \<and>
   aac_file_segment id 300 (opened [0xFF, 0xF1, 0x6C, 0, 0, 0, 0, 0, 0, 0]) 1 2 = None"
proof
  have q: "q + 7 \<le> length demo_frame \<Longrightarrow> aac_header (take 7 (drop q demo_frame)) \<noteq> (True, 0, r)" for q r
  proof -
    assume "q + 7 \<le> length demo_frame"
    then have "q = 0 \<or> q = 1" by (auto simp: demo_frame_def)
    moreover have "aac_header (take 7 (drop 0 demo_frame)) = (True, 8, 8000)"
      "aac_header (take 7 (drop 1 demo_frame)) = (False, 0, 0)"
      by code_simp+
    ultimately show ?thesis by (metis prod.inject zero_neq_numeral)
  qed
  show "aac_file_segment id 300 (opened demo_frame) 1 2 \<noteq> None"
    using segment_scan_ends [of demo_frame 300 id 1 2] q by (simp add: demo_frame_def)
  have "aac_header [0xFF, 0xF1, 0x6C, 0, 0, 0, 0, 0, 0, 0] = (True, 0, 8000)" by code_simp
  then show "aac_file_segment id 300 (opened [0xFF, 0xF1, 0x6C, 0, 0, 0, 0, 0, 0, 0]) 1 2 = None"
    using segment_scan_ends [of "[0xFF, 0xF1, 0x6C, 0, 0, 0, 0, 0, 0, 0]" 300 id 1 2 8000] by simp
qed

end
