(* ===== verification/Music_Server.thy ===== *)
theory Music_Server
  imports Music_Answer Music_Tune
begin

text \<open>
  What the music server sends: the bytes of an answer on the wire, the limits of the preview, and
  the end of the process that serves a listener.
\<close>

section \<open>The transfer\<close>

lemma chars_length: "length (chars bs) = length bs"
  by (simp add: chars_def)

lemma body_part:
  fixes e :: int and bs :: "byte list"
  defines "d \<equiv> take BUFFER_SIZE bs"
  defines "m \<equiv> min (int (length d)) e"
  shows "e - m = 0 \<Longrightarrow> chars (take (nat m) d) = chars (take (nat e) bs)"
    and "e - m \<noteq> 0 \<Longrightarrow> chars (take (nat e) bs) =
           chars (take (nat m) d) @ chars (take (nat (e - m)) (drop BUFFER_SIZE bs))"
proof -
  assume "e - m = 0"
  then have "nat m \<le> BUFFER_SIZE" "m = e" by (auto simp: m_def d_def)
  then show "chars (take (nat m) d) = chars (take (nat e) bs)" by (simp add: d_def)
next
  assume "e - m \<noteq> 0"
  then have m: "m = int (length d)" "int (length d) < e" by (auto simp: m_def)
  have "take (nat e) bs = d @ take (nat (e - m)) (drop BUFFER_SIZE bs)"
  proof (cases "length bs \<le> BUFFER_SIZE")
    case True
    then show ?thesis using m by (simp add: d_def)
  next
    case False
    then have "nat e = BUFFER_SIZE + nat (e - m)" using m by (simp add: d_def)
    then show ?thesis by (simp add: d_def take_add)
  qed
  then show "chars (take (nat e) bs) =
      chars (take (nat m) d) @ chars (take (nat (e - m)) (drop BUFFER_SIZE bs))"
    using m by (simp add: chars_def)
qed

lemma body_loop_sent:
  "body_loop cs wire bs e t = Some (t', wire', cs') \<Longrightarrow>
     \<exists>p. wire' = wire @ p \<and> prefix p (chars (take (nat e) bs)) \<and>
         (Failed \<notin> set cs \<longrightarrow> p = chars (take (nat e) bs) \<and> (0 \<le> e \<longrightarrow> t' = t + int (length p)))"
proof (induction cs wire bs e t rule: body_loop.induct)
  case (1 cs wire bs e t)
  show ?case
  proof (cases "bs = []")
    case True
    then show ?thesis using "1.prems" by (simp add: body_loop.simps chars_def)
  next
    case ne: False
    define d where "d = take BUFFER_SIZE bs"
    define m where "m = min (int (length d)) e"
    define part where "part = chars (take (nat m) d)"
    note split = body_part [of e bs, folded d_def, folded m_def, folded part_def]
    obtain ok w1 cs1 where s: "send_loop cs part wire = Some (ok, w1, cs1)"
      using "1.prems" ne unfolding part_def m_def d_def
      by (subst (asm) body_loop.simps) (auto simp: Let_def split: option.splits)
    obtain p where p: "w1 = wire @ p" "if ok then p = part else strict_prefix p part"
      using send_loop_wire [OF s] by blast
    have fine: "Failed \<notin> set cs \<Longrightarrow> ok" using send_loop_ok [OF s] .
    have pre: "prefix part (chars (take (nat e) bs))"
      by (cases "e - m = 0") (simp_all add: split)
    have step: "body_loop cs wire bs e t =
        (if \<not> ok then Some (t, w1, cs1)
         else if e - m = 0 then Some (t + m, w1, cs1)
         else body_loop cs1 w1 (drop BUFFER_SIZE bs) (e - m) (t + m))"
      using ne s unfolding part_def m_def d_def by (subst body_loop.simps) (simp add: Let_def)
    consider "\<not> ok" | "ok" "e - m = 0" | "ok" "e - m \<noteq> 0" by blast
    then show ?thesis
    proof cases
      case 1
      then show ?thesis using "1.prems" step p fine pre
        by (auto simp: strict_prefix_def intro: prefix_order.trans)
    next
      case 2
      then have "m \<le> int (length d)" by (simp add: m_def)
      then have "int (length part) = m" if "0 \<le> m" using that by (simp add: part_def chars_length)
      with 2 show ?thesis using "1.prems" step p split(1) by auto
    next
      case 3
      then have rec: "body_loop cs1 w1 (drop BUFFER_SIZE bs) (e - m) (t + m) = Some (t', wire', cs')"
        using "1.prems" step by simp
      obtain q where q: "wire' = w1 @ q" "prefix q (chars (take (nat (e - m)) (drop BUFFER_SIZE bs)))"
        "Failed \<notin> set cs1 \<longrightarrow> q = chars (take (nat (e - m)) (drop BUFFER_SIZE bs)) \<and>
           (0 \<le> e - m \<longrightarrow> t' = t + m + int (length q))"
        using "1.IH" [OF ne d_def m_def s [unfolded part_def] refl refl _ _ rec] 3 by auto
      moreover have "int (length part) = m \<and> 0 \<le> e - m"
        using 3 by (auto simp: part_def chars_length m_def)
      ultimately show ?thesis using 3 p split(2) send_loop_left [OF s]
        by (intro exI [of _ "p @ q"]) auto
    qed
  qed
qed

lemma body_loop_returns:
  "length (take (nat e) bs) \<le> progress cs \<Longrightarrow> body_loop cs wire bs e t \<noteq> None"
proof (induction cs wire bs e t rule: body_loop.induct)
  case (1 cs wire bs e t)
  show ?case
  proof (cases "bs = []")
    case True
    then show ?thesis by (simp add: body_loop.simps)
  next
    case ne: False
    define d where "d = take BUFFER_SIZE bs"
    define m where "m = min (int (length d)) e"
    define part where "part = chars (take (nat m) d)"
    note split = body_part [of e bs, folded d_def, folded m_def, folded part_def]
    have len: "length (take (nat e) bs) =
        length part + (if e - m = 0 then 0 else length (take (nat (e - m)) (drop BUFFER_SIZE bs)))"
    proof (cases "e - m = 0")
      case True
      show ?thesis using arg_cong [OF split(1) [OF True], of length]
        by (simp only: chars_length True if_True refl add_0_right)
    next
      case False
      show ?thesis using arg_cong [OF split(2) [OF False], of length]
        by (simp only: chars_length length_append False if_False)
    qed
    have "length part \<le> progress cs" using len "1.prems" by linarith
    from send_loop_progress [OF this, of wire] obtain ok w1 cs1
      where s: "send_loop cs part wire = Some (ok, w1, cs1)" by auto
    have step: "body_loop cs wire bs e t =
        (if \<not> ok then Some (t, w1, cs1)
         else if e - m = 0 then Some (t + m, w1, cs1)
         else body_loop cs1 w1 (drop BUFFER_SIZE bs) (e - m) (t + m))"
      using ne s unfolding part_def m_def d_def by (subst body_loop.simps) (simp add: Let_def)
    have "body_loop cs1 w1 (drop BUFFER_SIZE bs) (e - m) (t + m) \<noteq> None" if "ok" "e - m \<noteq> 0"
    proof (rule "1.IH" [OF ne d_def m_def s [unfolded part_def] refl refl])
      show "length (take (nat (e - m)) (drop BUFFER_SIZE bs)) \<le> progress cs1"
        using len that "1.prems" send_loop_left [OF s] by simp
    qed (use that in auto)
    then show ?thesis using step by simp
  qed
qed

text \<open>The bytes of an answer: where it begins, and where it ends.\<close>

definition answer_bytes :: "int \<Rightarrow> int \<Rightarrow> cfile \<Rightarrow> byte list" where
  "answer_bytes first stop f = take (nat (stop + 1)) (rest (seek_to first f))"

lemma transfer_sends:
  assumes fits: "length header \<le> BUFFER_SIZE" and stop: "int_range (stop + 1)"
    and body: "body = chars (take (nat (stop + 1)) bs)"
  shows "transfer noted header bs stop cs wire = Some (Done (a, wire', cs')) \<Longrightarrow>
      \<exists>p. wire' = wire @ p \<and> prefix p (header @ body) \<and>
        (Failed \<notin> set cs \<longrightarrow> p = header @ body \<and> given a \<and>
           (0 \<le> stop + 1 \<longrightarrow> response_size a = int (length body)))"
    and "length header + length body \<le> progress cs \<Longrightarrow>
      \<exists>w. transfer noted header bs stop cs wire = Some (Done w)"
proof -
  assume t: "transfer noted header bs stop cs wire = Some (Done (a, wire', cs'))"
  obtain ok w1 cs1 where s: "send_loop cs header wire = Some (ok, w1, cs1)"
    using t fits by (auto simp: transfer_def split: option.splits)
  obtain p where p: "w1 = wire @ p" "if ok then p = header else strict_prefix p header"
    using send_loop_wire [OF s] by blast
  have fine: "Failed \<notin> set cs \<Longrightarrow> ok" using send_loop_ok [OF s] .
  show "\<exists>p. wire' = wire @ p \<and> prefix p (header @ body) \<and>
        (Failed \<notin> set cs \<longrightarrow> p = header @ body \<and> given a \<and>
           (0 \<le> stop + 1 \<longrightarrow> response_size a = int (length body)))"
  proof (cases ok)
    case False
    then have "wire' = w1" using t s fits by (simp add: transfer_def)
    with False p fine show ?thesis by (auto simp: strict_prefix_def)
  next
    case True
    then obtain k cs2 where b: "body_loop cs1 w1 bs (stop + 1) 0 = Some (k, wire', cs2)"
      "given a" "response_size a = k"
      using t s fits c_int_id [OF stop] by (auto simp: transfer_def split: option.splits)
    obtain q where q: "wire' = w1 @ q" "prefix q body"
      "Failed \<notin> set cs1 \<longrightarrow> q = body \<and> (0 \<le> stop + 1 \<longrightarrow> k = int (length q))"
      using body_loop_sent [OF b(1)] body by auto
    have "Failed \<notin> set cs \<longrightarrow> Failed \<notin> set cs1" using send_loop_left [OF s] by blast
    then show ?thesis using True p q b(2,3) by (intro exI [of _ "header @ q"]) auto
  qed
next
  assume enough: "length header + length body \<le> progress cs"
  obtain ok w1 cs1 where s: "send_loop cs header wire = Some (ok, w1, cs1)"
    using send_loop_progress [of header cs wire] enough by auto
  have "length (take (nat (stop + 1)) bs) \<le> progress cs1"
    using enough send_loop_left [OF s] by (simp only: body chars_length) linarith
  then obtain k w2 cs2 where "body_loop cs1 w1 bs (stop + 1) 0 = Some (k, w2, cs2)"
    using body_loop_returns [of "stop + 1" bs cs1 w1 0] by auto
  then show "\<exists>w. transfer noted header bs stop cs wire = Some (Done w)"
    using s fits by (simp add: transfer_def c_int_id [OF stop])
qed

lemma preview_content: "preview rnd n cfg d bs = Some (Done (s, l, f)) \<Longrightarrow> content f = bs"
  by (auto simp: preview_def pFileSegment_def Let_def opened_def dest!: aac_segment_content mp3_segment_content
      split: option.splits outcome.splits prod.splits if_splits)


lemma file_rest:
  "preview rnd n cfg d bs = Some (Done (s, m, f)) \<Longrightarrow> 0 \<le> p \<Longrightarrow> rest (seek_to p f) = drop (nat p) bs"
  by (drule preview_content) (simp add: rest_def seek_to_def)

section \<open>Properties\<close>

definition demo_listener :: "(int \<times> int) list \<Rightarrow> mdata" where
  "demo_listener r =
     no_data\<lparr>is_aac := True, m_http := Some ''1.1'', m_id := 7, m_module := Some ''mdb'',
       m_token := Some (replicate 32 CHR ''t''), mRange := r\<rparr>"

definition demo_music :: music_config where
  "demo_music = \<lparr>start_position = 10, duration = 40, aliases = [(''101.ru'', ''/ssd/'')]\<rparr>"

definition demo_media :: "byte list" where
  "demo_media = [1, 2, 3, 4, 5, 6, 7, 8, 9, 10]"

definition demo_date :: string where "demo_date = ''Wed Feb 21 12:00:00 2018''"

lemma demo_answer:
  "preview id 0 demo_music (demo_listener r) demo_media = Some (Done (0, 10, opened demo_media))"
  by (simp add: preview_def demo_listener_def demo_media_def no_data_def c_int_def)

lemma demo_answer_header: "length (answer_header demo_date (demo_listener r) 2 4 10) \<le> 400"
  unfolding answer_header_def demo_listener_def no_data_def
  by code_simp

text \<open>
  C12. The answer to a listener is the header and then, from byte \<open>start + b\<close> of the file on, the
  bytes up to the one numbered by the end of the range, counted from there and not from the
  beginning of the file.
\<close>

theorem answer_sent:
  assumes "mRange d = (b, l) # r" "preview rnd n cfg d bs = Some (Done (start, m_len, f))"
    and "stop = answer_stop l m_len" "int_range (stop + 1)"
    and "header = answer_header now d b stop m_len" "length header \<le> BUFFER_SIZE"
    and "body = chars (answer_bytes (c_int (start + b)) stop f)"
  shows "(\<forall>a wire' cs'. send_file rnd n cfg now d bs cs wire = Some (Done (a, wire', cs')) \<longrightarrow>
      (\<exists>p. wire' = wire @ p \<and> prefix p (header @ body) \<and>
        (Failed \<notin> set cs \<longrightarrow> p = header @ body \<and> given a \<and>
           (0 \<le> stop + 1 \<longrightarrow> response_size a = int (length body))))) \<and>
    (length header + length body \<le> progress cs \<longrightarrow>
      (\<exists>w. send_file rnd n cfg now d bs cs wire = Some (Done w)))"
proof -
  have body: "body = chars (take (nat (stop + 1)) (rest (seek_to (c_int (start + b)) f)))"
    by (simp add: assms answer_bytes_def)
  show ?thesis
    using transfer_sends [OF assms(6,4) body] assms(1,2)
    by (simp add: send_file_def Let_def assms(3,5))
qed



lemma answer_sent_witness:
  "\<exists>w. send_file id 0 demo_music demo_date (demo_listener [(2, 4)]) demo_media
     (replicate 500 (Sent 1000)) [] = Some (Done w)"
proof -
  have h: "length (answer_header demo_date (demo_listener [(2, 4)]) 2 4 10) \<le> BUFFER_SIZE"
    using demo_answer_header [of "[(2, 4)]"] by (simp add: BUFFER_SIZE_def)
  have "progress (replicate 500 (Sent 1000)) = 500" by (simp add: progress_def)
  moreover have "length (chars (answer_bytes (c_int (0 + 2)) 4 (opened demo_media))) \<le> 10"
    by (simp add: chars_length answer_bytes_def)
  moreover have "mRange (demo_listener [(2, 4)]) = (2, 4) # []" "4 = answer_stop 4 10" "int_range (4 + 1)"
    by (simp_all add: demo_listener_def answer_stop_def int_range_def)
  note answer_sent [OF this(1) demo_answer this(2,3) refl h refl]
  ultimately show ?thesis using demo_answer_header [of "[(2, 4)]"] by simp
qed

text \<open>
  C15. For a listener with a token who asks for the bytes from \<open>b\<close> to \<open>l\<close> the header announces
  the \<open>l - b + 1\<close> bytes he asked for, and \<open>b\<close> more follow.
\<close>

theorem range_sends_too_much:
  assumes "mRange d = (b, l) # r" "m_token d = Some tok"
    and "0 \<le> b" "b \<le> l" "0 < l" "b + l < int (length bs)" "int (length bs) < 2 ^ 31"
    and "header = answer_header now d b l (int (length bs))" "length header \<le> BUFFER_SIZE"
    and "Failed \<notin> set cs" "length header + nat (l + 1) \<le> progress cs"
  shows "\<exists>a body cs'. send_file rnd n cfg now d bs cs wire = Some (Done (a, wire @ header @ chars body, cs')) \<and>
     body = take (nat (l + 1)) (drop (nat b) bs) \<and> int (length body) = (l - b + 1) + b"
proof -
  have range: "int_range (l + 1)" "int_range b" "int_range (int (length bs))"
    using assms(3-7) by (auto simp: int_range_def)
  have p: "preview rnd n cfg d bs = Some (Done (0, int (length bs), opened bs))"
    using assms(2) range by (simp add: preview_def c_int_id)
  define body where "body = take (nat (l + 1)) (drop (nat b) bs)"
  have len: "int (length body) = l + 1" using assms(3-7) by (simp add: body_def)
  have at: "rest (seek_to (c_int (0 + b)) (opened bs)) = drop (nat b) bs"
    using file_rest [OF p] range assms(3) by (simp add: c_int_id)
  define noted where "noted = no_answer\<lparr>file_size := int (length bs), range_start := b, range_stop := l\<rparr>"
  have eq: "send_file rnd n cfg now d bs cs wire = transfer noted header (drop (nat b) bs) l cs wire"
    using assms(5) range at
    by (simp add: send_file_def assms(1,8) p Let_def answer_stop_def noted_def c_int_id)
  have "length header + length (chars body) \<le> progress cs"
    using assms(11) len by (simp add: chars_length)
  then obtain a w cs' where t: "transfer noted header (drop (nat b) bs) l cs wire = Some (Done (a, w, cs'))"
    using transfer_sends(2) [OF assms(9) range(1), of "chars body" "drop (nat b) bs" cs noted wire]
    by (auto simp: body_def)
  have "w = wire @ header @ chars body"
    using transfer_sends(1) [OF assms(9) range(1) _ t, of "chars body"] assms(10) by (auto simp: body_def)
  then show ?thesis using eq t len by (auto simp: body_def)
qed

lemma range_sends_too_much_witness:
  "\<exists>a body cs'. send_file id 0 demo_music demo_date (demo_listener [(2, 4)]) demo_media
       (replicate 500 (Sent 1000)) []
     = Some (Done (a, answer_header demo_date (demo_listener [(2, 4)]) 2 4 10 @ chars body, cs')) \<and>
     body = [3, 4, 5, 6, 7]"
proof -
  have h: "length (answer_header demo_date (demo_listener [(2, 4)]) 2 4 10) \<le> BUFFER_SIZE"
    using demo_answer_header [of "[(2, 4)]"] by (simp add: BUFFER_SIZE_def)
  have "progress (replicate 500 (Sent 1000)) = 500" by (simp add: progress_def)
  then show ?thesis
    using range_sends_too_much [of "demo_listener [(2, 4)]" 2 4 "[]" "replicate 32 CHR ''t''" demo_media
        "answer_header demo_date (demo_listener [(2, 4)]) 2 4 10" demo_date "replicate 500 (Sent 1000)"
        id 0 demo_music "[]"] h demo_answer_header [of "[(2, 4)]"]
    by (simp add: demo_listener_def demo_media_def numeral_eq_Suc [symmetric])
qed



text \<open>
  C14. The limit is not one: without a token, a listener who asks for the bytes from \<open>- start\<close> to an
  end as large as the file gets the whole file.
\<close>

theorem range_bypasses_preview:
  assumes "m_token d = None" "preview rnd n cfg d bs = Some (Done (start, m_len, f))"
    and "mRange d = (- start, l) # r" "0 < l" "int (length bs) \<le> l + 1" "l + 1 < 2 ^ 31"
    and "header = answer_header now d (- start) l m_len" "length header \<le> BUFFER_SIZE"
    and "Failed \<notin> set cs" "length header + length bs \<le> progress cs"
  shows "\<exists>a cs'. send_file rnd n cfg now d bs cs wire = Some (Done (a, wire @ header @ chars bs, cs'))"
proof -
  have range: "int_range (l + 1)" using assms(4,6) by (simp add: int_range_def)
  have at: "rest (seek_to (c_int (start + - start)) f) = bs"
    using file_rest [OF assms(2), of 0] by (simp add: c_int_def)
  have body: "chars bs = chars (take (nat (l + 1)) bs)" using assms(5) by simp
  define noted where
    "noted = no_answer\<lparr>file_size := c_int (int (length bs)), range_start := - start, range_stop := l\<rparr>"
  have eq: "send_file rnd n cfg now d bs cs wire = transfer noted header bs l cs wire"
    using assms(4) at
    by (simp add: send_file_def assms(2,3,7) Let_def answer_stop_def noted_def)
  have "length header + length (chars bs) \<le> progress cs" using assms(10) by (simp add: chars_length)
  then obtain a w cs' where t: "transfer noted header bs l cs wire = Some (Done (a, w, cs'))"
    using transfer_sends(2) [OF assms(8) range body, of cs noted wire] by auto
  then have "w = wire @ header @ chars bs"
    using transfer_sends(1) [OF assms(8) range body t] assms(9) by auto
  then show ?thesis using eq t by auto
qed


definition demo_preview :: music_config where
  "demo_preview = \<lparr>start_position = 1, duration = 2, aliases = [(''101.ru'', ''/ssd/'')]\<rparr>"

lemma demo_segment:
  "\<exists>f. pFileSegment id 40 True demo_tune 1 2 = Some (Done (True, 64, 128, f))"
proof -
  have "map_option (\<lambda>x. case x of Done (ok, s, e, f) \<Rightarrow> (ok, s, e) | _ \<Rightarrow> (False, 0, 0))
      (pFileSegment id 40 True demo_tune 1 2) = Some (True, 64, 128)"
    by code_simp
  then show ?thesis
    by (cases "pFileSegment id 40 True demo_tune 1 2" rule: option.exhaust)
      (simp, auto split: outcome.split_asm prod.split_asm)
qed


definition demo_guest :: "(int \<times> int) list \<Rightarrow> mdata" where
  "demo_guest r = (demo_listener r)\<lparr>m_token := None\<rparr>"

lemma demo_guest_fields [simp]:
  "m_token (demo_guest r) = None" "is_aac (demo_guest r)" "mRange (demo_guest r) = r"
  by (simp_all add: demo_guest_def demo_listener_def)

lemma demo_guest_header: "length (answer_header demo_date (demo_guest r) (- 64) 300 128) \<le> 400"
  "length (answer_header demo_date (demo_guest r) 0 127 128) \<le> 400"
  unfolding answer_header_def demo_guest_def demo_listener_def no_data_def
  by code_simp+


lemma range_bypasses_preview_witness:
  "\<exists>a cs'. send_file id 40 demo_preview demo_date (demo_guest [(- 64, 300)]) demo_tune
       (replicate 700 (Sent 1000)) [] =
     Some (Done (a, answer_header demo_date (demo_guest [(- 64, 300)]) (- 64) 300 128 @ chars demo_tune, cs'))"
proof -
  obtain f where f: "pFileSegment id 40 True demo_tune 1 2 = Some (Done (True, 64, 128, f))"
    using demo_segment by blast
  have p: "preview id 40 demo_preview (demo_guest [(- 64, 300)]) demo_tune = Some (Done (64, 128, f))"
    by (simp add: preview_def demo_preview_def f demo_tune_length c_int_def)
  have h: "length (answer_header demo_date (demo_guest [(- 64, 300)]) (- 64) 300 128) \<le> BUFFER_SIZE"
    using demo_guest_header(1) [of "[(- 64, 300)]"] by (simp add: BUFFER_SIZE_def)
  have "progress (replicate 700 (Sent 1000)) = 700" by (simp add: progress_def)
  then show ?thesis
    using range_bypasses_preview [OF _ p _ _ _ _ refl h, of "[]" "replicate 700 (Sent 1000)" "[]"]
      demo_guest_header(1) [of "[(- 64, 300)]"]
    by (simp add: demo_tune_length)
qed

definition demo_request :: string where
  "demo_request = ''GET /?id=7&module=mdb HTTP/1.1'' @ cr_lf @ cr_lf"


text \<open>
  \<open>bsendfile\<close> begins again with every call of \<open>sendfile\<close>: a file that the kernel takes in two
  pieces arrives as its first piece followed by its beginning, not by its second piece.
\<close>

theorem bsendfile_repeats:
  assumes "k < length bs" "0 < k" "length bs \<le> k + m"
  shows "bsendfile [Sent k, Sent m] bs 0 (int (length bs)) wire =
     Some (True, wire @ chars (take k bs) @ chars (take (length bs - k) bs), [])"
proof -
  have "nat (int (length bs) - int k) = length bs - k" using assms by (simp add: nat_diff_distrib)
  moreover have "min k (length bs) = k" "min m (length bs - k) = length bs - k"
    "min (length bs) (length bs - k) = length bs - k" "bs \<noteq> []"
    using assms by auto
  ultimately show ?thesis using assms by (simp add: bsendfile_def Let_def)
qed

lemma bsendfile_repeats_witness:
  "bsendfile [Sent 2, Sent 9] [1, 2, 3] 0 3 [] = Some (True, chars [1, 2, 1], [])"
  using bsendfile_repeats [of 2 "[1, 2, 3]" 9 "[]"] by (simp add: chars_def)

end
