(* ===== verification/Music_Parse.thy ===== *)
theory Music_Parse
  imports Music_Request
begin

text \<open>
  What the parser of \<open>Music_Request\<close> makes of a request: the parameters are well formed whatever
  arrives, and a request as a player writes it is read back.
\<close>

section \<open>Well-formed parameters\<close>

text \<open>
  What the fields hold, as \<open>create_answer\<close> takes them: numbers of the width of \<open>int\<close>, ranges in the
  order of their keys, a token of at least 32 characters, and a date just for an mp3.
\<close>

definition mdata_ok :: "mdata \<Rightarrow> bool" where
  "mdata_ok d \<longleftrightarrow> int_range (m_id d) \<and> smap_ok (mRange d) \<and>
     list_all (\<lambda>(f, l). int_range f \<and> int_range l) (mRange d) \<and>
     (case m_token d of None \<Rightarrow> True | Some t \<Rightarrow> TOKEN_SIZE \<le> length t) \<and>
     (is_mp3 d \<longleftrightarrow> m_date d \<noteq> None) \<and> (m_id d \<noteq> 0 \<longrightarrow> is_aac d)"

lemma no_data_ok: "mdata_ok no_data"
  by (simp add: mdata_ok_def no_data_def int_range_def smap_ok_def)

lemma mdata_ok_texts [simp]:
  "mdata_ok (d\<lparr>m_http := a\<rparr>) = mdata_ok d" "mdata_ok (d\<lparr>m_module := a\<rparr>) = mdata_ok d"
  "mdata_ok (d\<lparr>m_hash := a\<rparr>) = mdata_ok d" "mdata_ok (d\<lparr>m_alias := a\<rparr>) = mdata_ok d"
  "mdata_ok (d\<lparr>m_username := a\<rparr>) = mdata_ok d" "mdata_ok (d\<lparr>m_userpass := a\<rparr>) = mdata_ok d"
  "mdata_ok (d\<lparr>m_request := a\<rparr>) = mdata_ok d" "mdata_ok (d\<lparr>m_user_agent := a\<rparr>) = mdata_ok d"
  "mdata_ok (d\<lparr>m_referer := a\<rparr>) = mdata_ok d"
  by (simp_all add: mdata_ok_def)

lemma mdata_ok_range:
  "mdata_ok d \<Longrightarrow> int_range f \<Longrightarrow> int_range l \<Longrightarrow> mdata_ok (d\<lparr>mRange := smap_put f l (mRange d)\<rparr>)"
proof -
  have "list_all P (smap_put f l m)" if "P (f, l)" "list_all P m" for P and m :: "(int, int) smap"
    using that by (induction f l m rule: smap_put.induct) auto
  then show "mdata_ok d \<Longrightarrow> int_range f \<Longrightarrow> int_range l \<Longrightarrow> mdata_ok (d\<lparr>mRange := smap_put f l (mRange d)\<rparr>)"
    by (simp add: mdata_ok_def smap_put_ok)
qed

lemma mdata_ok_fields:
  "mdata_ok d \<Longrightarrow> mdata_ok (d\<lparr>m_token := None\<rparr>)"
  "mdata_ok d \<Longrightarrow> \<not> length v < TOKEN_SIZE \<Longrightarrow> mdata_ok (d\<lparr>m_token := Some v\<rparr>)"
  "mdata_ok d \<Longrightarrow> mdata_ok (d\<lparr>m_id := c_atoi v, is_aac := True\<rparr>)"
  "mdata_ok d \<Longrightarrow> mdata_ok (d\<lparr>m_date := Some v, is_mp3 := True\<rparr>)"
  by (simp_all add: mdata_ok_def c_atoi_def c_int_range)

lemma byte_range_ints: "byte_range t mem = Some (f, l) \<Longrightarrow> int_range f \<and> int_range l"
  by (auto simp: byte_range_def Let_def c_int_range split: option.splits if_splits)

lemma handle_token_ok: "handle_token t mem d = Some d' \<Longrightarrow> mdata_ok d \<Longrightarrow> mdata_ok d'"
  unfolding handle_token_def
  by (auto split: option.split_asm if_split_asm
      intro: mdata_ok_fields mdata_ok_range dest!: byte_range_ints simp del: if_split)

lemma get_file_data_ok: "get_file_data b p d = Some (b', d') \<Longrightarrow> mdata_ok d \<Longrightarrow> mdata_ok d'"
proof (induction b p d rule: get_file_data.induct)
  case (1 b p d)
  show ?case
  proof (cases "strtok '' ?&'' b p")
    case None
    then show ?thesis using "1.prems" by (simp add: get_file_data.simps)
  next
    case (Some r)
    obtain s l b1 q where r: "r = (s, l, b1, q)" by (metis prod_cases4)
    obtain d1 where d1: "handle_token (take l (drop s b)) (drop s b1) d = Some d1"
      "get_file_data b1 q d1 = Some (b', d')"
      using "1.prems" Some r by (subst (asm) get_file_data.simps) (auto split: option.splits)
    then show ?thesis
      using "1.IH" [OF Some _ _ _ d1] r handle_token_ok "1.prems"(2) by blast
  qed
qed

lemma handle_line_ok: "handle_line b p line d = Some (b', d') \<Longrightarrow> mdata_ok d \<Longrightarrow> mdata_ok d'"
  by (auto simp: handle_line_def dest!: get_file_data_ok split: option.split_asm)

lemma sparse_loop_ok: "sparse_loop b p d = Some d' \<Longrightarrow> mdata_ok d \<Longrightarrow> mdata_ok d'"
proof (induction b p d rule: sparse_loop.induct)
  case (1 b p d)
  have ne: "\<not> length b \<le> p" using "1.prems"(1) by (subst (asm) sparse_loop.simps) (auto split: if_splits)
  show ?case
  proof (cases "strtok cr_lf b p")
    case None
    then show ?thesis using "1.prems" ne by (simp add: sparse_loop.simps)
  next
    case (Some r)
    obtain s l b1 q where r: "r = (s, l, b1, q)" by (metis prod_cases4)
    obtain b2 d2 where h: "handle_line b1 s (take l (drop s b)) d = Some (b2, d2)"
      "sparse_loop b2 (p + l + 2) d2 = Some d'"
      using "1.prems"(1) Some r ne by (subst (asm) sparse_loop.simps) (auto split: option.splits)
    then show ?thesis
      using "1.IH" [OF ne Some [unfolded r] refl refl refl h(1) refl h(2)] handle_line_ok "1.prems"(2) by blast
  qed
qed

lemma sparse_file_ok:
  assumes "mdata_ok d0" "sparse_file al d0 = (st, path, d)"
  shows "mdata_ok d \<and> m_http d \<noteq> None \<and> (st = 0 \<longleftrightarrow> path \<noteq> []) \<and>
     (st = 0 \<longrightarrow> path = media_file al d \<and>
        (if is_aac d then m_module d \<noteq> None \<and> m_id d \<noteq> 0 \<and> mRange d \<noteq> []
         else m_date d \<noteq> None \<and> m_hash d \<noteq> None))"
proof -
  define d1 where "d1 = (if m_http d0 = None then d0\<lparr>m_http := Some ''1.1''\<rparr> else d0)"
  define d2 where "d2 = (if is_aac d1 \<and> mRange d1 = [] then d1\<lparr>mRange := [(0, 0)]\<rparr> else d1)"
  have 1: "mdata_ok d1" "m_http d1 \<noteq> None" using assms(1) by (auto simp: d1_def)
  have 2: "mdata_ok d2" "m_http d2 \<noteq> None" "is_aac d2 = is_aac d1" "m_id d2 = m_id d1"
    "m_module d2 = m_module d1" "is_mp3 d2 = is_mp3 d1" "is_aac d2 \<Longrightarrow> mRange d2 \<noteq> []"
    using 1 by (auto simp: d2_def mdata_ok_def smap_ok_def int_range_def)
  have 3: "media_file al d2 \<noteq> []" by (simp add: media_file_def)
  consider "(st, path, d) = (STATUS_EMPTY, [], d1)" | "(st, path, d) = (STATUS_ID_MODULE, [], d1)"
    | "(st, path, d) = (STATUS_ID_MODULE, [], d2)"
    | "(st, path, d) = (0, media_file al d2, d2)" "is_aac d1 \<or> is_mp3 d1"
      "\<not> (is_aac d1 \<and> (m_id d1 = 0 \<or> m_module d1 = None))"
      "\<not> (is_mp3 d2 \<and> (m_date d2 = None \<or> m_hash d2 = None))"
    using assms(2) unfolding sparse_file_def Let_def d1_def [symmetric] d2_def [symmetric]
    by (metis (no_types))
  then show ?thesis
    by cases (use 1 2 3 in \<open>auto simp: STATUS_EMPTY_def STATUS_ID_MODULE_def\<close>)
qed

section \<open>Reading a request back\<close>

lemma find_sub_notin: "c \<in> set p \<Longrightarrow> c \<notin> set t \<Longrightarrow> find_sub p t = None"
proof (induction t)
  case Nil
  then show ?case by (cases p) auto
next
  case (Cons x t)
  then have "\<not> prefix p (x # t)" using set_mono_prefix by fastforce
  then show ?case using Cons by simp
qed

lemma find_sub_miss:
  assumes "\<And>i. \<not> prefix p (drop i t)"
  shows "find_sub p t = None"
  using find_sub_Some [of p t] assms by (cases "find_sub p t") blast+

text \<open>A name with its \<open>=\<close> is found in \<open>name=value\<close> only as the end of the name.\<close>

lemma find_name_other:
  assumes "CHR ''='' \<notin> set k" "CHR ''='' \<notin> set u" "CHR ''='' \<notin> set v" "\<not> suffix k u"
  shows "find_sub (k @ ''='') (u @ ''='' @ v) = None"
proof (rule find_sub_miss, rule notI)
  fix i
  assume p: "prefix (k @ ''='') (drop i (u @ ''='' @ v))"
  show False
  proof (cases "i \<le> length u")
    case True
    then have d: "drop i (u @ ''='' @ v) = drop i u @ CHR ''='' # v" by simp
    obtain r where r: "k @ CHR ''='' # r = drop i u @ CHR ''='' # v"
      using p unfolding d by (auto elim: prefixE)
    have "CHR ''='' \<notin> set (drop i u)" using assms(2) by (meson in_set_dropD)
    then have "takeWhile (\<lambda>c. c \<noteq> CHR ''='') (drop i u @ CHR ''='' # v) = drop i u"
      by (subst takeWhile_append2) auto
    moreover have "takeWhile (\<lambda>c. c \<noteq> CHR ''='') (k @ CHR ''='' # r) = k"
      using assms(1) by (subst takeWhile_append2) auto
    ultimately have "k = drop i u" using r by simp
    then show False using assms(4) suffix_drop by blast
  next
    case False
    then have "CHR ''='' \<notin> set (drop i (u @ ''='' @ v))"
      using assms(3) by (auto simp: drop_Cons' dest: in_set_dropD)
    then show False using p set_mono_prefix by fastforce
  qed
qed

lemma find_name_same: "CHR ''='' \<notin> set k \<Longrightarrow> find_sub (k @ ''='') (k @ ''='' @ v) = Some 0"
  using find_sub_prefix [of "k @ ''=''" v] by simp

definition query_keys :: "string list" where
  "query_keys = [''token'', ''start'', ''id'', ''module'', ''date'', ''hash'', ''alias'', ''login'', ''password'']"

definition plain_text :: "string \<Rightarrow> bool" where
  "plain_text v \<longleftrightarrow> set v \<inter> set (''=/ ?&'' @ [NUL] @ cr_lf) = {}"

text \<open>What a parameter means: no search for names, each is compared.\<close>

definition set_param :: "string \<Rightarrow> string \<Rightarrow> mdata \<Rightarrow> mdata" where
  "set_param k v d =
     (if k = ''token'' then d\<lparr>m_token := (if length v < TOKEN_SIZE then None else Some v)\<rparr>
      else if k = ''id'' then d\<lparr>m_id := c_atoi v, is_aac := True\<rparr>
      else if k = ''module'' then d\<lparr>m_module := Some v\<rparr>
      else if k = ''date'' then d\<lparr>m_date := Some (replace_slash v), is_mp3 := True\<rparr>
      else if k = ''hash'' then d\<lparr>m_hash := Some v\<rparr>
      else if k = ''alias'' then d\<lparr>m_alias := Some v\<rparr>
      else if k = ''login'' then d\<lparr>m_username := Some v\<rparr>
      else if k = ''password'' then d\<lparr>m_userpass := Some v\<rparr>
      else d)"

lemma behind_name:
  assumes "k \<in> set (''bytes'' # query_keys)" "k' \<in> set query_keys" "CHR ''='' \<notin> set v"
  shows "find_sub (k @ ''='') (k' @ ''='' @ v) = (if k = k' then Some 0 else None)"
proof -
  have "CHR ''='' \<notin> set k" "CHR ''='' \<notin> set k'" "k \<noteq> k' \<Longrightarrow> \<not> suffix k k'"
    using assms(1,2) by (auto simp: query_keys_def suffix_def append_eq_Cons_conv)
  then show ?thesis using find_name_other [of k k' v] find_name_same [of k v] assms(3) by auto
qed

lemma handle_param:
  assumes "k \<in> set query_keys" "plain_text v"
  shows "handle_token (k @ ''='' @ v) mem d = Some (set_param k v d)"
proof -
  have v: "CHR ''='' \<notin> set v" "CHR ''/'' \<notin> set v" using assms(2) by (auto simp: plain_text_def)
  have f: "find_sub (x @ ''='') (k @ ''='' @ v) = (if x = k then Some 0 else None)"
    if "x \<in> set (''bytes'' # query_keys)" for x using behind_name [OF that assms(1) v(1)] .
  have fs: "find_sub ''token='' (k @ ''='' @ v) = (if ''token'' = k then Some 0 else None)"
    "find_sub ''start='' (k @ ''='' @ v) = (if ''start'' = k then Some 0 else None)"
    "find_sub ''id='' (k @ ''='' @ v) = (if ''id'' = k then Some 0 else None)"
    "find_sub ''module='' (k @ ''='' @ v) = (if ''module'' = k then Some 0 else None)"
    "find_sub ''date='' (k @ ''='' @ v) = (if ''date'' = k then Some 0 else None)"
    "find_sub ''hash='' (k @ ''='' @ v) = (if ''hash'' = k then Some 0 else None)"
    "find_sub ''bytes='' (k @ ''='' @ v) = (if ''bytes'' = k then Some 0 else None)"
    "find_sub ''alias='' (k @ ''='' @ v) = (if ''alias'' = k then Some 0 else None)"
    "find_sub ''login='' (k @ ''='' @ v) = (if ''login'' = k then Some 0 else None)"
    "find_sub ''password='' (k @ ''='' @ v) = (if ''password'' = k then Some 0 else None)"
    using f [of "''token''"] f [of "''start''"] f [of "''id''"] f [of "''module''"] f [of "''date''"]
      f [of "''hash''"] f [of "''bytes''"] f [of "''alias''"] f [of "''login''"] f [of "''password''"]
    by (simp_all add: query_keys_def)
  have h: "find_sub ''HTTP/'' (k @ ''='' @ v) = None"
    using assms(1) v(2) by (intro find_sub_notin [of "CHR ''/''"]) (auto simp: query_keys_def)
  have "k = ''token'' \<or> k = ''start'' \<or> k = ''id'' \<or> k = ''module'' \<or> k = ''date'' \<or> k = ''hash'' \<or>
      k = ''alias'' \<or> k = ''login'' \<or> k = ''password''"
    using assms(1) by (simp add: query_keys_def)
  then show ?thesis
    unfolding handle_token_def behind_def fs h
    by (elim disjE) (simp_all add: set_param_def)
qed

lemma handle_version: "plain_text v \<Longrightarrow> handle_token (''HTTP/'' @ v) mem d = Some (d\<lparr>m_http := Some v\<rparr>)"
  and handle_other: "plain_text v \<Longrightarrow> handle_token v mem d = Some d"
  and handle_slash: "handle_token ''/'' mem d = Some d"
proof -
  have none: "find_sub (k @ ''='') t = None" if "CHR ''='' \<notin> set t" for k t
    using that by (intro find_sub_notin [of "CHR ''=''"]) auto
  note fs = none [of _ "''token''", simplified] none [of _ "''start''", simplified]
    none [of _ "''id''", simplified] none [of _ "''module''", simplified]
    none [of _ "''date''", simplified] none [of _ "''hash''", simplified] none [of _ "''bytes''", simplified]
    none [of _ "''alias''", simplified] none [of _ "''login''", simplified]
    none [of _ "''password''", simplified]
  show "handle_token (''HTTP/'' @ v) mem d = Some (d\<lparr>m_http := Some v\<rparr>)" if "plain_text v"
  proof -
    have "CHR ''='' \<notin> set (''HTTP/'' @ v)" using that by (simp add: plain_text_def)
    note gs = this [THEN fs(1)] this [THEN fs(2)] this [THEN fs(3)] this [THEN fs(4)] this [THEN fs(5)]
      this [THEN fs(6)] this [THEN fs(7)] this [THEN fs(8)] this [THEN fs(9)] this [THEN fs(10)]
    show ?thesis unfolding handle_token_def behind_def gs find_sub_prefix by simp
  qed
  show "handle_token v mem d = Some d" if "plain_text v"
  proof -
    have "CHR ''='' \<notin> set v" using that by (simp add: plain_text_def)
    note gs = this [THEN fs(1)] this [THEN fs(2)] this [THEN fs(3)] this [THEN fs(4)] this [THEN fs(5)]
      this [THEN fs(6)] this [THEN fs(7)] this [THEN fs(8)] this [THEN fs(9)] this [THEN fs(10)]
    have h: "find_sub ''HTTP/'' v = None"
      using that by (intro find_sub_notin [of "CHR ''/''"]) (auto simp: plain_text_def)
    show ?thesis unfolding handle_token_def behind_def gs h by simp
  qed
  show "handle_token ''/'' mem d = Some d"
    by (simp add: handle_token_def behind_def)
qed

section \<open>Cutting a line\<close>

definition word :: "string \<Rightarrow> string \<Rightarrow> bool" where
  "word ds w \<longleftrightarrow> w \<noteq> [] \<and> set w \<inter> set (NUL # ds) = {}"

lemma strtok_word:
  assumes "word ds w" "c \<in> set (NUL # ds)"
  shows "strtok ds (u @ w @ c # v) (length u) =
     Some (length u, length w, (u @ w) @ NUL # v, length u + length w + (if c = NUL then 0 else 1))"
proof -
  obtain x xs where w: "w = x # xs" using assms(1) by (cases w) (auto simp: word_def)
  have "takeWhile (\<lambda>c. c \<in> set ds) (w @ c # v) = []" using assms(1) w by (auto simp: word_def)
  moreover have "takeWhile (\<lambda>c. c \<notin> set ds \<and> c \<noteq> NUL) (w @ c # v) = w"
    using assms by (subst takeWhile_append2) (auto simp: word_def)
  moreover have "w \<noteq> []" "drop (length u) (u @ w @ c # v) = w @ c # v"
    "(u @ w @ c # v) ! (length u + length w) = c"
    "(u @ w @ c # v)[length u + length w := NUL] = (u @ w) @ NUL # v"
    using w by (simp_all add: nth_append list_update_append)
  ultimately show ?thesis unfolding strtok_def Let_def by (cases "c = NUL") simp_all
qed

lemma strtok_end: "NUL \<notin> set ds \<Longrightarrow> strtok ds (u @ NUL # v) (length u) = None"
  by (simp add: strtok_def Let_def)

lemma get_file_data_word:
  assumes "word '' ?&'' w" "c \<in> set '' ?&''" "handle_token w (w @ NUL # v) d = Some d'"
  shows "get_file_data (u @ w @ c # v) (length u) d =
     get_file_data ((u @ w @ [NUL]) @ v) (length (u @ w @ [NUL])) d'"
proof -
  have "c \<noteq> NUL" "c \<in> set (NUL # '' ?&'')" using assms(2) by (auto simp: NUL_def)
  then show ?thesis
    using strtok_word [OF assms(1), of c u v] assms(3)
    by (subst get_file_data.simps) (simp)
qed

lemma get_file_data_last:
  assumes "word '' ?&'' w" "handle_token w (w @ NUL # v) d = Some d'"
  shows "get_file_data (u @ w @ NUL # v) (length u) d = Some (u @ w @ NUL # v, d')"
proof -
  have "strtok '' ?&'' (u @ w @ NUL # v) (length u + length w) = None"
    using strtok_end [of "'' ?&''" "u @ w" v] by (simp add: NUL_def)
  then have "get_file_data (u @ w @ NUL # v) (length u + length w) d' = Some (u @ w @ NUL # v, d')"
    by (simp add: get_file_data.simps)
  then show ?thesis
    using strtok_word [OF assms(1), of NUL u v] assms(2)
    by (subst get_file_data.simps) simp
qed

lemma word_param:
  assumes "k \<in> set query_keys" "plain_text v"
  shows "word '' ?&'' (k @ ''='' @ v)"
  using assms by (auto simp: query_keys_def word_def plain_text_def NUL_def)

fun params :: "(string \<times> string) list \<Rightarrow> string" where
  "params [] = []"
| "params [(k, v)] = k @ ''='' @ v"
| "params ((k, v) # kvs) = k @ ''='' @ v @ ''&'' @ params kvs"

definition set_params :: "(string \<times> string) list \<Rightarrow> mdata \<Rightarrow> mdata" where
  "set_params kvs d = fold (\<lambda>(k, v). set_param k v) kvs d"

definition params_ok :: "(string \<times> string) list \<Rightarrow> bool" where
  "params_ok kvs \<longleftrightarrow> kvs \<noteq> [] \<and> list_all (\<lambda>(k, v). k \<in> set query_keys \<and> plain_text v) kvs"

lemma get_file_data_params:
  "params_ok kvs \<Longrightarrow>
     \<exists>u'. length u' = length u + length (params kvs) + 1 \<and>
       get_file_data (u @ params kvs @ CHR '' '' # rest) (length u) d =
       get_file_data (u' @ rest) (length u') (set_params kvs d)"
proof (induction kvs arbitrary: u d rule: params.induct)
  case 1
  then show ?case by (simp add: params_ok_def)
next
  case (2 k v)
  have k: "k \<in> set query_keys" "plain_text v" using 2 by (auto simp: params_ok_def)
  show ?case
    using get_file_data_word [OF word_param [OF k] _ handle_param [OF k], of "CHR '' ''" u rest d]
    by (intro exI [of _ "u @ (k @ ''='' @ v) @ [NUL]"]) (simp add: set_params_def)
next
  case (3 k v kv kvs)
  have k: "k \<in> set query_keys" "plain_text v" "params_ok (kv # kvs)" using 3 by (auto simp: params_ok_def)
  define u1 where "u1 = u @ (k @ ''='' @ v) @ [NUL]"
  have step: "get_file_data (u @ params ((k, v) # kv # kvs) @ CHR '' '' # rest) (length u) d =
      get_file_data (u1 @ params (kv # kvs) @ CHR '' '' # rest) (length u1) (set_param k v d)"
    using get_file_data_word [OF word_param [OF k(1,2)] _ handle_param [OF k(1,2)],
        of "CHR ''&''" u "params (kv # kvs) @ CHR '' '' # rest" d]
    by (simp add: u1_def)
  obtain u' where u': "length u' = length u1 + length (params (kv # kvs)) + 1"
    "get_file_data (u1 @ params (kv # kvs) @ CHR '' '' # rest) (length u1) (set_param k v d) =
     get_file_data (u' @ rest) (length u') (set_params (kv # kvs) (set_param k v d))"
    using "3.IH" [OF k(3), of u1 "set_param k v d"] by blast
  show ?case
    using u' step by (intro exI [of _ u']) (simp add: u1_def set_params_def)
qed

definition get_line :: "(string \<times> string) list \<Rightarrow> string \<Rightarrow> string" where
  "get_line kvs ver = ''GET /?'' @ params kvs @ '' HTTP/'' @ ver"

lemma get_file_data_get:
  assumes "params_ok kvs" "plain_text ver"
  shows "\<exists>u'. length u' = length (u @ get_line kvs ver) \<and>
    get_file_data (u @ get_line kvs ver @ NUL # v) (length u) d =
      Some (u' @ NUL # v, (set_params kvs d)\<lparr>m_http := Some ver\<rparr>)"
proof -
  define u1 where "u1 = u @ ''GET'' @ [NUL]"
  define u2 where "u2 = u1 @ ''/'' @ [NUL]"
  define tail where "tail = ''HTTP/'' @ ver @ NUL # v"
  have g: "handle_token ''GET'' (''GET'' @ NUL # t) d = Some d" for t d
    by (intro handle_other) (simp add: plain_text_def NUL_def cr_lf_def)
  have "get_file_data (u @ get_line kvs ver @ NUL # v) (length u) d =
      get_file_data (u1 @ ''/'' @ CHR ''?'' # params kvs @ CHR '' '' # tail) (length u1) d"
    using get_file_data_word [of "''GET''" "CHR '' ''" _ d d u, OF _ _ g]
    by (simp add: word_def NUL_def get_line_def u1_def tail_def)
  also have "\<dots> = get_file_data (u2 @ params kvs @ CHR '' '' # tail) (length u2) d"
    using get_file_data_word [of "''/''" "CHR ''?''" _ d d u1, OF _ _ handle_slash]
    by (simp add: word_def NUL_def u2_def)
  finally have 1: "get_file_data (u @ get_line kvs ver @ NUL # v) (length u) d =
      get_file_data (u2 @ params kvs @ CHR '' '' # tail) (length u2) d" .
  obtain u3 where u3: "length u3 = length u2 + length (params kvs) + 1"
    "get_file_data (u2 @ params kvs @ CHR '' '' # tail) (length u2) d =
     get_file_data (u3 @ tail) (length u3) (set_params kvs d)"
    using get_file_data_params [OF assms(1), of u2 tail d] by blast
  have "word '' ?&'' (''HTTP/'' @ ver)" using assms(2) by (auto simp: word_def plain_text_def NUL_def)
  then have "get_file_data (u3 @ (''HTTP/'' @ ver) @ NUL # v) (length u3) (set_params kvs d) =
      Some (u3 @ (''HTTP/'' @ ver) @ NUL # v, (set_params kvs d)\<lparr>m_http := Some ver\<rparr>)"
    by (rule get_file_data_last) (rule handle_version [OF assms(2)])
  then show ?thesis using 1 u3
    by (intro exI [of _ "u3 @ ''HTTP/'' @ ver"]) (simp add: tail_def u1_def u2_def get_line_def)
qed

section \<open>The range\<close>

lemma c_strtol_show_nat:
  assumes "t = [] \<or> \<not> c_isdigit (hd t)" "int n < 2 ^ 63"
  shows "c_strtol (show_nat n @ t) = int n"
proof -
  obtain c cs where s: "show_nat n = c # cs" by (metis list.exhaust show_nat_nonempty)
  then have "c_isdigit c" using show_nat_digits [of n] by simp
  then have "\<not> c_isspace c" "c \<noteq> CHR ''-''" "c \<noteq> CHR ''+''" by (auto simp: not_space_digit c_isdigit_def)
  moreover have "digits_val 0 (show_nat n @ t) = int n"
    using assms(1) by (simp add: digits_val_append show_nat_digits digits_val_show_nat digits_val_stop)
  ultimately show ?thesis using assms(2) s by (simp add: c_strtol_def)
qed

lemma strtol_end_show:
  assumes "t = [] \<or> \<not> c_isdigit (hd t)"
  shows "strtol_end (show_int i @ t) = length (show_int i)"
proof -
  have digits: "takeWhile c_isdigit (show_nat n @ t) = show_nat n" for n
    using assms show_nat_digits [of n] by (cases t) (auto simp: takeWhile_append)
  show ?thesis
  proof (cases "i < 0")
    case True
    have "\<not> c_isspace CHR ''-''" by (simp add: c_isspace_def)
    then show ?thesis using digits [of "nat (- i)"] True
      by (simp add: strtol_end_def show_int_def Let_def)
  next
    case False
    obtain c cs where s: "show_nat (nat i) = c # cs" by (metis list.exhaust show_nat_nonempty)
    then have "c_isdigit c" using show_nat_digits [of "nat i"] by simp
    then have "\<not> c_isspace c" "c \<noteq> CHR ''-''" "c \<noteq> CHR ''+''" by (auto simp: not_space_digit c_isdigit_def)
    then show ?thesis using digits [of "nat i"] False s
      by (simp add: strtol_end_def show_int_def Let_def)
  qed
qed

lemma byte_range_show:
  assumes "int_range b" "0 \<le> e" "int_range e"
  defines "t \<equiv> ''bytes='' @ show_int b @ ''-'' @ show_int e"
  shows "byte_range t (t @ NUL # v) = Some (b, e)"
proof -
  let ?s = "show_int b @ ''-'' @ show_int e"
  have f: "find_sub ''bytes='' t = Some 0" unfolding t_def by (rule find_sub_prefix)
  have d: "drop (0 + 6) t = ?s" by (simp add: t_def)
  have minus: "\<not> c_isdigit CHR ''-''" by (simp add: c_isdigit_def)
  have k: "strtol_end ?s = length (show_int b)" using strtol_end_show [of "''-'' @ show_int e" b] minus by simp
  have first: "c_int (c_strtol ?s) = b"
    using c_atoi_show_int [OF assms(1), of "''-'' @ show_int e"] minus by (simp add: c_atoi_def)
  have nn: "show_int e = show_nat (nat e)" using assms(2) by (simp add: show_int_def)
  have "NUL \<notin> set (show_nat (nat e))"
    using show_nat_digits [of "nat e"] by (auto simp: NUL_def c_isdigit_def code_def)
  then have tw: "takeWhile (\<lambda>c. c \<noteq> NUL) (show_nat (nat e) @ NUL # v) = show_nat (nat e)"
    by (subst takeWhile_append2) auto
  have "c_strtol (show_nat (nat e)) = e"
    using c_strtol_show_nat [of "[]" "nat e"] assms(2,3) by (simp add: int_range_def)
  then have second: "c_int \<bar>c_strtol (show_nat (nat e))\<bar> = e"
    using assms(2,3) by (simp add: c_int_id)
  have m: "drop (0 + 6 + length (show_int b) + 1) (t @ NUL # v) = show_nat (nat e) @ NUL # v"
    "0 + 6 + length (show_int b) + 1 < length (t @ NUL # v)"
  proof -
    have "drop (length (''bytes='' @ show_int b @ ''-'')) ((''bytes='' @ show_int b @ ''-'') @ show_nat (nat e) @ NUL # v)
        = show_nat (nat e) @ NUL # v"
      by (rule append_eq_conv_conj [THEN iffD1, OF refl, THEN conjunct2, symmetric])
    moreover have "length (''bytes='' @ show_int b @ ''-'') = 0 + 6 + length (show_int b) + 1" by simp
    moreover have "(''bytes='' @ show_int b @ ''-'') @ show_nat (nat e) @ NUL # v = t @ NUL # v"
      by (simp add: t_def nn)
    ultimately show "drop (0 + 6 + length (show_int b) + 1) (t @ NUL # v) = show_nat (nat e) @ NUL # v"
      by (simp only:)
  qed (simp add: t_def nn)
  show ?thesis
    unfolding byte_range_def f option.case Let_def d k first m(1) tw second using m(2) by simp
qed

lemma handle_range:
  assumes "int_range b" "0 \<le> e" "int_range e"
  defines "t \<equiv> ''bytes='' @ show_int b @ ''-'' @ show_int e"
  shows "handle_token t (t @ NUL # v) d = Some (d\<lparr>mRange := smap_put b e (mRange d)\<rparr>)"
proof -
  have eq: "CHR ''='' \<notin> set (show_int b @ ''-'' @ show_int e)"
    using show_nat_digits [of "nat b"] show_nat_digits [of "nat (- b)"] show_nat_digits [of "nat e"] assms(2)
    by (auto simp: show_int_def c_isdigit_def code_def)
  have n: "find_sub (k @ ''='') t = None" if "CHR ''='' \<notin> set k" "\<not> suffix k ''bytes''" for k
    using find_name_other [OF that(1) _ eq that(2)] by (simp add: t_def)
  have fs: "find_sub ''token='' t = None" "find_sub ''start='' t = None" "find_sub ''id='' t = None"
    "find_sub ''module='' t = None" "find_sub ''date='' t = None" "find_sub ''hash='' t = None"
    using n [of "''token''"] n [of "''start''"] n [of "''id''"] n [of "''module''"] n [of "''date''"]
      n [of "''hash''"]
    by (simp_all add: suffix_def append_eq_Cons_conv Cons_eq_append_conv)
  have f: "find_sub ''bytes='' t = Some 0" unfolding t_def by (rule find_sub_prefix)
  show ?thesis
    unfolding handle_token_def behind_def fs f
    using byte_range_show [OF assms(1-3), of v] by (simp add: t_def)
qed

definition range_line :: "int \<Rightarrow> int \<Rightarrow> string" where
  "range_line b e = ''Range: bytes='' @ show_int b @ ''-'' @ show_int e"

lemma get_file_data_range:
  assumes "int_range b" "0 \<le> e" "int_range e"
  shows "\<exists>u'. length u' = length (u @ range_line b e) \<and>
    get_file_data (u @ range_line b e @ NUL # v) (length u) d =
      Some (u' @ NUL # v, d\<lparr>mRange := smap_put b e (mRange d)\<rparr>)"
proof -
  define u1 where "u1 = u @ ''Range:'' @ [NUL]"
  define t where "t = ''bytes='' @ show_int b @ ''-'' @ show_int e"
  have g: "handle_token ''Range:'' (''Range:'' @ NUL # s) d = Some d" for s d
    by (intro handle_other) (simp add: plain_text_def NUL_def cr_lf_def)
  have 1: "get_file_data (u @ range_line b e @ NUL # v) (length u) d =
      get_file_data (u1 @ t @ NUL # v) (length u1) d"
    using get_file_data_word [of "''Range:''" "CHR '' ''" _ d d u, OF _ _ g]
    by (simp add: word_def NUL_def range_line_def u1_def t_def)
  have "set (show_nat n) \<inter> set (NUL # '' ?&'') = {}" for n
    using show_nat_digits [of n] by (auto simp: NUL_def c_isdigit_def code_def)
  then have "word '' ?&'' t" by (auto simp: word_def t_def show_int_def NUL_def)
  then have "get_file_data (u1 @ t @ NUL # v) (length u1) d =
      Some (u1 @ t @ NUL # v, d\<lparr>mRange := smap_put b e (mRange d)\<rparr>)"
    by (rule get_file_data_last) (unfold t_def, rule handle_range [OF assms])
  then show ?thesis using 1
    by (intro exI [of _ "u1 @ t"]) (simp add: t_def u1_def range_line_def)
qed

section \<open>The lines of a request\<close>

lemma sparse_loop_line:
  assumes "word cr_lf line"
    and "\<exists>u'. length u' = length (u @ line) \<and>
      handle_line (u @ line @ NUL # v) (length u) line d = Some (u' @ NUL # v, d')"
    and "v = CHR 0x0A # rest"
  shows "\<exists>u'. sparse_loop (u @ line @ cr_lf @ rest) (length u) d = sparse_loop (u' @ rest) (length u') d'"
proof -
  obtain u' where u': "length u' = length (u @ line)"
    "handle_line (u @ line @ NUL # v) (length u) line d = Some (u' @ NUL # v, d')"
    using assms(2) by blast
  have "strtok cr_lf (u @ line @ CHR 0x0D # v) (length u) =
      Some (length u, length line, (u @ line) @ NUL # v, length u + length line + 1)"
    using strtok_word [OF assms(1), of "CHR 0x0D" u v] by (simp add: cr_lf_def NUL_def)
  then have "sparse_loop (u @ line @ CHR 0x0D # v) (length u) d =
      sparse_loop (u' @ NUL # v) (length u + length line + 2) d'"
    using u'(2) assms(1) by (subst sparse_loop.simps) (simp add: word_def)
  then have "sparse_loop (u @ line @ cr_lf @ rest) (length u) d =
      sparse_loop ((u' @ [NUL, CHR 0x0A]) @ rest) (length (u' @ [NUL, CHR 0x0A])) d'"
    using u'(1) assms(3) by (simp add: cr_lf_def)
  then show ?thesis by blast
qed

lemma sparse_loop_end: "sparse_loop (u @ cr_lf @ [NUL]) (length u) d = Some d"
proof -
  have "strtok cr_lf (u @ cr_lf @ [NUL]) (length u) = None"
    by (simp add: strtok_def Let_def cr_lf_def NUL_def)
  then show ?thesis by (subst sparse_loop.simps) simp
qed

lemma plain_key: "k \<in> set query_keys \<Longrightarrow> plain_text k"
  by (auto simp: query_keys_def plain_text_def NUL_def cr_lf_def)

lemma plain_params: "params_ok kvs \<Longrightarrow> set (params kvs) \<inter> set (NUL # cr_lf) = {}"
proof (induction kvs rule: params.induct)
  case 1
  then show ?case by (simp add: params_ok_def)
next
  case (2 k v)
  then have "plain_text k" "plain_text v" by (auto simp: params_ok_def plain_key)
  then show ?case by (auto simp: plain_text_def NUL_def cr_lf_def)
next
  case (3 k v kv kvs)
  then have "set (params (kv # kvs)) \<inter> set (NUL # cr_lf) = {}" by (simp add: params_ok_def)
  moreover have "plain_text k" "plain_text v" using "3.prems" by (auto simp: params_ok_def plain_key)
  then have "set (k @ ''='' @ v @ ''&'') \<inter> set (NUL # cr_lf) = {}"
    by (auto simp: plain_text_def NUL_def cr_lf_def)
  ultimately show ?case by auto
qed

lemma word_get_line: "params_ok kvs \<Longrightarrow> plain_text ver \<Longrightarrow> word cr_lf (get_line kvs ver)"
  using plain_params [of kvs]
  by (auto simp: word_def get_line_def plain_text_def NUL_def cr_lf_def)

lemma word_range_line: "word cr_lf (range_line b e)"
proof -
  have "set (show_nat n) \<inter> set (NUL # cr_lf) = {}" for n
    using show_nat_digits [of n] by (auto simp: NUL_def cr_lf_def c_isdigit_def code_def)
  then show ?thesis by (auto simp: word_def range_line_def show_int_def NUL_def cr_lf_def)
qed

lemma handle_get_line:
  assumes "params_ok kvs" "plain_text ver"
  shows "\<exists>u'. length u' = length (u @ get_line kvs ver) \<and>
    handle_line (u @ get_line kvs ver @ NUL # v) (length u) (get_line kvs ver) d =
      Some (u' @ NUL # v, (set_params kvs (d\<lparr>m_request := Some (get_line kvs ver)\<rparr>))\<lparr>m_http := Some ver\<rparr>)"
proof -
  have "find_sub ''GET /'' (get_line kvs ver) = Some 0"
    using find_sub_prefix [of "''GET /''" "''?'' @ params kvs @ '' HTTP/'' @ ver"]
    by (simp only: get_line_def append.simps)
  then show ?thesis using get_file_data_get [OF assms, of u v] by (simp add: handle_line_def)
qed

lemma handle_range_line:
  assumes "int_range b" "0 \<le> e" "int_range e"
  shows "\<exists>u'. length u' = length (u @ range_line b e) \<and>
    handle_line (u @ range_line b e @ NUL # v) (length u) (range_line b e) d =
      Some (u' @ NUL # v, d\<lparr>mRange := smap_put b e (mRange d)\<rparr>)"
proof -
  have "set (show_nat n) \<inter> {CHR ''G''} = {}" for n
    using show_nat_digits [of n] by (auto simp: c_isdigit_def code_def)
  then have "CHR ''G'' \<notin> set (range_line b e)" by (auto simp: range_line_def show_int_def)
  then have g: "find_sub ''GET /'' (range_line b e) = None"
    by (intro find_sub_notin [of "CHR ''G''"]) auto
  have r: "find_sub ''Range:'' (range_line b e) = Some 0"
    using find_sub_prefix [of "''Range:''" "'' bytes='' @ show_int b @ ''-'' @ show_int e"]
    by (simp only: range_line_def append.simps)
  show ?thesis using get_file_data_range [OF assms, of u v] g r by (simp add: handle_line_def)
qed

text \<open>A request as a player writes it, with or without a range.\<close>

definition request_text :: "(string \<times> string) list \<Rightarrow> string \<Rightarrow> (int \<times> int) option \<Rightarrow> string" where
  "request_text kvs ver r =
     get_line kvs ver @ cr_lf @
     (case r of None \<Rightarrow> [] | Some (b, e) \<Rightarrow> range_line b e @ cr_lf) @ cr_lf"

definition requested :: "(string \<times> string) list \<Rightarrow> string \<Rightarrow> (int \<times> int) option \<Rightarrow> mdata" where
  "requested kvs ver r =
     (let d = (set_params kvs (no_data\<lparr>m_request := Some (get_line kvs ver)\<rparr>))\<lparr>m_http := Some ver\<rparr>
      in case r of None \<Rightarrow> d | Some (b, e) \<Rightarrow> d\<lparr>mRange := [(b, e)]\<rparr>)"

lemma set_params_range: "mRange (set_params kvs d) = mRange d"
proof (induction kvs arbitrary: d)
  case (Cons kv kvs)
  obtain k v where "kv = (k, v)" by force
  moreover have "mRange (set_param k v d) = mRange d" by (simp add: set_param_def)
  ultimately show ?case using Cons by (simp add: set_params_def)
qed (simp add: set_params_def)

lemma sparse_loop_request:
  assumes "params_ok kvs" "plain_text ver"
    and "\<And>b e. r = Some (b, e) \<Longrightarrow> int_range b \<and> 0 \<le> e \<and> int_range e"
  shows "sparse_loop (request_text kvs ver r @ [NUL]) 0 no_data = Some (requested kvs ver r)"
proof -
  define d where "d = (set_params kvs (no_data\<lparr>m_request := Some (get_line kvs ver)\<rparr>))\<lparr>m_http := Some ver\<rparr>"
  define rest where "rest = (case r of None \<Rightarrow> [] | Some (b, e) \<Rightarrow> range_line b e @ cr_lf) @ cr_lf @ [NUL]"
  obtain u' where u': "sparse_loop (get_line kvs ver @ cr_lf @ rest) 0 no_data =
      sparse_loop (u' @ rest) (length u') d"
    using sparse_loop_line [OF word_get_line [OF assms(1,2)] handle_get_line [OF assms(1,2), of _ _ no_data] refl, of "[]" rest]
    by (auto simp: d_def)
  have "sparse_loop (u' @ rest) (length u') d = Some (requested kvs ver r)"
  proof (cases r)
    case None
    then show ?thesis using sparse_loop_end by (simp add: rest_def requested_def d_def)
  next
    case (Some p)
    obtain b e where r: "r = Some (b, e)" using Some by (cases p) auto
    obtain u2 where u2: "sparse_loop (u' @ range_line b e @ cr_lf @ cr_lf @ [NUL]) (length u') d =
        sparse_loop (u2 @ cr_lf @ [NUL]) (length u2) (d\<lparr>mRange := smap_put b e (mRange d)\<rparr>)"
      using sparse_loop_line [OF word_range_line handle_range_line refl, of b e u' "cr_lf @ [NUL]"]
        assms(3) [OF r] by blast
    have "mRange d = []" by (simp add: d_def set_params_range no_data_def)
    then show ?thesis using u2 r sparse_loop_end by (simp add: rest_def requested_def d_def)
  qed
  then show ?thesis using u' by (simp add: request_text_def rest_def)
qed

section \<open>Properties\<close>

text \<open>
  C11. The parameters of every request that is read are well formed, whatever the listener sends;
  and when the status is 0 all that the name of the file is made of is there.
\<close>

theorem request_well_formed:
  assumes "sparse al recv_str = Some (st, path, d)"
  shows "mdata_ok d \<and> m_http d \<noteq> None \<and> (st = 0 \<longleftrightarrow> path \<noteq> []) \<and>
     (st = 0 \<longrightarrow> path = media_file al d \<and>
        (if is_aac d then m_module d \<noteq> None \<and> m_id d \<noteq> 0 \<and> mRange d \<noteq> []
         else m_date d \<noteq> None \<and> m_hash d \<noteq> None))"
proof -
  obtain d0 where d0: "sparse_loop (recv_str @ [NUL]) 0 no_data = Some d0"
    "sparse_file al d0 = (st, path, d)"
    using assms by (auto simp: sparse_def)
  show ?thesis using sparse_file_ok [OF sparse_loop_ok [OF d0(1) no_data_ok] d0(2)] .
qed

lemma request_well_formed_witness:
  "\<exists>st path d. sparse [] (''GET /?id=5 HTTP/1.1'' @ cr_lf @ cr_lf) = Some (st, path, d) \<and> mdata_ok d"
proof -
  have "sparse [] (''GET /?id=5 HTTP/1.1'' @ cr_lf @ cr_lf) \<noteq> None" by code_simp
  then obtain st path d where s: "sparse [] (''GET /?id=5 HTTP/1.1'' @ cr_lf @ cr_lf) = Some (st, path, d)"
    by auto
  show ?thesis using request_well_formed [OF s] s by blast
qed

text \<open>
  C10. The server reads a request back: whatever parameters it has, in whatever order, every value
  is taken as it was written, by the name it stands behind, with the range.
\<close>

theorem request_read_back:
  assumes "params_ok kvs" "plain_text ver"
    and "\<And>b e. r = Some (b, e) \<Longrightarrow> int_range b \<and> 0 \<le> e \<and> int_range e"
  shows "sparse al (request_text kvs ver r) = Some (sparse_file al (requested kvs ver r))"
  using sparse_loop_request [OF assms] by (simp add: sparse_def)

lemma request_read_back_witness:
  "map_option (\<lambda>(st, path, d). (st, path, mRange d))
     (sparse [(''a'', ''/ssd/'')] (request_text [(''module'', ''mdb''), (''id'', ''7''), (''alias'', ''a'')] ''1.1''
       (Some (5, 9)))) = Some (0, ''/ssd/mdb/0/7.aac'', [(5, 9)])"
proof -
  let ?kvs = "[(''module'', ''mdb''), (''id'', ''7''), (''alias'', ''a'')]"
  have ok: "params_ok ?kvs" "plain_text ''1.1''"
    by (simp_all add: params_ok_def query_keys_def plain_text_def NUL_def cr_lf_def)
  have "(\<lambda>(st, path, d). (st, path, mRange d)) (sparse_file [(''a'', ''/ssd/'')] (requested ?kvs ''1.1'' (Some (5, 9)))) =
      (0, ''/ssd/mdb/0/7.aac'', [(5, 9)])"
    by code_simp
  then show ?thesis using request_read_back [OF ok, of "Some (5, 9)" "[(''a'', ''/ssd/'')]"]
    by (auto simp: int_range_def)
qed

end
