(* ===== verification/Music_Whole.thy ===== *)
theory Music_Whole
  imports Music_Server Music_Parse
begin

text \<open>
  The music server from a listener's request to the bytes he gets: the parser of \<open>Music_Parse\<close>, the
  answer of \<open>Music_Server\<close> and the process that serves him, composed.
\<close>

lemma request_text_plain:
  assumes "params_ok kvs" "plain_text ver"
  shows "NUL \<notin> set (request_text kvs ver r)" and "10 < length (request_text kvs ver r)"
proof -
  have "NUL \<notin> set (get_line kvs ver)" "NUL \<notin> set (range_line b e)" for b e
    using word_get_line [OF assms] word_range_line [of b e] by (auto simp: word_def)
  then show "NUL \<notin> set (request_text kvs ver r)"
    by (auto simp: request_text_def cr_lf_def NUL_def split: option.splits)
  show "10 < length (request_text kvs ver r)"
    by (simp add: request_text_def get_line_def cr_lf_def)
qed

lemma transfer_response:
  "transfer noted header bs stop cs wire = Some (Done (a, w, cs')) \<Longrightarrow> response a = response noted"
  by (auto simp: transfer_def split: option.splits if_splits)

text \<open>The pieces a request arrives in.\<close>

lemma recv_loop_pieces:
  "\<forall>p \<in> set ps. p \<noteq> [] \<Longrightarrow> recv_loop (map Got ps @ RecvAgain # rs) str = Some (str @ concat ps, rs)"
  by (induction ps arbitrary: str) auto

section \<open>Properties\<close>

text \<open>
  C3. A listener with a token is served: whatever pieces his request arrives in and the answer is
  taken in, the file his parameters name is opened, and the wire holds the header and the bytes of
  the file from the first he asked for; one line goes to the log, unless it is too long for the
  queue.
\<close>

theorem listener_served:
  assumes "params_ok kvs" "plain_text ver"
    and "\<And>b e. r = Some (b, e) \<Longrightarrow> int_range b \<and> 0 \<le> e \<and> int_range e"
    and "sparse_file (aliases cfg) (requested kvs ver r) = (0, path, d)" "disk path = Readable bs"
    and "m_token d = Some tok" "m_alias d = Some al" "mRange d = (b, l) # more_ranges"
    and "0 \<le> b" "int_range b" "stop = answer_stop l (int (length bs))" "int_range (stop + 1)"
    and "int (length bs) < 2 ^ 31"
    and "header = answer_header now d b stop (int (length bs))" "length header \<le> BUFFER_SIZE"
    and "body = take (nat (stop + 1)) (drop (nat b) bs)"
    and "\<forall>p \<in> set pieces. p \<noteq> []" "concat pieces = request_text kvs ver r"
    and "Failed \<notin> set cs" "length header + length body \<le> progress cs"
  shows "\<exists>a. given a \<and> response a = 206 \<and> (0 \<le> stop + 1 \<longrightarrow> response_size a = int (length body)) \<and>
    serve_listener rnd n cfg disk ip now secs True True (map Got pieces @ RecvAgain # rs) cs queue =
      Some (Done (header @ chars body,
        if MSG_SIZE < length (get_log_str ip now secs d a) then Undefined
        else Done (queue @ [get_log_str ip now secs d a @
               replicate (MSG_SIZE - length (get_log_str ip now secs d a)) NUL])))"
proof -
  define req where "req = request_text kvs ver r"
  define noted where "noted = no_answer\<lparr>file_size := int (length bs), range_start := b, range_stop := l\<rparr>"
  have size: "c_int (int (length bs)) = int (length bs)" using assms(13) by (simp add: c_int_id int_range_def)
  have sp: "sparse (aliases cfg) req = Some (0, path, d)"
    using sparse_loop_request [OF assms(1-3)] assms(4) by (simp add: req_def sparse_def)
  have "mdata_ok (requested kvs ver r)"
    by (rule sparse_loop_ok [OF sparse_loop_request [OF assms(1,2)] no_data_ok]) (rule assms(3))
  then have "path \<noteq> []" using sparse_file_ok [OF _ assms(4)] by blast
  have pv: "preview rnd n cfg d bs = Some (Done (0, int (length bs), opened bs))"
    using assms(6) size by (simp add: preview_def)
  have at: "rest (seek_to (c_int (0 + b)) (opened bs)) = drop (nat b) bs"
    using file_rest [OF pv assms(9)] assms(10) by (simp add: c_int_id)
  have sent: "send_file rnd n cfg now d bs cs [] = transfer noted header (drop (nat b) bs) stop cs []"
    using at by (simp add: send_file_def assms(8,11,14) pv Let_def noted_def size)
  have enough: "length header + length (chars body) \<le> progress cs" using assms(20) by (simp add: chars_length)
  have body: "chars body = chars (take (nat (stop + 1)) (drop (nat b) bs))" by (simp add: assms(16))
  obtain a w cs' where t: "transfer noted header (drop (nat b) bs) stop cs [] = Some (Done (a, w, cs'))"
    using transfer_sends(2) [OF assms(15,12) body enough, of noted "[]"] by auto
  have w: "w = header @ chars body" "given a" "0 \<le> stop + 1 \<Longrightarrow> response_size a = int (length body)"
    using transfer_sends(1) [OF assms(15,12) body t] assms(19) by (auto simp: chars_length)
  have "response a = 206" using transfer_response [OF t] by (simp add: noted_def no_answer_def)
  have "create_answer rnd n cfg disk now req cs [] = Some (Done (d, a, w, cs'))"
    using sp \<open>path \<noteq> []\<close> assms(5) sent t by (simp add: create_answer_def Let_def)
  then have q: "query_parameters rnd n cfg disk ip now secs req cs [] =
      Some (Done ((a, w, cs'), Done (get_log_str ip now secs d a)))"
    using sp assms(7) by (simp add: query_parameters_def frees_constant_def)
  have recv: "recv_loop (map Got pieces @ RecvAgain # rs) [] = Some (req, rs)"
    using recv_loop_pieces [OF assms(17)] assms(18) by (simp add: req_def)
  have whole: "takeWhile (\<lambda>c. c \<noteq> NUL) req = req"
    using request_text_plain(1) [OF assms(1,2), of r] by (auto simp: req_def takeWhile_eq_all_conv)
  have long: "\<not> length req \<le> 10" using request_text_plain(2) [OF assms(1,2), of r] by (simp add: req_def)
  have line: "get_log_str ip now secs d a \<noteq> []" by (simp add: get_log_str_def Let_def split: option.splits)
  have "serve_listener rnd n cfg disk ip now secs True True (map Got pieces @ RecvAgain # rs) cs queue =
      Some (Done (header @ chars body,
        if MSG_SIZE < length (get_log_str ip now secs d a) then Undefined
        else Done (queue @ [get_log_str ip now secs d a @
               replicate (MSG_SIZE - length (get_log_str ip now secs d a)) NUL])))"
    unfolding serve_listener_def recv option.case prod.case whole q
    using w(1) long line by (simp add: msg_send_def)
  then show ?thesis using w \<open>response a = 206\<close> by (intro exI [of _ a]) simp
qed

definition demo_params :: "(string \<times> string) list" where
  "demo_params =
     [(''token'', replicate 32 CHR ''t''), (''module'', ''mdb''), (''id'', ''7''), (''alias'', ''101.ru'')]"

lemma listener_served_witness:
  "\<exists>d (a :: answer) q. given a \<and> response_size a = 5 \<and>
    serve_listener id 0 demo_music (\<lambda>_. Readable demo_media) ''10.0.0.1'' demo_date ''0'' True True
      [Got (request_text demo_params ''1.1'' (Some (2, 4))), RecvAgain] (replicate 500 (Sent 1000)) [] =
    Some (Done (answer_header demo_date d 2 4 10 @ chars [3, 4, 5, 6, 7], q))"
proof -
  have ok: "params_ok demo_params" "plain_text ''1.1''"
    by (simp_all add: demo_params_def params_ok_def query_keys_def plain_text_def NUL_def cr_lf_def)
  have "(\<lambda>(st, path, d). (st, m_token d, m_alias d, mRange d, m_http d, is_aac d))
      (sparse_file (aliases demo_music) (requested demo_params ''1.1'' (Some (2, 4)))) =
    (0, Some (replicate 32 CHR ''t''), Some ''101.ru'', [(2, 4)], Some ''1.1'', True)"
    by code_simp
  then obtain path d where d: "sparse_file (aliases demo_music) (requested demo_params ''1.1'' (Some (2, 4))) = (0, path, d)"
    "m_token d = Some (replicate 32 CHR ''t'')" "m_alias d = Some ''101.ru''" "mRange d = (2, 4) # []"
    "m_http d = Some ''1.1''" "is_aac d"
    by (auto split: prod.split_asm)
  have head: "answer_header demo_date d 2 4 10 = answer_header demo_date (demo_listener []) 2 4 10"
    using d(5,6) by (simp add: answer_header_def demo_listener_def)
  have stop: "4 = answer_stop 4 (int (length demo_media))" by (simp add: answer_stop_def)
  have len: "length (answer_header demo_date d 2 4 (int (length demo_media))) \<le> BUFFER_SIZE"
    using demo_answer_header [of "[]"] head by (simp add: BUFFER_SIZE_def demo_media_def)
  have body: "[3, 4, 5, 6, 7] = take (nat (4 + 1)) (drop (nat 2) demo_media)"
    by (simp add: demo_media_def numeral_eq_Suc [symmetric])
  have cs: "progress (replicate 500 (Sent 1000)) = 500" by (simp add: progress_def)
  have "\<exists>a. given a \<and> response a = 206 \<and> (0 \<le> (4::int) + 1 \<longrightarrow> response_size a = int (length [3, 4, 5, 6, 7 :: byte])) \<and>
    serve_listener id 0 demo_music (\<lambda>_. Readable demo_media) ''10.0.0.1'' demo_date ''0'' True True
      (map Got [request_text demo_params ''1.1'' (Some (2, 4))] @ RecvAgain # []) (replicate 500 (Sent 1000)) [] =
      Some (Done (answer_header demo_date d 2 4 (int (length demo_media)) @ chars [3, 4, 5, 6, 7],
        if MSG_SIZE < length (get_log_str ''10.0.0.1'' demo_date ''0'' d a) then Undefined
        else Done ([] @ [get_log_str ''10.0.0.1'' demo_date ''0'' d a @
               replicate (MSG_SIZE - length (get_log_str ''10.0.0.1'' demo_date ''0'' d a)) NUL])))"
  proof (rule listener_served [OF ok _ d(1) refl d(2,3,4) _ _ stop _ _ refl len body])
    show "\<forall>p \<in> set [request_text demo_params ''1.1'' (Some (2, 4))]. p \<noteq> []"
      using request_text_plain(2) [OF ok, of "Some (2, 4)"] by auto
    show "length (answer_header demo_date d 2 4 (int (length demo_media))) + length [3, 4, 5, 6, 7 :: byte]
        \<le> progress (replicate 500 (Sent 1000))"
      using demo_answer_header [of "[]"] head cs by (simp add: demo_media_def)
  qed (simp_all add: int_range_def demo_media_def)
  moreover have "int (length demo_media) = 10" by (simp add: demo_media_def)
  ultimately obtain a where a: "given a" "response_size a = 5"
    "serve_listener id 0 demo_music (\<lambda>_. Readable demo_media) ''10.0.0.1'' demo_date ''0'' True True
      [Got (request_text demo_params ''1.1'' (Some (2, 4))), RecvAgain] (replicate 500 (Sent 1000)) [] =
      Some (Done (answer_header demo_date d 2 4 10 @ chars [3, 4, 5, 6, 7],
        if MSG_SIZE < length (get_log_str ''10.0.0.1'' demo_date ''0'' d a) then Undefined
        else Done ([] @ [get_log_str ''10.0.0.1'' demo_date ''0'' d a @
               replicate (MSG_SIZE - length (get_log_str ''10.0.0.1'' demo_date ''0'' d a)) NUL])))"
    by (elim exE conjE) (simp only: list.map append.simps, simp)
  show ?thesis by (rule exI [of _ d], rule exI [of _ a], rule exI, intro conjI) (rule a(1), rule a(2), rule a(3))
qed

end
