(* ===== verification/Spec2Isabelle.thy ===== *)
theory Spec2Isabelle
  imports Rotator_Ends Player_Aac Player_Mpx Player_Safety Pacing Dispatcher Player_Log
    Base64 Text Url Socket LogFile LogMsg Error_Monitor Remote
    Logger_Server Music_Config Music_Whole
begin

text \<open>
  \<^bold>\<open>The program.\<close> The repository is an internet radio in four parts.
  \<^item> \<open>rotator/\<close>: a PHP extension. A script hands it folders of tracks with rules (how often a
    folder takes part, how long an artist or a title must not return) and gets a play list back.
  \<^item> \<open>accordion_V10.X/\<close>: the player of a channel. It fetches the play list from a script, reads
    the files frame by frame, sends them to an icecast server no faster than they sound,
    and reports the titles to a script.
  \<^item> \<open>logger/\<close>: a log server. Its clients send messages over TCP; it writes them to files
    that it rotates, passes them on to another server, and mails errors that pile up.
  \<^item> \<open>musicgo_alias/\<close>: a music server. A listener asks for a file in an HTTP request; one with a
    token gets the file, or the range he asks for, one without gets a preview from the middle.

  \<^bold>\<open>The theories\<close>, each with the source it follows.
  \<^item> \<open>Prelude\<close>: character classes, number parsing, text search and decimal output of the C
    library, the conversions to machine integers, lists and loops. All components rest on it.
  \<^item> Rotator. \<open>Php_Array\<close>: the tables of the script and the wrapped reads of
    \<open>rotator_ctrl.cpp\<close>. \<open>Timer\<close>: \<open>obj_timer.h\<close>. \<open>Rotator\<close>: the class \<open>TRotator_Ctrl\<close>, its
    state the record \<open>rot\<close> of the same fields. \<open>Rotator_Walk\<close>: what the walk over the folders
    keeps. \<open>Rotator_Ends\<close>: when it ends.
  \<^item> Player, readers. \<open>Frames\<close>: the stream of the C library the readers share. \<open>Aac\<close>: \<open>aac.cpp\<close>.
    \<open>Mpx\<close>: \<open>mpx.cpp\<close>.
  \<^item> Player, loop. \<open>Parameters\<close>: \<open>parameters.cpp\<close>, the list in use, the list to come and the
    file that survives a restart. \<open>Playlist\<close>: \<open>TPlaylist\<close> of \<open>playlist.cpp\<close>, one definition per
    turn of its loop. \<open>Player_Run\<close>: runs of turns, and the locale of the readers. \<open>Player_Aac\<close>,
    \<open>Player_Mpx\<close>: the two tables of reader functions. \<open>Player_Safety\<close>: a step relation with the
    other threads. \<open>Pacing\<close>: the pauses between blocks.
  \<^item> Player, surroundings. \<open>Ini\<close>: \<open>ini.c\<close> and \<open>INIReader.cpp\<close>. \<open>Config\<close>: \<open>config.cpp\<close>. \<open>Url\<close>:
    \<open>url.cpp\<close>. \<open>Socket\<close>: \<open>tclientsocket.cpp\<close>. \<open>Base64\<close>, \<open>Text\<close>: \<open>base64.cpp\<close>, \<open>common.cpp\<close>.
    \<open>Handlers\<close>: the threads of \<open>handler_proc.cpp\<close>. \<open>Player_Log\<close>: \<open>log.cpp\<close>. \<open>Dispatcher\<close>: the
    program from its command line to the loop.
  \<^item> Logger. \<open>LogMsg\<close>: \<open>tlogmsg.cpp\<close>, \<open>clientmessage.cpp\<close>. \<open>LogFile\<close>: \<open>file.cpp\<close>,
    \<open>abstractfile.cpp\<close>. \<open>Error_Monitor\<close>: \<open>errormonitor.cpp\<close>. \<open>Remote\<close>: \<open>remotethread.cpp\<close>.
    \<open>Logger_Config\<close>: \<open>config.cpp\<close> and the start of \<open>Logger_V1.X.cpp\<close>. \<open>Logger_Server\<close>: the thread
    of a client and the accepting loop of \<open>tclientsocket.cpp\<close>, and \<open>email.cpp\<close>.
  \<^item> Music server. \<open>Music_Request\<close>: the parser of \<open>Parameters.cpp\<close>, which cuts its buffer in
    place. \<open>Music_Parse\<close>: what it makes of a request. \<open>Music_Segment\<close>: \<open>aacbitrate.cpp\<close> and
    \<open>mp3bitrate.cpp\<close>. \<open>Music_Tune\<close>: what their scan finds in a file of whole frames.
    \<open>Music_Answer\<close>: the replies and the transfer, \<open>mqueue.cpp\<close>, and the process of a listener.
    \<open>Music_Server\<close>: what goes over the wire. \<open>Music_Config\<close>: \<open>config.cpp\<close> and the start.
    \<open>Music_Whole\<close>: request to answer.

  \<^bold>\<open>How the parts meet.\<close> Where one component calls another, the definitions do: \<open>Handlers\<close>
    calls \<open>Url\<close>, \<open>Socket\<close> and \<open>Parameters\<close>; \<open>Dispatcher\<close> calls \<open>Config\<close>, \<open>Handlers\<close> and
    \<open>Playlist\<close>; the process of a listener calls the parser, the segment and the transfer. The
    interfaces are locales, each interpreted on the code's own definitions: the readers as the
    player uses them, an audio frame format, a log's files as rotation sees them, and the like.

  \<^bold>\<open>Conventions.\<close>
  \<^item> Names are those of the source; a prefix tells two functions of one name apart
    (\<open>aac_GetFileInfo\<close>, \<open>music_ReadIni\<close>).
  \<^item> State is a record with the fields of the class; an operation takes it and returns it.
  \<^item> What lies outside comes in as an argument: the time, the contents of files, and what the
    kernel answers to each call, as a list or a function of the call's number. A theorem
    about a script holds for each of its answers, or says which it needs.
  \<^item> \<open>None\<close>, or a result of its own with the name \<open>Undefined\<close>, stands for a run that ends the
    process or has no defined meaning: an exception no one catches, a write past a buffer,
    a division by zero, a pointer that is not valid.
  \<^item> Loops without an end of their own have fuel or a schedule of outer events. The number of
    turns that is enough is part of the theorems: \<open>Rotator_Ends\<close> gives it from the
    weights of the folders and the tracks to reach; \<open>Aac\<close>, \<open>Mpx\<close> and \<open>Music_Tune\<close> from the
    number of frames; \<open>Socket\<close> from the bytes left to send. For a file that keeps its
    loop in place no fuel is enough, and theorems about it say so.
  \<^item> Machine integers are words, or integers reduced by the conversions of \<open>Prelude\<close>, where
    the code can pass their limits.

  \<^bold>\<open>What is shown.\<close> The properties follow the numbers C1 to C40, the most important ones first.
  \<^item> Compositions: a first start of the player, from its command line over the query for a
    list to the sound of its tracks at the icecast server; a listener of the music server
    from his request to the bytes of the file; the log server from its command line over
    the clients at its socket to the lines of a file.
  \<^item> Rotator: a finished list keeps the rules, the bounds and the sum of lengths, and the walk
    comes to an end.
  \<^item> Player: each stream sends the files of its list, whole and in order; no iterator passes
    the end of its list; a header precedes sound; the pauses are bounded; the list
    in use survives a restart.
  \<^item> Logger: each client is served while its thread is prompt, lines reach the files, rotation keeps the newest, messages pass on to the other
    server, mails keep their distance.
  \<^item> Texts: round trips of requests, addresses, configuration files, encodings and lists.
  \<^item> Faults: an input that leads to each fault that is a property is part of its theorem.

  \<^bold>\<open>What the code does not do\<close> as it means to came out of the definitions and is listed as
    findings in the manifest. Those stated as theorems here: a range that does not begin
    at 0 is sent too long; a listener without a token gets a whole file by a range with an
    end; a request without an alias frees a literal; an alias with a capital letter
    makes the path of the listener count from the root; a client of the log server that comes
    early takes the place of the one before it, one that pauses can end the server, and
    whether a bad file of settings is accepted depends on what memory held.

  \<^bold>\<open>Not modelled.\<close>
  \<^item> \<open>accordion_V9.X/\<close>: two earlier copies of the player. Their readers, addresses, parameters,
    queries and helpers are the same files as those modelled here.
  \<^item> Functions that nothing calls, such as the readers of titles in sound files,
    \<open>analise_folders_by_index\<close> and \<open>tlocalfile\<close>.
  \<^item> \<open>rotator.cpp\<close>: the registration of the class with PHP and its argument passing.
  \<^item> The copies of \<open>common.cpp\<close>, \<open>log.cpp\<close>, \<open>base64.cpp\<close> and \<open>INIReader.cpp\<close> in the other programs,
    as far as they are the same; the client functions of the music server's
    \<open>tclientsocket.cpp\<close> that nothing calls.
  \<^item> What is only between program and kernel: signal masks and handlers, turning into a
    daemon, pid files, owners and modes of files, listening sockets and \<open>fork\<close>, the
    starting of threads. Threads that share data are orders of their steps.
  \<^item> Output for people: console messages, log lines of the programs themselves where they
    carry nothing back, the pipe to the mail program, cue sheets and
    tag texts of the readers.
  \<^item> Vendored PHP files, scripts and pages: other languages, and not the program's core.
\<close>

end
